(* ===== verification/Go_Prelude.thy ===== *)
theory Go_Prelude
  imports Main "HOL-Library.Word" "HOL-Library.Sublist"
begin

text \<open>
  The parts of Go and of its standard library that the program uses and every component
  shares: byte strings (\<open>string\<close> is a list of bytes, as in Go), \<open>strings.TrimSpace\<close>,
  \<open>strings.Fields\<close>, \<open>strings.Split\<close>, \<open>strings.Cut\<close>, \<open>strings.Contains\<close>,
  \<open>strings.ToLower\<close>, \<open>strings.EqualFold\<close>, \<open>strconv.Itoa\<close>, \<open>strconv.Atoi\<close>,
  \<open>encoding/hex\<close>, 64-bit \<open>int\<close> arithmetic and the outcomes of \<open>net.Conn\<close> calls.
  The lemmas declared \<open>simp\<close> or collected in \<open>go_text\<close> carry the proofs of the
  components.
\<close>

named_theorems go_text \<open>facts about trimming, splitting and formatting of byte strings\<close>

section \<open>Integers\<close>

text \<open>
  \<open>int\<close> is a 64-bit two's complement integer. It is modelled by HOL's \<open>int\<close>; where an
  operation of the source can leave the range, the model wraps its result with \<open>wrap64\<close>.
\<close>

definition min_int64 :: int where
  "min_int64 = - 9223372036854775808"

definition max_int64 :: int where
  "max_int64 = 9223372036854775807"

definition is_int64 :: "int \<Rightarrow> bool" where
  "is_int64 i \<longleftrightarrow> min_int64 \<le> i \<and> i \<le> max_int64"

definition wrap64 :: "int \<Rightarrow> int" where
  "wrap64 i = (i + 9223372036854775808) mod 18446744073709551616 - 9223372036854775808"

definition go_div :: "int \<Rightarrow> int \<Rightarrow> int" where
  "go_div a b = sgn a * sgn b * (\<bar>a\<bar> div \<bar>b\<bar>)"

definition go_mod :: "int \<Rightarrow> int \<Rightarrow> int" where
  "go_mod a b = a - b * go_div a b"

lemma wrap64_id [simp]: "is_int64 i \<Longrightarrow> wrap64 i = i"
  by (simp add: wrap64_def is_int64_def min_int64_def max_int64_def)

lemma go_div_nonneg [simp]: "0 \<le> a \<Longrightarrow> 0 < b \<Longrightarrow> go_div a b = a div b"
  by (cases "a = 0") (simp_all add: go_div_def)

lemma go_mod_nonneg [simp]: "0 \<le> a \<Longrightarrow> 0 < b \<Longrightarrow> go_mod a b = a mod b"
  by (simp add: go_mod_def minus_mult_div_eq_mod)

lemma le_div_iff_int:
  fixes a b n :: int
  assumes "0 < b"
  shows "n \<le> a div b \<longleftrightarrow> b * n \<le> a"
proof
  assume "n \<le> a div b"
  then have "b * n \<le> b * (a div b)" using assms by simp
  also have "\<dots> \<le> a" using pos_mod_sign [OF assms, of a] mult_div_mod_eq [of b a] by linarith
  finally show "b * n \<le> a" .
next
  assume "b * n \<le> a"
  then have "b * n div b \<le> a div b" using assms by (rule zdiv_mono1)
  then show "n \<le> a div b" using assms by simp
qed

section \<open>Bytes and white space\<close>

abbreviation byte_val :: "char \<Rightarrow> nat" where
  "byte_val c \<equiv> of_char c"

text \<open>
  \<open>unicode.IsSpace\<close>: the UTF-8 encodings of the white space runes. UTF-8 is
  self-synchronising and every sequence below starts with a byte that is not a
  continuation byte, so a decoder meets a white space rune exactly where one of these byte
  sequences occurs, in valid and in invalid text, from the left and from the right.
\<close>

definition space_seqs :: "string list" where
  "space_seqs =
     [[CHR 0x09], [CHR 0x0A], [CHR 0x0B], [CHR 0x0C], [CHR 0x0D], [CHR 0x20],
      [CHR 0xC2, CHR 0x85], [CHR 0xC2, CHR 0xA0], [CHR 0xE1, CHR 0x9A, CHR 0x80],
      [CHR 0xE2, CHR 0x80, CHR 0x80], [CHR 0xE2, CHR 0x80, CHR 0x81],
      [CHR 0xE2, CHR 0x80, CHR 0x82], [CHR 0xE2, CHR 0x80, CHR 0x83],
      [CHR 0xE2, CHR 0x80, CHR 0x84], [CHR 0xE2, CHR 0x80, CHR 0x85],
      [CHR 0xE2, CHR 0x80, CHR 0x86], [CHR 0xE2, CHR 0x80, CHR 0x87],
      [CHR 0xE2, CHR 0x80, CHR 0x88], [CHR 0xE2, CHR 0x80, CHR 0x89],
      [CHR 0xE2, CHR 0x80, CHR 0x8A], [CHR 0xE2, CHR 0x80, CHR 0xA8],
      [CHR 0xE2, CHR 0x80, CHR 0xA9], [CHR 0xE2, CHR 0x80, CHR 0xAF],
      [CHR 0xE2, CHR 0x81, CHR 0x9F], [CHR 0xE3, CHR 0x80, CHR 0x80]]"

fun match_width :: "string list \<Rightarrow> string \<Rightarrow> nat" where
  "match_width [] s = 0"
| "match_width (p # ps) s = (if take (length p) s = p \<and> s \<noteq> [] then length p else match_width ps s)"

definition space_width :: "string \<Rightarrow> nat" where
  "space_width s = match_width space_seqs s"

definition space_width_rev :: "string \<Rightarrow> nat" where
  "space_width_rev s = match_width (map rev space_seqs) s"

fun trim_with :: "(string \<Rightarrow> nat) \<Rightarrow> string \<Rightarrow> string" where
  "trim_with w [] = []"
| "trim_with w (c # s) = (if w (c # s) = 0 then c # s else trim_with w (drop (w (c # s) - 1) s))"

definition TrimSpace :: "string \<Rightarrow> string" where
  "TrimSpace s = rev (trim_with space_width_rev (rev (trim_with space_width s)))"

fun fields_from :: "string \<Rightarrow> string \<Rightarrow> string list" where
  "fields_from cur [] = (if cur = [] then [] else [rev cur])"
| "fields_from cur (c # s) =
     (if space_width (c # s) = 0 then fields_from (c # cur) s
      else (if cur = [] then [] else [rev cur]) @ fields_from [] (drop (space_width (c # s) - 1) s))"

definition Fields :: "string \<Rightarrow> string list" where
  "Fields s = fields_from [] s"

text \<open>\<open>strings.Split\<close> and \<open>strings.Cut\<close> with a separator of one byte.\<close>

fun split_char :: "char \<Rightarrow> string \<Rightarrow> string list" where
  "split_char d [] = [[]]"
| "split_char d (c # s) =
     (if c = d then [] # split_char d s
      else (case split_char d s of [] \<Rightarrow> [[c]] | w # ws \<Rightarrow> (c # w) # ws))"

fun join_with :: "string \<Rightarrow> string list \<Rightarrow> string" where
  "join_with d [] = []"
| "join_with d [w] = w"
| "join_with d (w # v # ws) = w @ d @ join_with d (v # ws)"

definition cut_char :: "char \<Rightarrow> string \<Rightarrow> string \<times> string \<times> bool" where
  "cut_char d s =
     (let before = takeWhile (\<lambda>c. c \<noteq> d) s; rest = dropWhile (\<lambda>c. c \<noteq> d) s
      in case rest of [] \<Rightarrow> (s, [], False) | _ # after \<Rightarrow> (before, after, True))"

fun str_contains :: "string \<Rightarrow> string \<Rightarrow> bool" where
  "str_contains [] p = (p = [])"
| "str_contains (c # s) p = (take (length p) (c # s) = p \<or> str_contains s p)"

definition has_prefix :: "string \<Rightarrow> string \<Rightarrow> bool" where
  "has_prefix s p \<longleftrightarrow> take (length p) s = p"

definition has_suffix :: "string \<Rightarrow> string \<Rightarrow> bool" where
  "has_suffix s p \<longleftrightarrow> length p \<le> length s \<and> drop (length s - length p) s = p"

definition trim_prefix :: "string \<Rightarrow> string \<Rightarrow> string" where
  "trim_prefix s p = (if has_prefix s p then drop (length p) s else s)"

text \<open>
  \<open>strings.ToLower\<close>. Two runes outside ASCII have an ASCII lower case: the Kelvin sign
  (\<open>k\<close>) and the dotted capital I (\<open>i\<close>). The other runes outside ASCII keep bytes outside
  ASCII; the program only compares the result with ASCII text, which such bytes never
  match, so they are left as they are.
\<close>

definition lower_byte :: "char \<Rightarrow> char" where
  "lower_byte c = (if 65 \<le> byte_val c \<and> byte_val c \<le> 90 then char_of (byte_val c + 32) else c)"

fun ToLower :: "string \<Rightarrow> string" where
  "ToLower [] = []"
| "ToLower (c # s) =
     (if take 3 (c # s) = [CHR 0xE2, CHR 0x84, CHR 0xAA] then CHR ''k'' # ToLower (drop 2 s)
      else if take 2 (c # s) = [CHR 0xC4, CHR 0xB0] then CHR ''i'' # ToLower (drop 1 s)
      else lower_byte c # ToLower s)"

text \<open>
  \<open>strings.EqualFold(s, t)\<close> against ASCII text: besides the letter case, simple folding
  identifies the Kelvin sign with \<open>k\<close> and the long s with \<open>s\<close>.
\<close>

fun fold_ascii :: "string \<Rightarrow> string" where
  "fold_ascii [] = []"
| "fold_ascii (c # s) =
     (if take 3 (c # s) = [CHR 0xE2, CHR 0x84, CHR 0xAA] then CHR ''k'' # fold_ascii (drop 2 s)
      else if take 2 (c # s) = [CHR 0xC5, CHR 0xBF] then CHR ''s'' # fold_ascii (drop 1 s)
      else lower_byte c # fold_ascii s)"

definition EqualFold :: "string \<Rightarrow> string \<Rightarrow> bool" where
  "EqualFold s t \<longleftrightarrow> fold_ascii s = fold_ascii t"

section \<open>Numbers as text\<close>

definition is_digit :: "char \<Rightarrow> bool" where
  "is_digit c \<longleftrightarrow> 48 \<le> byte_val c \<and> byte_val c \<le> 57"

definition digit_char :: "nat \<Rightarrow> char" where
  "digit_char n = char_of (48 + n)"

definition digit_val :: "char \<Rightarrow> nat" where
  "digit_val c = byte_val c - 48"

fun dec_digits :: "nat \<Rightarrow> string" where
  "dec_digits n = (if n < 10 then [digit_char n] else dec_digits (n div 10) @ [digit_char (n mod 10)])"

declare dec_digits.simps [simp del]

definition dec_value :: "string \<Rightarrow> nat" where
  "dec_value ds = foldl (\<lambda>acc c. 10 * acc + digit_val c) 0 ds"

definition Itoa :: "int \<Rightarrow> string" where
  "Itoa i = (if i < 0 then CHR ''-'' # dec_digits (nat (- i)) else dec_digits (nat i))"

definition atoi_sign :: "string \<Rightarrow> bool \<times> string" where
  "atoi_sign s =
     (case s of [] \<Rightarrow> (False, [])
      | c # r \<Rightarrow> if c = CHR ''-'' then (True, r) else if c = CHR ''+'' then (False, r) else (False, s))"

definition Atoi :: "string \<Rightarrow> int option" where
  "Atoi s =
     (let (neg, ds) = atoi_sign s; n = int (dec_value ds); v = (if neg then - n else n)
      in if ds = [] \<or> \<not> list_all is_digit ds then None
         else if is_int64 v then Some v else None)"

section \<open>Hexadecimal\<close>

definition hex_char :: "nat \<Rightarrow> char" where
  "hex_char n = (if n < 10 then char_of (48 + n) else char_of (87 + n))"

definition hex_val :: "char \<Rightarrow> nat option" where
  "hex_val c =
     (let n = byte_val c in
      if 48 \<le> n \<and> n \<le> 57 then Some (n - 48)
      else if 97 \<le> n \<and> n \<le> 102 then Some (n - 87)
      else if 65 \<le> n \<and> n \<le> 70 then Some (n - 55)
      else None)"

fun hex_encode :: "string \<Rightarrow> string" where
  "hex_encode [] = []"
| "hex_encode (b # bs) = hex_char (byte_val b div 16) # hex_char (byte_val b mod 16) # hex_encode bs"

text \<open>\<open>hex.DecodeString\<close>: \<open>None\<close> is either of its errors, a bad byte or an odd length.\<close>

fun hex_decode :: "string \<Rightarrow> string option" where
  "hex_decode [] = Some []"
| "hex_decode [c] = None"
| "hex_decode (c # d # s) =
     (case (hex_val c, hex_val d) of
        (Some h, Some l) \<Rightarrow>
          (case hex_decode s of Some bs \<Rightarrow> Some (char_of (16 * h + l) # bs) | None \<Rightarrow> None)
      | _ \<Rightarrow> None)"

section \<open>Connections\<close>

text \<open>
  A \<open>net.Conn\<close> is not code of the program: the outcomes of its calls are parameters.
  \<open>io_err\<close> is what the program can learn of an error value: the sentinel it wraps, whether
  it is a \<open>net.Error\<close> with \<open>Timeout()\<close>, and its text.
\<close>

datatype sentinel = NetErrClosed | IoErrClosedPipe | IoEOF | OtherError

record io_err =
  err_is :: sentinel
  err_timeout :: bool
  err_text :: string

text \<open>
  One control exchange over a connection: the result of setting and of clearing the
  deadline, and the result of the single \<open>Write\<close> or \<open>Read\<close> between them. A \<open>Read\<close>
  into a buffer of \<open>n\<close> bytes returns at most \<open>n\<close> bytes.
\<close>

record conn_io =
  set_deadline :: "io_err option"
  reset_deadline :: "io_err option"
  conn_write :: "string \<Rightarrow> nat \<times> io_err option"
  conn_read :: "nat \<Rightarrow> string \<times> io_err option"

text \<open>A connection in working order that delivers \<open>d\<close> as one datagram.\<close>

definition datagram_conn :: "string \<Rightarrow> conn_io" where
  "datagram_conn d =
     \<lparr>set_deadline = None, reset_deadline = None,
      conn_write = (\<lambda>p. (length p, None)), conn_read = (\<lambda>n. (take n d, None))\<rparr>"

section \<open>Lemmas\<close>

definition graphic :: "char \<Rightarrow> bool" where
  "graphic c \<longleftrightarrow> 33 \<le> byte_val c \<and> byte_val c \<le> 126"

text \<open>White space sequences never contain a graphic byte, so graphic text is never trimmed.\<close>

lemma match_width_graphic:
  "list_all (\<lambda>p. p \<noteq> [] \<and> \<not> graphic (hd p)) ps \<Longrightarrow> graphic c \<Longrightarrow> match_width ps (c # s) = 0"
  by (induction ps) (auto simp: neq_Nil_conv)

lemma space_width_graphic [simp]: "graphic c \<Longrightarrow> space_width (c # s) = 0"
  unfolding space_width_def
  by (rule match_width_graphic) (simp_all add: space_seqs_def graphic_def)

lemma space_width_rev_graphic [simp]: "graphic c \<Longrightarrow> space_width_rev (c # s) = 0"
  unfolding space_width_rev_def
  by (rule match_width_graphic) (simp_all add: space_seqs_def graphic_def)

lemma space_width_blank [simp]:
  "space_width (CHR '' '' # s) = 1" "space_width (CHR 0x0A # s) = 1"
  by (simp_all add: space_width_def space_seqs_def)

lemma space_width_rev_newline [simp]: "space_width_rev (CHR 0x0A # s) = 1"
  by (simp add: space_width_rev_def space_seqs_def)

lemma trim_with_keep: "s = [] \<or> w s = 0 \<Longrightarrow> trim_with w s = s"
  by (cases s) auto

lemma trim_left_graphic [simp]: "graphic c \<Longrightarrow> trim_with space_width (c # s) = c # s"
  by (simp add: trim_with_keep)

lemma trim_right_graphic [simp]: "graphic c \<Longrightarrow> trim_with space_width_rev (c # s) = c # s"
  by (simp add: trim_with_keep)

lemma TrimSpace_graphic_ends [go_text]:
  assumes "s \<noteq> []" "graphic (hd s)" "graphic (last s)"
  shows "TrimSpace s = s"
proof -
  have "trim_with space_width s = s"
    using assms by (cases s) auto
  moreover have "trim_with space_width_rev (rev s) = rev s"
    using assms by (cases s rule: rev_cases) auto
  ultimately show ?thesis by (simp add: TrimSpace_def)
qed

lemma TrimSpace_newline [go_text]:
  assumes "s \<noteq> []" "graphic (hd s)" "graphic (last s)"
  shows "TrimSpace (s @ [CHR 0x0A]) = s"
proof -
  have "trim_with space_width (s @ [CHR 0x0A]) = s @ [CHR 0x0A]"
    using assms by (cases s) auto
  moreover have "trim_with space_width_rev (rev s) = rev s"
    using assms by (cases s rule: rev_cases) auto
  ultimately show ?thesis by (simp add: TrimSpace_def)
qed

lemma TrimSpace_Nil [simp]: "TrimSpace [] = []"
  by (simp add: TrimSpace_def)

lemma TrimSpace_graphic [go_text]: "list_all graphic s \<Longrightarrow> TrimSpace s = s"
  by (cases "s = []") (auto intro!: TrimSpace_graphic_ends simp: list_all_iff)

text \<open>Trimming is idempotent: what is cut on the right leaves no white space on the left.\<close>

lemma match_width_take:
  "[] \<notin> set ps \<Longrightarrow> match_width ps s = 0 \<Longrightarrow> match_width ps (take k s) = 0"
proof (induction ps)
  case (Cons p ps)
  then have no: "take (length p) s \<noteq> p \<or> s = []" by (auto split: if_splits)
  have "\<not> (take (length p) (take k s) = p \<and> take k s \<noteq> [])"
  proof
    assume "take (length p) (take k s) = p \<and> take k s \<noteq> []"
    then have "take (min (length p) k) s = p" "s \<noteq> []" by (auto simp: min_def)
    then have "take (length p) s = p" by (metis append_eq_conv_conj append_take_drop_id)
    with no \<open>s \<noteq> []\<close> show False by blast
  qed
  with Cons show ?case by (auto split: if_splits)
qed simp

lemma trim_with_done: "trim_with w s = [] \<or> w (trim_with w s) = 0"
  by (induction w s rule: trim_with.induct) auto

lemma trim_with_drop: "\<exists>k. trim_with w s = drop k s"
proof (induction w s rule: trim_with.induct)
  case (2 w c s)
  show ?case
  proof (cases "w (c # s) = 0")
    case True
    then show ?thesis by (auto intro: exI [of _ 0])
  next
    case False
    with 2 obtain k where "trim_with w (c # s) = drop k (drop (w (c # s) - 1) s)" by auto
    then show ?thesis by (auto intro: exI [of _ "Suc (k + (w (c # s) - 1))"])
  qed
qed simp

lemma TrimSpace_idem [simp]: "TrimSpace (TrimSpace s) = TrimSpace s"
proof -
  define t where "t = trim_with space_width s"
  obtain k where k: "trim_with space_width_rev (rev t) = drop k (rev t)" using trim_with_drop by blast
  then have u: "TrimSpace s = take (length t - k) t" by (simp add: TrimSpace_def t_def rev_drop)
  have "TrimSpace s = [] \<or> space_width (TrimSpace s) = 0"
  proof (cases "t = []")
    case False
    then have "match_width space_seqs t = 0" using trim_with_done [of space_width s] by (simp add: t_def space_width_def)
    moreover have "[] \<notin> set space_seqs" by (simp add: space_seqs_def)
    ultimately show ?thesis unfolding u space_width_def by (simp add: match_width_take)
  qed (simp add: u)
  then have left: "trim_with space_width (TrimSpace s) = TrimSpace s" by (rule trim_with_keep)
  have "rev (TrimSpace s) = [] \<or> space_width_rev (rev (TrimSpace s)) = 0"
    using trim_with_done [of space_width_rev "rev t"] by (simp add: TrimSpace_def t_def)
  then have "trim_with space_width_rev (rev (TrimSpace s)) = rev (TrimSpace s)" by (rule trim_with_keep)
  with left show ?thesis by (simp add: TrimSpace_def [of "TrimSpace s"])
qed

lemma length_trim_with: "length (trim_with w s) \<le> length s"
proof (induction w s rule: trim_with.induct)
  case (2 w c s)
  then show ?case by (cases "w (c # s) = 0") (auto intro: le_trans)
qed simp

lemma length_TrimSpace: "length (TrimSpace s) \<le> length s"
  unfolding TrimSpace_def
  by (metis length_rev length_trim_with le_trans)

lemma fields_from_word:
  "list_all graphic w \<Longrightarrow> fields_from cur (w @ rest) = fields_from (rev w @ cur) rest"
  by (induction w arbitrary: cur) auto

lemma Fields_words [go_text]:
  "list_all (\<lambda>w. w \<noteq> [] \<and> list_all graphic w) ws \<Longrightarrow> Fields (join_with '' '' ws) = ws"
  unfolding Fields_def
proof (induction "'' ''" ws rule: join_with.induct)
  case (2 w)
  then show ?case using fields_from_word [of w "[]" "[]"] by simp
next
  case (3 w v ws)
  then show ?case
    using fields_from_word [of w "[]" "'' '' @ join_with '' '' (v # ws)"] by simp
qed simp

lemma join_with_nonempty: "ws \<noteq> [] \<Longrightarrow> list_all (\<lambda>w. w \<noteq> []) ws \<Longrightarrow> join_with d ws \<noteq> []"
  by (induction d ws rule: join_with.induct) auto

lemma hd_join_with: "w \<noteq> [] \<Longrightarrow> hd (join_with d (w # ws)) = hd w"
  by (cases ws) auto

lemma last_join_with:
  "ws \<noteq> [] \<Longrightarrow> list_all (\<lambda>w. w \<noteq> []) ws \<Longrightarrow> last (join_with d ws) = last (last ws)"
proof (induction d ws rule: join_with.induct)
  case (3 d w v ws)
  then show ?case using join_with_nonempty [of "v # ws" d] by simp
qed auto

text \<open>Decimal text: \<open>Atoi\<close> reads back what \<open>Itoa\<close> prints, for every 64-bit integer.\<close>

lemma digit_char_props [simp]:
  "n < 10 \<Longrightarrow> is_digit (digit_char n)" "n < 10 \<Longrightarrow> digit_val (digit_char n) = n"
  by (simp_all add: is_digit_def digit_char_def digit_val_def)

lemma is_digit_graphic: "is_digit c \<Longrightarrow> graphic c"
  by (simp add: is_digit_def graphic_def)

lemma dec_digits_all_digits: "list_all is_digit (dec_digits n)"
proof (induction n rule: dec_digits.induct)
  case (1 n)
  then show ?case by (subst dec_digits.simps) auto
qed

lemma dec_digits_nonempty [simp]: "dec_digits n \<noteq> []"
  by (subst dec_digits.simps) simp

lemma dec_value_snoc [simp]: "dec_value (ds @ [c]) = 10 * dec_value ds + digit_val c"
  by (simp add: dec_value_def)

lemma dec_value_digits [simp]: "dec_value (dec_digits n) = n"
proof (induction n rule: dec_digits.induct)
  case (1 n)
  show ?case
  proof (cases "n < 10")
    case True
    then show ?thesis by (subst dec_digits.simps) (simp add: dec_value_def)
  next
    case False
    with 1 show ?thesis by (subst dec_digits.simps) simp
  qed
qed

lemma length_dec_digits: "n < 10 ^ Suc k \<Longrightarrow> length (dec_digits n) \<le> Suc k"
proof (induction k arbitrary: n)
  case 0
  then show ?case by (subst dec_digits.simps) simp
next
  case (Suc k)
  then have "n div 10 < 10 ^ Suc k" by auto
  with Suc.IH show ?case by (subst dec_digits.simps) auto
qed

lemma hd_dec_digits_digit: "is_digit (hd (dec_digits n))"
  using dec_digits_all_digits [of n] by (cases "dec_digits n") auto

lemma digit_not_sign: "is_digit c \<Longrightarrow> c \<noteq> CHR ''-'' \<and> c \<noteq> CHR ''+''"
  by (auto simp: is_digit_def)

lemma atoi_sign_digits: "atoi_sign (dec_digits n) = (False, dec_digits n)"
  using hd_dec_digits_digit [of n] digit_not_sign
  by (cases "dec_digits n") (auto simp: atoi_sign_def)

lemma atoi_sign_Itoa: "atoi_sign (Itoa i) = (i < 0, dec_digits (nat \<bar>i\<bar>))"
  using atoi_sign_digits [of "nat i"] by (simp add: Itoa_def atoi_sign_def)

lemma Atoi_Itoa [simp]: "is_int64 i \<Longrightarrow> Atoi (Itoa i) = Some i"
  unfolding Atoi_def by (auto simp: atoi_sign_Itoa dec_digits_all_digits Let_def)

lemma Atoi_range: "Atoi s = Some i \<Longrightarrow> is_int64 i"
  by (auto simp: Atoi_def Let_def split: prod.splits if_splits)

lemma Itoa_graphic [go_text]: "list_all graphic (Itoa i)"
  using dec_digits_all_digits is_digit_graphic
  by (auto simp: Itoa_def list_all_iff graphic_def)

lemma Itoa_nonempty [simp]: "Itoa i \<noteq> []"
  by (simp add: Itoa_def)

text \<open>Hexadecimal text: decoding inverts encoding.\<close>

lemma hex_val_hex_char [simp]: "n < 16 \<Longrightarrow> hex_val (hex_char n) = Some n"
  by (simp add: hex_val_def hex_char_def)

lemma byte_val_div_16 [simp]: "byte_val b div 16 < 16"
  using nat_of_char_less_256 [of b] by linarith

lemma hex_char_graphic: "n < 16 \<Longrightarrow> graphic (hex_char n)"
  by (simp add: hex_char_def graphic_def)

lemma length_hex_encode [simp]: "length (hex_encode bs) = 2 * length bs"
  by (induction bs) auto

lemma hex_encode_graphic [go_text]: "list_all graphic (hex_encode bs)"
  by (induction bs) (auto intro: hex_char_graphic)

lemma hex_decode_encode [simp]: "hex_decode (hex_encode bs) = Some bs"
  by (induction bs) simp_all

lemma hex_decode_length: "hex_decode s = Some bs \<Longrightarrow> length s = 2 * length bs"
  by (induction s arbitrary: bs rule: hex_decode.induct) (auto split: option.splits)

lemma hex_decode_graphic: "hex_decode s = Some bs \<Longrightarrow> list_all graphic s"
  by (induction s arbitrary: bs rule: hex_decode.induct)
    (auto split: option.splits if_splits simp: hex_val_def graphic_def Let_def)

text \<open>Splitting at a separator inverts joining with it.\<close>

lemma split_char_nonempty [simp]: "split_char d s \<noteq> []"
  by (induction s) (auto split: list.splits)

lemma split_char_word:
  "d \<notin> set w \<Longrightarrow> split_char d (w @ d # rest) = w # split_char d rest"
  by (induction w) auto

lemma split_char_no_sep: "d \<notin> set w \<Longrightarrow> split_char d w = [w]"
  by (induction w) auto

lemma split_join [go_text]:
  "ws \<noteq> [] \<Longrightarrow> list_all (\<lambda>w. d \<notin> set w) ws \<Longrightarrow> split_char d (join_with [d] ws) = ws"
  by (induction "[d]" ws rule: join_with.induct) (auto simp: split_char_word split_char_no_sep)

lemma length_split_char: "length (split_char d s) = Suc (count_list s d)"
  by (induction s) (auto split: list.splits)

lemma split_char_parts: "w \<in> set (split_char d s) \<Longrightarrow> d \<notin> set w"
  by (induction s arbitrary: w) (auto split: list.splits if_splits)

end
