(* ===== verification/Tuning.thy ===== *)
theory Tuning
  imports Go_Prelude
begin

text \<open>
  \<open>src/tcputil/tcputil.go\<close>: the KCP and smux tuning parameters. The package variables are
  the record \<open>tuningValues\<close> together with the errors collected while the environment was
  read; \<open>init_tuning\<close> is the package initialisation, \<open>apply_tuning_flag\<close> the effect of
  one command-line flag, \<open>ValidateTuning\<close> the check both binaries run at start-up.
  \<open>newKCPOverPacketConn\<close> is modelled with the KCP library as a parameter (\<open>kcp_env\<close>: which
  of its calls fail) and returns the calls it makes in order.
\<close>

definition maxKCPWindow :: int where "maxKCPWindow = 8192"

definition minKCPMTU :: int where "minKCPMTU = 50"

definition kcpXmitBufferSize :: int where "kcpXmitBufferSize = 1500"

definition kcpCryptHeaderSize :: int where "kcpCryptHeaderSize = 20"

definition kcpFECHeaderSize :: int where "kcpFECHeaderSize = 8"

definition max_int32 :: int where "max_int32 = 2147483647"

lemmas tuning_consts = maxKCPWindow_def minKCPMTU_def kcpXmitBufferSize_def
  kcpCryptHeaderSize_def kcpFECHeaderSize_def max_int32_def

datatype fec_error = FecFormat | FecNotIntegers | FecOneZero | FecTotal

datatype tuning_error =
    EnvNotInteger string | EnvFec string fec_error
  | WindowRange | IntervalRange | NodelayBad | ResendRange | NcBad | FecBad fec_error
  | MtuRange int int | RecvbufRange | StreambufRange | StreambufExceedsRecvbuf

record tuningValues =
  window :: int
  interval :: int
  nodelay :: int
  resend :: int
  nc :: int
  mtu :: int
  smuxRecv :: int
  smuxStream :: int
  dataShards :: int
  parityShards :: int

record tuning_state =
  current :: tuningValues
  tuningEnvErrors :: "tuning_error list"

section \<open>Reed-Solomon profiles\<close>

definition validateFECShards :: "int \<Rightarrow> int \<Rightarrow> fec_error option" where
  "validateFECShards d p =
     (if d = 0 \<and> p = 0 then None
      else if d \<le> 0 \<or> p \<le> 0 then Some FecOneZero
      else if d > 256 \<or> p > 256 \<or> d > 256 - p then Some FecTotal
      else None)"

definition parseFEC :: "string \<Rightarrow> fec_error + (int \<times> int)" where
  "parseFEC raw =
     (let v = TrimSpace raw in
      if v = [] then Inr (0, 0)
      else case split_char (CHR '':'') v of
        [a, b] \<Rightarrow>
          (case (Atoi (TrimSpace a), Atoi (TrimSpace b)) of
             (Some d, Some p) \<Rightarrow>
               if d = 0 \<and> p = 0 then Inr (0, 0)
               else if d \<le> 0 \<or> p \<le> 0 then Inl FecOneZero
               else (case validateFECShards d p of Some e \<Rightarrow> Inl e | None \<Rightarrow> Inr (d, p))
           | _ \<Rightarrow> Inl FecNotIntegers)
      | _ \<Rightarrow> Inl FecFormat)"

definition maxKCPMTU :: "int \<Rightarrow> int \<Rightarrow> int" where
  "maxKCPMTU d p =
     (let m = kcpXmitBufferSize - kcpCryptHeaderSize
      in if d > 0 \<and> p > 0 then m - kcpFECHeaderSize else m)"

section \<open>Environment and flags\<close>

type_synonym environment = "string \<Rightarrow> string option"

definition parseEnvInt :: "string \<Rightarrow> int option" where
  "parseEnvInt v = Atoi (TrimSpace v)"

definition envInt :: "environment \<Rightarrow> string \<Rightarrow> int \<Rightarrow> tuning_error list \<Rightarrow> int \<times> tuning_error list" where
  "envInt env key def errs =
     (case env key of
        None \<Rightarrow> (def, errs)
      | Some v \<Rightarrow>
          if TrimSpace v = [] then (def, errs)
          else (case parseEnvInt v of
                  None \<Rightarrow> (def, errs @ [EnvNotInteger key])
                | Some n \<Rightarrow> (n, errs)))"

definition envFEC :: "environment \<Rightarrow> string \<Rightarrow> tuning_error list \<Rightarrow> (int \<times> int) \<times> tuning_error list" where
  "envFEC env key errs =
     (case env key of
        None \<Rightarrow> ((0, 0), errs)
      | Some v \<Rightarrow>
          if TrimSpace v = [] then ((0, 0), errs)
          else (case parseFEC v of
                  Inl e \<Rightarrow> ((0, 0), errs @ [EnvFec key e])
                | Inr dp \<Rightarrow> (dp, errs)))"

definition init_tuning :: "environment \<Rightarrow> tuning_state" where
  "init_tuning env =
     (let (wnd, e1) = envInt env ''VK_TURN_KCP_WND'' 256 [];
          (itv, e2) = envInt env ''VK_TURN_KCP_INTERVAL'' 20 e1;
          (nod, e3) = envInt env ''VK_TURN_KCP_NODELAY'' 1 e2;
          (rsd, e4) = envInt env ''VK_TURN_KCP_RESEND'' 2 e3;
          (ncv, e5) = envInt env ''VK_TURN_KCP_NC'' 1 e4;
          (mt, e6) = envInt env ''VK_TURN_KCP_MTU'' 1200 e5;
          (rcv, e7) = envInt env ''VK_TURN_SMUX_RECVBUF'' (4 * 1024 * 1024) e6;
          (str, e8) = envInt env ''VK_TURN_SMUX_STREAMBUF'' (1 * 1024 * 1024) e7;
          ((d, p), e9) = envFEC env ''VK_TURN_KCP_FEC'' e8
      in \<lparr>current = \<lparr>window = wnd, interval = itv, nodelay = nod, resend = rsd, nc = ncv, mtu = mt,
                     smuxRecv = rcv, smuxStream = str, dataShards = d, parityShards = p\<rparr>,
          tuningEnvErrors = e9\<rparr>)"

datatype tuning_flag =
    KcpWindow int | KcpInterval int | KcpNodelay int | KcpResend int | KcpNc int | KcpMtu int
  | SmuxRecvbuf int | SmuxStreambuf int | KcpFec string

fun apply_tuning_flag :: "tuning_flag \<Rightarrow> tuningValues \<Rightarrow> fec_error + tuningValues" where
  "apply_tuning_flag (KcpWindow n) v = Inr (v\<lparr>window := n\<rparr>)"
| "apply_tuning_flag (KcpInterval n) v = Inr (v\<lparr>interval := n\<rparr>)"
| "apply_tuning_flag (KcpNodelay n) v = Inr (v\<lparr>nodelay := n\<rparr>)"
| "apply_tuning_flag (KcpResend n) v = Inr (v\<lparr>resend := n\<rparr>)"
| "apply_tuning_flag (KcpNc n) v = Inr (v\<lparr>nc := n\<rparr>)"
| "apply_tuning_flag (KcpMtu n) v = Inr (v\<lparr>mtu := n\<rparr>)"
| "apply_tuning_flag (SmuxRecvbuf n) v = Inr (v\<lparr>smuxRecv := n\<rparr>)"
| "apply_tuning_flag (SmuxStreambuf n) v = Inr (v\<lparr>smuxStream := n\<rparr>)"
| "apply_tuning_flag (KcpFec s) v =
     (case parseFEC s of Inl e \<Rightarrow> Inl e | Inr (d, p) \<Rightarrow> Inr (v\<lparr>dataShards := d, parityShards := p\<rparr>))"

section \<open>Validation\<close>

definition when_err :: "bool \<Rightarrow> tuning_error \<Rightarrow> tuning_error list" where
  "when_err b e = (if b then [e] else [])"

definition validateTuning :: "tuningValues \<Rightarrow> tuning_error list" where
  "validateTuning v =
     (let mx = maxKCPMTU (dataShards v) (parityShards v) in
      when_err (window v < 1 \<or> window v > maxKCPWindow) WindowRange @
      when_err (interval v < 10 \<or> interval v > 5000) IntervalRange @
      when_err (nodelay v \<noteq> 0 \<and> nodelay v \<noteq> 1) NodelayBad @
      when_err (resend v < 0 \<or> resend v > max_int32) ResendRange @
      when_err (nc v \<noteq> 0 \<and> nc v \<noteq> 1) NcBad @
      (case validateFECShards (dataShards v) (parityShards v) of Some e \<Rightarrow> [FecBad e] | None \<Rightarrow> []) @
      when_err (mtu v < minKCPMTU \<or> mtu v > mx) (MtuRange minKCPMTU mx) @
      when_err (smuxRecv v < 1 \<or> smuxRecv v > max_int32) RecvbufRange @
      (if smuxStream v < 1 \<or> smuxStream v > max_int32 then [StreambufRange]
       else when_err (smuxStream v > smuxRecv v) StreambufExceedsRecvbuf))"

definition ValidateTuning :: "tuning_state \<Rightarrow> tuning_error list" where
  "ValidateTuning st = tuningEnvErrors st @ validateTuning (current st)"

definition TuningSummary :: "tuningValues \<Rightarrow> string" where
  "TuningSummary v =
     (let fec = (if dataShards v > 0 \<and> parityShards v > 0
                 then Itoa (dataShards v) @ '':'' @ Itoa (parityShards v) else ''off'')
      in ''kcp[wnd='' @ Itoa (window v) @ '' interval='' @ Itoa (interval v) @
         '' nodelay='' @ Itoa (nodelay v) @ '' resend='' @ Itoa (resend v) @
         '' nc='' @ Itoa (nc v) @ '' mtu='' @ Itoa (mtu v) @ '' fec='' @ fec @
         ''] smux[recv='' @ Itoa (smuxRecv v) @ '' stream='' @ Itoa (smuxStream v) @ '']'')"

section \<open>The KCP window of a bond\<close>

definition bondedKCPWindow :: "int \<Rightarrow> int \<Rightarrow> int" where
  "bondedKCPWindow baseWindow pathCount =
     (let base = (if baseWindow < 1 then 1 else baseWindow) in
      if base \<ge> maxKCPWindow then maxKCPWindow
      else let n = (if pathCount < 1 then 1 else pathCount) in
        if n > go_div maxKCPWindow base then maxKCPWindow
        else wrap64 (base * n))"

definition BondedKCPWindow :: "tuningValues \<Rightarrow> int \<Rightarrow> int" where
  "BondedKCPWindow v pathCount = bondedKCPWindow (window v) pathCount"

section \<open>KCP sessions\<close>

text \<open>Which calls of the KCP library fail, and whether the session accepts the MTU.\<close>

record kcp_env =
  block_fails :: bool
  serve_fails :: bool
  listener_deadline_fails :: bool
  accept_fails :: bool
  dial_fails :: bool
  accepts_mtu :: "int \<Rightarrow> bool"

datatype kcp_call =
    ServeConn int int | ListenerSetDeadline int | AcceptKCP | NewConn2 int int
  | SetNoDelay int int int int | SetWindowSize int int | SetMtu int | CloseSession
  | SetACKNoDelay bool

datatype kcp_error = InvalidTuning "tuning_error list" | WindowOutOfRange | KcpLibrary | MtuRejected int

definition kcp_open :: "kcp_env \<Rightarrow> tuningValues \<Rightarrow> bool \<Rightarrow> (kcp_error + unit) \<times> kcp_call list" where
  "kcp_open k v isServer =
     (let d = dataShards v; p = parityShards v in
      if isServer then
        if serve_fails k then (Inl KcpLibrary, [ServeConn d p])
        else if listener_deadline_fails k then (Inl KcpLibrary, [ServeConn d p, ListenerSetDeadline 30])
        else if accept_fails k then (Inl KcpLibrary, [ServeConn d p, ListenerSetDeadline 30, AcceptKCP])
        else (Inr (), [ServeConn d p, ListenerSetDeadline 30, AcceptKCP])
      else if dial_fails k then (Inl KcpLibrary, [NewConn2 d p])
      else (Inr (), [NewConn2 d p]))"

definition newKCPOverPacketConn ::
  "kcp_env \<Rightarrow> tuningValues \<Rightarrow> bool \<Rightarrow> int \<Rightarrow> (kcp_error + unit) \<times> kcp_call list" where
  "newKCPOverPacketConn k v isServer wnd =
     (if validateTuning v \<noteq> [] then (Inl (InvalidTuning (validateTuning v)), [])
      else if wnd < 1 \<or> wnd > maxKCPWindow then (Inl WindowOutOfRange, [])
      else if block_fails k then (Inl KcpLibrary, [])
      else case kcp_open k v isServer of
        (Inl e, calls) \<Rightarrow> (Inl e, calls)
      | (Inr _, calls) \<Rightarrow>
          let tuned = calls @ [SetNoDelay (nodelay v) (interval v) (resend v) (nc v),
                               SetWindowSize wnd wnd, SetMtu (mtu v)]
          in if \<not> accepts_mtu k (mtu v) then (Inl (MtuRejected (mtu v)), tuned @ [CloseSession])
             else (Inr (), tuned @ [SetACKNoDelay True]))"

definition NewKCPOverPacketConn ::
  "kcp_env \<Rightarrow> tuningValues \<Rightarrow> bool \<Rightarrow> (kcp_error + unit) \<times> kcp_call list" where
  "NewKCPOverPacketConn k v isServer = newKCPOverPacketConn k v isServer (window v)"

definition NewKCPOverPacketConnBonded ::
  "kcp_env \<Rightarrow> tuningValues \<Rightarrow> bool \<Rightarrow> int \<Rightarrow> (kcp_error + unit) \<times> kcp_call list" where
  "NewKCPOverPacketConnBonded k v isServer pathCount =
     newKCPOverPacketConn k v isServer (BondedKCPWindow v pathCount)"

record smux_config =
  MaxReceiveBuffer :: int
  MaxStreamBuffer :: int
  KeepAliveInterval :: int
  KeepAliveTimeout :: int

text \<open>The other fields of \<open>smux.DefaultConfig()\<close> stay as the library sets them.\<close>

definition DefaultSmuxConfig :: "tuningValues \<Rightarrow> smux_config" where
  "DefaultSmuxConfig v =
     \<lparr>MaxReceiveBuffer = smuxRecv v, MaxStreamBuffer = smuxStream v,
      KeepAliveInterval = 10, KeepAliveTimeout = 30\<rparr>"

section \<open>Properties\<close>

text \<open>What a valid profile is: the abstract reading of the error-collecting validation.\<close>

definition fec_ok :: "int \<Rightarrow> int \<Rightarrow> bool" where
  "fec_ok d p \<longleftrightarrow> d = 0 \<and> p = 0 \<or> 0 < d \<and> 0 < p \<and> d + p \<le> 256"

definition packet_overhead :: "int \<Rightarrow> int \<Rightarrow> int" where
  "packet_overhead d p = 20 + (if d = 0 \<and> p = 0 then 0 else 8)"

definition int_env_keys :: "string list" where
  "int_env_keys =
     [''VK_TURN_KCP_WND'', ''VK_TURN_KCP_INTERVAL'', ''VK_TURN_KCP_NODELAY'', ''VK_TURN_KCP_RESEND'',
      ''VK_TURN_KCP_NC'', ''VK_TURN_KCP_MTU'', ''VK_TURN_SMUX_RECVBUF'', ''VK_TURN_SMUX_STREAMBUF'']"

definition bad_int_env :: "environment \<Rightarrow> string \<Rightarrow> bool" where
  "bad_int_env env key \<longleftrightarrow> (case env key of None \<Rightarrow> False | Some v \<Rightarrow> TrimSpace v \<noteq> [] \<and> parseEnvInt v = None)"

definition bad_fec_env :: "environment \<Rightarrow> string \<Rightarrow> bool" where
  "bad_fec_env env key \<longleftrightarrow>
     (case env key of None \<Rightarrow> False | Some v \<Rightarrow> TrimSpace v \<noteq> [] \<and> (\<exists>e. parseFEC v = Inl e))"

definition example_tuning :: tuningValues where
  "example_tuning = current (init_tuning (\<lambda>_. None))"

definition example_kcp :: kcp_env where
  "example_kcp = \<lparr>block_fails = False, serve_fails = False, listener_deadline_fails = False,
     accept_fails = False, dial_fails = False, accepts_mtu = (\<lambda>m. m \<le> 1480)\<rparr>"

lemma validateFECShards_iff: "validateFECShards d p = None \<longleftrightarrow> fec_ok d p"
  by (auto simp: validateFECShards_def fec_ok_def)

lemma validateFECShards_ok [simp]: "fec_ok d p \<Longrightarrow> validateFECShards d p = None"
  by (simp add: validateFECShards_iff)

lemma maxKCPMTU_fits: "fec_ok d p \<Longrightarrow> maxKCPMTU d p = 1500 - packet_overhead d p"
  by (auto simp: maxKCPMTU_def fec_ok_def packet_overhead_def tuning_consts)

lemma when_err_Nil [simp]: "when_err b e = [] \<longleftrightarrow> \<not> b"
  by (simp add: when_err_def)

lemma validateTuning_Nil_fec: "validateTuning v = [] \<Longrightarrow> fec_ok (dataShards v) (parityShards v)"
  by (auto simp: validateTuning_def Let_def validateFECShards_iff split: option.splits)


lemma bondedKCPWindow_window_spec:
  "bondedKCPWindow baseWindow pathCount = min 8192 (max 1 baseWindow * max 1 pathCount)"
proof -
  define b n where "b = max 1 baseWindow" and "n = max 1 pathCount"
  have pos: "0 < b" "0 < n" by (simp_all add: b_def n_def)
  have eq: "bondedKCPWindow baseWindow pathCount =
      (if b \<ge> 8192 then 8192 else if n > 8192 div b then 8192 else wrap64 (b * n))"
    using pos by (auto simp: bondedKCPWindow_def b_def n_def maxKCPWindow_def max_def Let_def)
  have "b \<le> b * n" using mult_left_mono [of 1 n b] pos by simp
  moreover have "n \<le> 8192 div b \<longleftrightarrow> b * n \<le> 8192" using pos by (simp add: le_div_iff_int)
  moreover have "b * n \<le> 8192 \<Longrightarrow> wrap64 (b * n) = b * n"
    using mult_pos_pos [OF pos] by (intro wrap64_id) (simp add: is_int64_def min_int64_def max_int64_def)
  ultimately have "bondedKCPWindow baseWindow pathCount = min 8192 (b * n)"
    unfolding eq by auto
  then show ?thesis by (simp add: b_def n_def)
qed

text \<open>The bonded KCP window is the product of the base window and the path count, both
  raised to at least one, capped at 8192: dividing before multiplying means that no 64-bit
  base window or path count makes the product wrap around.\<close>

theorem bondedKCPWindow_spec:
  "bondedKCPWindow baseWindow pathCount = min 8192 (max 1 baseWindow * max 1 pathCount)"
  by (rule bondedKCPWindow_window_spec)

text \<open>A validated tuning always opens a bonded KCP session when the library calls
  succeed, with the window of \<open>bondedKCPWindow\<close>, which is never out of range whatever the path count; if
  the session refuses the MTU it is closed before the error is returned.\<close>

theorem bonded_session_opens:
  assumes "validateTuning v = []" "\<not> block_fails k"
    and "fst (kcp_open k v isServer) = Inr ()"
  shows "NewKCPOverPacketConnBonded k v isServer pathCount =
    (let wnd = min 8192 (max 1 (window v) * max 1 pathCount);
         tuned = snd (kcp_open k v isServer) @
           [SetNoDelay (nodelay v) (interval v) (resend v) (nc v), SetWindowSize wnd wnd, SetMtu (mtu v)]
     in if accepts_mtu k (mtu v) then (Inr (), tuned @ [SetACKNoDelay True])
        else (Inl (MtuRejected (mtu v)), tuned @ [CloseSession]))"
proof -
  have "1 \<le> max 1 (window v) * max 1 pathCount"
    using mult_mono [of 1 "max 1 (window v)" 1 "max 1 pathCount"] by simp
  then show ?thesis
    using assms
    by (auto simp: NewKCPOverPacketConnBonded_def newKCPOverPacketConn_def BondedKCPWindow_def
        bondedKCPWindow_window_spec maxKCPWindow_def Let_def split: prod.splits sum.splits)
qed

theorem bonded_session_opens_witness:
  "validateTuning example_tuning = [] \<and>
   NewKCPOverPacketConnBonded example_kcp example_tuning True 16 =
     (Inr (), [ServeConn 0 0, ListenerSetDeadline 30, AcceptKCP, SetNoDelay 1 20 2 1,
               SetWindowSize 4096 4096, SetMtu 1200, SetACKNoDelay True])"
proof -
  have ok: "validateTuning example_tuning = []" "\<not> block_fails example_kcp"
    "fst (kcp_open example_kcp example_tuning True) = Inr ()"
    by (simp_all add: example_tuning_def example_kcp_def init_tuning_def envInt_def envFEC_def kcp_open_def
        validateTuning_def maxKCPMTU_def tuning_consts fec_ok_def)
  from bonded_session_opens [OF ok, of 16] ok(1) show ?thesis
    by (simp add: example_tuning_def example_kcp_def init_tuning_def envInt_def envFEC_def kcp_open_def)
qed

text \<open>Every accepted profile text is a valid profile, and printing a valid profile gives
  text that reads back.\<close>

lemma parseFEC_sound: "parseFEC raw = Inr (d, p) \<Longrightarrow> fec_ok d p"
  by (auto simp: parseFEC_def Let_def validateFECShards_iff fec_ok_def
      split: if_splits list.splits option.splits)

lemma fec_ok_int64: "fec_ok d p \<Longrightarrow> is_int64 d \<and> is_int64 p"
  by (auto simp: fec_ok_def is_int64_def min_int64_def max_int64_def)

lemma Itoa_no_colon: "CHR '':'' \<notin> set (Itoa i)"
  using dec_digits_all_digits [of "nat i"] dec_digits_all_digits [of "nat (- i)"]
  by (auto simp: Itoa_def list_all_iff is_digit_def)

lemma parseFEC_print:
  assumes "fec_ok d p"
  shows "parseFEC (Itoa d @ '':'' @ Itoa p) = Inr (d, p)"
proof -
  let ?t = "Itoa d @ '':'' @ Itoa p"
  have "list_all graphic ?t" using Itoa_graphic by (simp add: graphic_def)
  then have trim: "TrimSpace ?t = ?t" by (rule TrimSpace_graphic)
  have "split_char (CHR '':'') ?t = [Itoa d, Itoa p]"
    using split_char_word [OF Itoa_no_colon] split_char_no_sep [OF Itoa_no_colon] by simp
  then show ?thesis
    using assms fec_ok_int64 [OF assms] trim TrimSpace_graphic [OF Itoa_graphic]
    by (auto simp: parseFEC_def Let_def fec_ok_def split: option.splits)
qed

text \<open>The FEC flag text \<open>data:parity\<close> round-trips: \<open>parseFEC\<close> reads back every printed
  valid profile, and whatever text it accepts denotes a profile that \<open>validateFECShards\<close>
  accepts.\<close>

theorem parseFEC_roundtrip:
  "(fec_ok d p \<longrightarrow> parseFEC (Itoa d @ '':'' @ Itoa p) = Inr (d, p)) \<and>
   (\<forall>raw. parseFEC raw = Inr (d, p) \<longrightarrow> validateFECShards d p = None)"
  using parseFEC_print parseFEC_sound by auto

theorem parseFEC_roundtrip_witness:
  "parseFEC ''10:3'' = Inr (10, 3) \<and> validateFECShards 10 3 = None \<and> parseFEC (Itoa 10 @ '':'' @ Itoa 3) = Inr (10, 3)"
proof -
  have "parseFEC ''10:3'' = Inr (10, 3)" by code_simp
  with parseFEC_roundtrip [of 10 3] show ?thesis by (simp add: fec_ok_def)
qed

lemma envInt_errors:
  "snd (envInt env key def errs) =
     errs @ (case env key of None \<Rightarrow> [] | Some v \<Rightarrow>
               if TrimSpace v \<noteq> [] \<and> parseEnvInt v = None then [EnvNotInteger key] else [])"
  by (auto simp: envInt_def split: option.splits)

lemma envFEC_errors:
  "snd (envFEC env key errs) =
     errs @ (case env key of None \<Rightarrow> [] | Some v \<Rightarrow>
               if TrimSpace v = [] then [] else case parseFEC v of Inl e \<Rightarrow> [EnvFec key e] | Inr _ \<Rightarrow> [])"
  by (auto simp: envFEC_def split: option.splits sum.splits)

lemma envInt_snd_Nil: "snd (envInt env key def errs) = [] \<longleftrightarrow> errs = [] \<and> \<not> bad_int_env env key"
  by (auto simp: envInt_errors bad_int_env_def split: option.splits)

lemma envFEC_snd_Nil: "snd (envFEC env key errs) = [] \<longleftrightarrow> errs = [] \<and> \<not> bad_fec_env env key"
  by (auto simp: envFEC_errors bad_fec_env_def split: option.splits sum.splits)

lemma init_tuning_env_errors:
  "tuningEnvErrors (init_tuning env) = [] \<longleftrightarrow>
     list_all (\<lambda>key. \<not> bad_int_env env key) int_env_keys \<and> \<not> bad_fec_env env ''VK_TURN_KCP_FEC''"
  by (simp add: init_tuning_def case_prod_beta Let_def int_env_keys_def envInt_snd_Nil envFEC_snd_Nil
      conj_ac)

text \<open>A malformed environment override is never silently replaced by its default: if any
  of the eight integer variables is set to text that is not a 64-bit integer, or the FEC
  variable to an invalid profile, the start-up check fails. With no variable set the
  built-in defaults pass it.\<close>

theorem env_override_never_silent:
  "((\<exists>key \<in> set int_env_keys. bad_int_env env key) \<or> bad_fec_env env ''VK_TURN_KCP_FEC'' \<longrightarrow>
      ValidateTuning (init_tuning env) \<noteq> []) \<and>
   ValidateTuning (init_tuning (\<lambda>_. None)) = []"
proof -
  have "ValidateTuning (init_tuning (\<lambda>_. None)) = []"
    by (simp add: init_tuning_def envInt_def envFEC_def ValidateTuning_def validateTuning_def
        maxKCPMTU_def tuning_consts fec_ok_def)
  then show ?thesis
    using init_tuning_env_errors [of env] by (auto simp: ValidateTuning_def list_all_iff)
qed

theorem env_override_never_silent_witness:
  "ValidateTuning (init_tuning ((\<lambda>_. None)(''VK_TURN_KCP_WND'' := Some ''12x''))) \<noteq> []"
proof -
  have "TrimSpace ''12x'' \<noteq> [] \<and> parseEnvInt ''12x'' = None" by code_simp
  then have "bad_int_env ((\<lambda>_. None)(''VK_TURN_KCP_WND'' := Some ''12x'')) ''VK_TURN_KCP_WND''"
    by (simp add: bad_int_env_def)
  moreover have "''VK_TURN_KCP_WND'' \<in> set int_env_keys" by (simp add: int_env_keys_def)
  ultimately show ?thesis
    using env_override_never_silent [of "(\<lambda>_. None)(''VK_TURN_KCP_WND'' := Some ''12x'')"] by blast
qed

end
