(* ===== verification/Metrics_Registry.thy ===== *)
theory Metrics_Registry
  imports Go_Prelude "HOL-Library.AList" "HOL-Library.Multiset"
begin

text \<open>
  \<open>src/metrics/metrics.go\<close>: the process-wide registry of counters and gauges. Every counter
  is a 64-bit atomic, modelled by \<open>64 word\<close> (an \<open>Int64\<close> is read with \<open>sint\<close>). The nine
  traffic counters that a \<open>Path\<close> and the \<open>Registry\<close> both keep are the record \<open>traffic\<close>.
  \<open>Path\<close> objects live in the list \<open>heap\<close> (a pointer is an index, in order of allocation);
  \<open>activePathsByID\<close> is an association list, and \<open>recentPaths\<close> the bounded history of closed
  paths. Times are nanoseconds; \<open>None\<close> is Go's zero time. The path tables are guarded
  by \<open>pathsMu\<close>, so \<open>OpenPath\<close> and \<open>Close\<close> are atomic; an observation is a series of atomic
  additions, applied here in one step (additions commute, so the totals do not depend on how
  observations of different goroutines interleave).
\<close>

definition recentPathLimit :: nat where "recentPathLimit = 128"

definition writeLatencySampleRate :: nat where "writeLatencySampleRate = 64"

type_synonym u64 = "64 word"

record traffic =
  bytesRead :: u64
  bytesWritten :: u64
  readOperations :: u64
  writeOperations :: u64
  readErrors :: u64
  writeErrors :: u64
  writeLatencySamples :: u64
  writeLatencyTotalNS :: u64
  writeLatencyMaxNS :: u64

definition no_traffic :: traffic where
  "no_traffic = \<lparr>bytesRead = 0, bytesWritten = 0, readOperations = 0, writeOperations = 0,
     readErrors = 0, writeErrors = 0, writeLatencySamples = 0, writeLatencyTotalNS = 0,
     writeLatencyMaxNS = 0\<rparr>"

record path_stats =
  path_id :: u64
  path_label :: string
  path_closed :: bool
  writeSampleSequence :: u64
  path_traffic :: traffic

text \<open>The counters \<open>kcp.Snmp\<close> of the KCP library, as its \<open>Copy()\<close> returns them.\<close>

record kcp_snmp =
  BytesSent :: u64
  BytesReceived :: u64
  MaxConn :: u64
  ActiveOpens :: u64
  PassiveOpens :: u64
  CurrEstab :: u64
  InErrs :: u64
  InCsumErrors :: u64
  KCPInErrors :: u64
  InPkts :: u64
  OutPkts :: u64
  InSegs :: u64
  OutSegs :: u64
  InBytes :: u64
  OutBytes :: u64
  RetransSegs :: u64
  FastRetransSegs :: u64
  EarlyRetransSegs :: u64
  LostSegs :: u64
  RepeatSegs :: u64
  FECRecovered :: u64
  FECErrs :: u64
  FECParityShards :: u64
  FECFullShardSet :: u64
  FECShardSet :: u64

record registry =
  activeTransportConnections :: u64
  activeBackendStreams :: u64
  activePaths :: u64
  activeSessions :: u64
  connectionLimitRejections :: u64
  backendLimitRejections :: u64
  pathReconnects :: u64
  sessionReconnects :: u64
  authFailures :: u64
  queueDrops :: u64
  nextPathID :: u64
  reg_traffic :: traffic
  kcpSNMP :: "kcp_snmp option"
  activePathsByID :: "(u64 \<times> nat) list"
  recentPaths :: "nat list"
  heap :: "path_stats list"

definition empty_registry :: "kcp_snmp option \<Rightarrow> registry" where
  "empty_registry snmp = \<lparr>activeTransportConnections = 0, activeBackendStreams = 0, activePaths = 0,
     activeSessions = 0, connectionLimitRejections = 0, backendLimitRejections = 0,
     pathReconnects = 0, sessionReconnects = 0, authFailures = 0, queueDrops = 0, nextPathID = 0,
     reg_traffic = no_traffic, kcpSNMP = snmp, activePathsByID = [], recentPaths = [], heap = []\<rparr>"

section \<open>Paths\<close>

definition OpenPath :: "registry \<Rightarrow> string \<Rightarrow> nat \<times> registry" where
  "OpenPath r lbl =
     (let pid = nextPathID r + 1; p = length (heap r);
          path = \<lparr>path_id = pid, path_label = lbl, path_closed = False, writeSampleSequence = 0,
                  path_traffic = no_traffic\<rparr>
      in (p, r\<lparr>nextPathID := pid, heap := heap r @ [path],
               activePathsByID := AList.update pid p (activePathsByID r),
               activePaths := activePaths r + 1\<rparr>))"

definition ClosePath :: "registry \<Rightarrow> nat option \<Rightarrow> registry" where
  "ClosePath r ptr =
     (case ptr of
        None \<Rightarrow> r
      | Some p \<Rightarrow>
          if path_closed (heap r ! p) then r
          else
            let pid = path_id (heap r ! p);
                r1 = r\<lparr>heap := (heap r)[p := (heap r ! p)\<lparr>path_closed := True\<rparr>]\<rparr>
            in case map_of (activePathsByID r) pid of
                 None \<Rightarrow> r1
               | Some _ \<Rightarrow>
                   r1\<lparr>activePathsByID := AList.delete pid (activePathsByID r),
                      activePaths := activePaths r - 1,
                      recentPaths := (if length (recentPaths r) < recentPathLimit
                                      then recentPaths r @ [p] else tl (recentPaths r) @ [p])\<rparr>)"

text \<open>Adding one observation to the counters of a path and of the registry alike.\<close>

definition both_traffic :: "registry \<Rightarrow> nat \<Rightarrow> (traffic \<Rightarrow> traffic) \<Rightarrow> registry" where
  "both_traffic r p f =
     r\<lparr>heap := (heap r)[p := (heap r ! p)\<lparr>path_traffic := f (path_traffic (heap r ! p))\<rparr>],
       reg_traffic := f (reg_traffic r)\<rparr>"

definition observe_read :: "int \<Rightarrow> bool \<Rightarrow> traffic \<Rightarrow> traffic" where
  "observe_read n failed t =
     t\<lparr>readOperations := readOperations t + 1,
       bytesRead := (if n > 0 then bytesRead t + word_of_int n else bytesRead t),
       readErrors := (if failed then readErrors t + 1 else readErrors t)\<rparr>"

definition ObserveRead :: "registry \<Rightarrow> nat option \<Rightarrow> int \<Rightarrow> bool \<Rightarrow> registry" where
  "ObserveRead r ptr n failed =
     (case ptr of None \<Rightarrow> r | Some p \<Rightarrow> both_traffic r p (observe_read n failed))"

definition BeginWrite :: "registry \<Rightarrow> nat option \<Rightarrow> int \<Rightarrow> int option \<times> registry" where
  "BeginWrite r ptr now =
     (case ptr of
        None \<Rightarrow> (None, r)
      | Some p \<Rightarrow>
          let s = writeSampleSequence (heap r ! p) + 1;
              r1 = r\<lparr>heap := (heap r)[p := (heap r ! p)\<lparr>writeSampleSequence := s\<rparr>]\<rparr>
          in if unat (s - 1) mod writeLatencySampleRate \<noteq> 0 then (None, r1) else (Some now, r1))"

definition updateMaximum :: "u64 \<Rightarrow> u64 \<Rightarrow> u64" where
  "updateMaximum counter value = (if value > counter then value else counter)"

definition observeWriteLatency :: "int \<Rightarrow> traffic \<Rightarrow> traffic" where
  "observeWriteLatency elapsed t =
     (let ns = word_of_int (if elapsed < 0 then 0 else elapsed)
      in t\<lparr>writeLatencySamples := writeLatencySamples t + 1,
           writeLatencyTotalNS := writeLatencyTotalNS t + ns,
           writeLatencyMaxNS := updateMaximum (writeLatencyMaxNS t) ns\<rparr>)"

definition observe_write :: "int option \<Rightarrow> int \<Rightarrow> bool \<Rightarrow> int \<Rightarrow> traffic \<Rightarrow> traffic" where
  "observe_write started n failed now t =
     (let t1 = t\<lparr>writeOperations := writeOperations t + 1,
                 bytesWritten := (if n > 0 then bytesWritten t + word_of_int n else bytesWritten t),
                 writeErrors := (if failed then writeErrors t + 1 else writeErrors t)\<rparr>
      in case started of None \<Rightarrow> t1 | Some s \<Rightarrow> observeWriteLatency (now - s) t1)"

definition ObserveWrite :: "registry \<Rightarrow> nat option \<Rightarrow> int option \<Rightarrow> int \<Rightarrow> bool \<Rightarrow> int \<Rightarrow> registry" where
  "ObserveWrite r ptr started n failed now =
     (case ptr of None \<Rightarrow> r | Some p \<Rightarrow> both_traffic r p (observe_write started n failed now))"

section \<open>Gauges\<close>

datatype gauge_op =
    TransportConnectionOpened | TransportConnectionClosed | ConnectionLimitRejected
  | BackendStreamOpened | BackendStreamClosed | BackendLimitRejected | SessionOpened
  | SessionClosed | PathReconnected | SessionReconnected | AuthFailed | QueueDropped

fun gauge :: "gauge_op \<Rightarrow> registry \<Rightarrow> registry" where
  "gauge TransportConnectionOpened r = r\<lparr>activeTransportConnections := activeTransportConnections r + 1\<rparr>"
| "gauge TransportConnectionClosed r = r\<lparr>activeTransportConnections := activeTransportConnections r - 1\<rparr>"
| "gauge ConnectionLimitRejected r = r\<lparr>connectionLimitRejections := connectionLimitRejections r + 1\<rparr>"
| "gauge BackendStreamOpened r = r\<lparr>activeBackendStreams := activeBackendStreams r + 1\<rparr>"
| "gauge BackendStreamClosed r = r\<lparr>activeBackendStreams := activeBackendStreams r - 1\<rparr>"
| "gauge BackendLimitRejected r = r\<lparr>backendLimitRejections := backendLimitRejections r + 1\<rparr>"
| "gauge SessionOpened r = r\<lparr>activeSessions := activeSessions r + 1\<rparr>"
| "gauge SessionClosed r = r\<lparr>activeSessions := activeSessions r - 1\<rparr>"
| "gauge PathReconnected r = r\<lparr>pathReconnects := pathReconnects r + 1\<rparr>"
| "gauge SessionReconnected r = r\<lparr>sessionReconnects := sessionReconnects r + 1\<rparr>"
| "gauge AuthFailed r = r\<lparr>authFailures := authFailures r + 1\<rparr>"
| "gauge QueueDropped r = r\<lparr>queueDrops := queueDrops r + 1\<rparr>"

section \<open>Snapshots\<close>

record PathSnapshot =
  snap_id :: u64
  snap_label :: string
  snap_active :: bool
  snap_path_traffic :: traffic

record KCPSnapshot =
  ApplicationBytesSent :: u64
  ApplicationBytesReceived :: u64
  CurrentSessions :: u64
  MaximumSessions :: u64
  KcpActiveOpens :: u64
  KcpPassiveOpens :: u64
  InputErrors :: u64
  ChecksumErrors :: u64
  ProtocolInputErrors :: u64
  PacketsReceived :: u64
  PacketsSent :: u64
  SegmentsReceived :: u64
  SegmentsSent :: u64
  InputBytes :: u64
  OutputBytes :: u64
  RetransmittedSegments :: u64
  FastRetransmittedSegments :: u64
  EarlyRetransmittedSegments :: u64
  LostSegments :: u64
  RepeatedSegments :: u64
  FECRecoveredPackets :: u64
  FECReportedErrors :: u64
  FECParityShardsReceived :: u64
  FECFullShardSets :: u64
  FECIncompleteShardSets :: u64

record Snapshot =
  ActiveTransportConnections :: int
  ActiveBackendStreams :: int
  ActivePaths :: int
  ActiveSessions :: int
  ConnectionLimitRejections :: int
  BackendLimitRejections :: int
  PathReconnects :: int
  SessionReconnects :: int
  AuthFailures :: int
  QueueDrops :: int
  snap_traffic :: traffic
  KCP :: KCPSnapshot
  Paths :: "PathSnapshot list"

definition empty_kcp_snapshot :: KCPSnapshot where
  "empty_kcp_snapshot = \<lparr>ApplicationBytesSent = 0, ApplicationBytesReceived = 0, CurrentSessions = 0,
     MaximumSessions = 0, KcpActiveOpens = 0, KcpPassiveOpens = 0, InputErrors = 0,
     ChecksumErrors = 0, ProtocolInputErrors = 0, PacketsReceived = 0, PacketsSent = 0,
     SegmentsReceived = 0, SegmentsSent = 0, InputBytes = 0, OutputBytes = 0,
     RetransmittedSegments = 0, FastRetransmittedSegments = 0, EarlyRetransmittedSegments = 0,
     LostSegments = 0, RepeatedSegments = 0, FECRecoveredPackets = 0, FECReportedErrors = 0,
     FECParityShardsReceived = 0, FECFullShardSets = 0, FECIncompleteShardSets = 0\<rparr>"

definition snapshotKCP :: "kcp_snmp option \<Rightarrow> KCPSnapshot" where
  "snapshotKCP source =
     (case source of
        None \<Rightarrow> empty_kcp_snapshot
      | Some stats \<Rightarrow>
          \<lparr>ApplicationBytesSent = BytesSent stats, ApplicationBytesReceived = BytesReceived stats,
           CurrentSessions = CurrEstab stats, MaximumSessions = MaxConn stats,
           KcpActiveOpens = ActiveOpens stats, KcpPassiveOpens = PassiveOpens stats,
           InputErrors = InErrs stats, ChecksumErrors = InCsumErrors stats,
           ProtocolInputErrors = KCPInErrors stats, PacketsReceived = InPkts stats,
           PacketsSent = OutPkts stats, SegmentsReceived = InSegs stats, SegmentsSent = OutSegs stats,
           InputBytes = InBytes stats, OutputBytes = OutBytes stats,
           RetransmittedSegments = RetransSegs stats,
           FastRetransmittedSegments = FastRetransSegs stats,
           EarlyRetransmittedSegments = EarlyRetransSegs stats, LostSegments = LostSegs stats,
           RepeatedSegments = RepeatSegs stats, FECRecoveredPackets = FECRecovered stats,
           FECReportedErrors = FECErrs stats, FECParityShardsReceived = FECParityShards stats,
           FECFullShardSets = FECFullShardSet stats, FECIncompleteShardSets = FECShardSet stats\<rparr>)"

definition path_snapshot :: "path_stats \<Rightarrow> PathSnapshot" where
  "path_snapshot p =
     \<lparr>snap_id = path_id p, snap_label = path_label p, snap_active = (\<not> path_closed p),
      snap_path_traffic = path_traffic p\<rparr>"

definition pathSnapshots :: "registry \<Rightarrow> int \<times> PathSnapshot list" where
  "pathSnapshots r =
     (sint (activePaths r),
      sort_key snap_id
        (map (\<lambda>p. path_snapshot (heap r ! p)) (map snd (activePathsByID r) @ recentPaths r)))"

definition take_snapshot :: "registry \<Rightarrow> Snapshot" where
  "take_snapshot r =
     (let (active, ps) = pathSnapshots r in
      \<lparr>ActiveTransportConnections = sint (activeTransportConnections r),
       ActiveBackendStreams = sint (activeBackendStreams r), ActivePaths = active,
       ActiveSessions = sint (activeSessions r),
       ConnectionLimitRejections = sint (connectionLimitRejections r),
       BackendLimitRejections = sint (backendLimitRejections r),
       PathReconnects = sint (pathReconnects r), SessionReconnects = sint (sessionReconnects r),
       AuthFailures = sint (authFailures r), QueueDrops = sint (queueDrops r),
       snap_traffic = reg_traffic r, KCP = snapshotKCP (kcpSNMP r), Paths = ps\<rparr>)"

section \<open>Runs\<close>

text \<open>
  The calls clients make, in the order of their atomic regions. A call on a path is only
  possible once \<open>OpenPath\<close> has returned its pointer.
\<close>

datatype reg_op =
    OpOpen string | OpClose nat | OpRead nat int bool | OpBegin nat int
  | OpWrite nat "int option" int bool int | OpGauge gauge_op

fun reg_step :: "reg_op \<Rightarrow> registry \<Rightarrow> registry" where
  "reg_step (OpOpen lbl) r = snd (OpenPath r lbl)"
| "reg_step (OpClose p) r = (if p < length (heap r) then ClosePath r (Some p) else r)"
| "reg_step (OpRead p n failed) r = (if p < length (heap r) then ObserveRead r (Some p) n failed else r)"
| "reg_step (OpBegin p now) r = (if p < length (heap r) then snd (BeginWrite r (Some p) now) else r)"
| "reg_step (OpWrite p started n failed now) r =
     (if p < length (heap r) then ObserveWrite r (Some p) started n failed now else r)"
| "reg_step (OpGauge g) r = gauge g r"

definition reg_run :: "reg_op list \<Rightarrow> registry \<Rightarrow> registry" where
  "reg_run ops r = fold reg_step ops r"

text \<open>A goroutine writing one packet after another on path \<open>p\<close>: the sampled start times.\<close>

fun begin_writes :: "registry \<Rightarrow> nat \<Rightarrow> int list \<Rightarrow> int option list" where
  "begin_writes r p [] = []"
| "begin_writes r p (now # ts) =
     (let (s, r') = BeginWrite r (Some p) now in s # begin_writes r' p ts)"

text \<open>The additive counters of a \<open>traffic\<close> record: all but the latency maximum.\<close>

definition additive :: "(traffic \<Rightarrow> u64) list" where
  "additive = [bytesRead, bytesWritten, readOperations, writeOperations, readErrors, writeErrors,
     writeLatencySamples, writeLatencyTotalNS]"

definition active_ptrs :: "registry \<Rightarrow> nat list" where
  "active_ptrs r = map snd (activePathsByID r)"

text \<open>
  The registry invariant. Identifiers are allocation order; the active table holds exactly the
  paths not yet closed, each under its own identifier; the gauge counts them; the history holds
  distinct closed paths and is bounded; every additive total is the sum over all paths ever
  opened.
\<close>

definition ids_ok :: "registry \<Rightarrow> bool" where
  "ids_ok r \<longleftrightarrow> nextPathID r = of_nat (length (heap r)) \<and>
     (\<forall>p < length (heap r). path_id (heap r ! p) = of_nat (Suc p))"

definition active_ok :: "registry \<Rightarrow> bool" where
  "active_ok r \<longleftrightarrow>
     activePathsByID r = map (\<lambda>p. (path_id (heap r ! p), p)) (active_ptrs r) \<and>
     distinct (active_ptrs r) \<and>
     set (active_ptrs r) = {p. p < length (heap r) \<and> \<not> path_closed (heap r ! p)} \<and>
     activePaths r = of_nat (length (activePathsByID r))"

definition recent_ok :: "registry \<Rightarrow> bool" where
  "recent_ok r \<longleftrightarrow> length (recentPaths r) \<le> recentPathLimit \<and> distinct (recentPaths r) \<and>
     set (recentPaths r) \<subseteq> {p. p < length (heap r) \<and> path_closed (heap r ! p)}"

definition totals_ok :: "registry \<Rightarrow> bool" where
  "totals_ok r \<longleftrightarrow>
     (\<forall>c \<in> set additive. c (reg_traffic r) = sum_list (map (c \<circ> path_traffic) (heap r)))"

definition max_ok :: "registry \<Rightarrow> bool" where
  "max_ok r \<longleftrightarrow>
     writeLatencyMaxNS (reg_traffic r) = foldr max (map (writeLatencyMaxNS \<circ> path_traffic) (heap r)) 0"

definition reg_inv :: "registry \<Rightarrow> bool" where
  "reg_inv r \<longleftrightarrow> length (heap r) < 2 ^ 64 \<and> ids_ok r \<and> active_ok r \<and> recent_ok r \<and> totals_ok r"

definition opens :: "reg_op list \<Rightarrow> nat" where
  "opens ops = length (filter (\<lambda>oper. case oper of OpOpen _ \<Rightarrow> True | _ \<Rightarrow> False) ops)"

definition example_ops :: "reg_op list" where
  "example_ops = [OpOpen ''a'', OpOpen ''b'', OpRead 0 7 False, OpClose 0, OpClose 0, OpRead 1 5 True]"

section \<open>Preservation of the invariant\<close>

lemma sum_list_map_update:
  fixes f :: "'a \<Rightarrow> 'b::ab_group_add"
  assumes "p < length xs"
  shows "sum_list (map f (xs[p := y])) = sum_list (map f xs) - f (xs ! p) + f y"
  using assms by (induction xs arbitrary: p) (auto simp: algebra_simps split: nat.splits)

lemma of_nat_u64_inj:
  assumes "a < 2 ^ 64" "b < 2 ^ 64"
  shows "(of_nat a :: u64) = of_nat b \<longleftrightarrow> a = b"
  using assms by (simp add: word_of_nat_eq_iff take_bit_nat_eq_self)

lemma path_id_inj:
  assumes "reg_inv r" "p < length (heap r)" "q < length (heap r)"
  shows "path_id (heap r ! p) = path_id (heap r ! q) \<longleftrightarrow> p = q"
  using assms by (auto simp: reg_inv_def ids_ok_def of_nat_u64_inj)

lemma update_fresh:
  "k \<notin> fst ` set al \<Longrightarrow> AList.update k v al = al @ [(k, v)]"
  by (induction al) auto

lemma active_ptrs_valid:
  assumes "reg_inv r" "p \<in> set (active_ptrs r)"
  shows "p < length (heap r)" "\<not> path_closed (heap r ! p)"
  using assms by (auto simp: reg_inv_def active_ok_def)

lemma active_distinct: "reg_inv r \<Longrightarrow> distinct (active_ptrs r)"
  by (simp add: reg_inv_def active_ok_def)

lemma active_set:
  "reg_inv r \<Longrightarrow> set (active_ptrs r) = {p. p < length (heap r) \<and> \<not> path_closed (heap r ! p)}"
  by (simp add: reg_inv_def active_ok_def)

lemma active_gauge: "reg_inv r \<Longrightarrow> activePaths r = of_nat (length (activePathsByID r))"
  by (simp add: reg_inv_def active_ok_def)

lemma active_table:
  assumes "reg_inv r"
  shows "activePathsByID r = map (\<lambda>p. (path_id (heap r ! p), p)) (active_ptrs r)"
  using assms by (simp add: reg_inv_def active_ok_def)

lemma open_fresh_id:
  assumes "reg_inv r" "Suc (length (heap r)) < 2 ^ 64"
  shows "nextPathID r + 1 \<notin> fst ` set (activePathsByID r)"
proof
  assume "nextPathID r + 1 \<in> fst ` set (activePathsByID r)"
  then obtain p where p: "p \<in> set (active_ptrs r)" "path_id (heap r ! p) = nextPathID r + 1"
    unfolding active_table [OF assms(1)] by auto
  note lt = active_ptrs_valid(1) [OF assms(1) p(1)]
  from p(2) lt assms(1) have "(of_nat (Suc p) :: u64) = of_nat (Suc (length (heap r)))"
    by (simp add: reg_inv_def ids_ok_def add.commute)
  then show False using lt assms(2) of_nat_u64_inj [of "Suc p" "Suc (length (heap r))"] by simp
qed

lemma OpenPath_fields:
  assumes "reg_inv r" "Suc (length (heap r)) < 2 ^ 64"
  shows "heap (snd (OpenPath r lbl)) = heap r @
           [\<lparr>path_id = of_nat (Suc (length (heap r))), path_label = lbl, path_closed = False,
             writeSampleSequence = 0, path_traffic = no_traffic\<rparr>]"
    and "nextPathID (snd (OpenPath r lbl)) = of_nat (Suc (length (heap r)))"
    and "activePathsByID (snd (OpenPath r lbl)) =
           activePathsByID r @ [(of_nat (Suc (length (heap r))), length (heap r))]"
    and "activePaths (snd (OpenPath r lbl)) = activePaths r + 1"
    and "recentPaths (snd (OpenPath r lbl)) = recentPaths r"
    and "reg_traffic (snd (OpenPath r lbl)) = reg_traffic r"
  using assms update_fresh [OF open_fresh_id [OF assms]]
  by (simp_all add: OpenPath_def Let_def reg_inv_def ids_ok_def add.commute)

lemma OpenPath_active:
  assumes inv: "reg_inv r" and room: "Suc (length (heap r)) < 2 ^ 64"
  shows "active_ok (snd (OpenPath r lbl))"
proof -
  let ?r = "snd (OpenPath r lbl)"
  note f = OpenPath_fields [OF assms]
  have act: "active_ptrs ?r = active_ptrs r @ [length (heap r)]"
    by (simp add: active_ptrs_def f)
  have "activePathsByID ?r = map (\<lambda>p. (path_id (heap ?r ! p), p)) (active_ptrs ?r)"
    unfolding act f active_table [OF inv] using active_ptrs_valid(1) [OF inv]
    by (simp add: nth_append)
  moreover have "distinct (active_ptrs ?r)"
    unfolding act using active_distinct [OF inv] active_ptrs_valid(1) [OF inv] by auto
  moreover have "set (active_ptrs ?r) = {p. p < length (heap ?r) \<and> \<not> path_closed (heap ?r ! p)}"
    unfolding act f set_append active_set [OF inv] by (auto simp: nth_append)
  moreover have "activePaths ?r = of_nat (length (activePathsByID ?r))"
    unfolding f active_gauge [OF inv] by simp
  ultimately show ?thesis by (simp add: active_ok_def)
qed

lemma OpenPath_inv:
  assumes inv: "reg_inv r" and room: "Suc (length (heap r)) < 2 ^ 64"
  shows "reg_inv (snd (OpenPath r lbl))"
proof -
  let ?r = "snd (OpenPath r lbl)"
  note f = OpenPath_fields [OF assms]
  have "ids_ok ?r"
    unfolding ids_ok_def f using inv by (simp add: reg_inv_def ids_ok_def nth_append less_Suc_eq)
  moreover have "recent_ok ?r"
    unfolding recent_ok_def f using inv by (auto simp: reg_inv_def recent_ok_def nth_append)
  moreover have "totals_ok ?r"
    unfolding totals_ok_def f using inv
    by (auto simp: reg_inv_def totals_ok_def no_traffic_def additive_def)
  ultimately show ?thesis using OpenPath_active [OF assms] room by (simp add: reg_inv_def f)
qed

text \<open>A heap update that keeps identifier and closed flag of a path keeps the path tables.\<close>

lemma tables_frame:
  assumes inv: "reg_inv r"
    and shape: "length (heap r') = length (heap r)"
      "\<And>p. p < length (heap r) \<Longrightarrow> path_id (heap r' ! p) = path_id (heap r ! p) \<and>
         path_closed (heap r' ! p) = path_closed (heap r ! p)"
    and same: "nextPathID r' = nextPathID r" "activePathsByID r' = activePathsByID r"
      "recentPaths r' = recentPaths r" "activePaths r' = activePaths r"
    and tot: "totals_ok r'"
  shows "reg_inv r'"
proof -
  have act: "active_ptrs r' = active_ptrs r" by (simp add: active_ptrs_def same)
  have "activePathsByID r' = map (\<lambda>p. (path_id (heap r' ! p), p)) (active_ptrs r')"
    unfolding act same active_table [OF inv] using shape(2) active_ptrs_valid(1) [OF inv] by simp
  moreover have "set (active_ptrs r') = {p. p < length (heap r') \<and> \<not> path_closed (heap r' ! p)}"
    unfolding act shape(1) active_set [OF inv] using shape(2) by blast
  ultimately have "active_ok r'"
    using active_distinct [OF inv] active_gauge [OF inv] by (simp only: active_ok_def act same)
  moreover have "ids_ok r'"
    using inv shape by (simp add: reg_inv_def ids_ok_def same)
  moreover have "recent_ok r'"
    using inv shape by (auto simp: reg_inv_def recent_ok_def same)
  ultimately show ?thesis
    using inv shape(1) tot by (simp add: reg_inv_def)
qed

lemma totals_both_traffic:
  assumes "totals_ok r" "p < length (heap r)"
    and add: "\<And>c t. c \<in> set additive \<Longrightarrow> c (f t) - c t = c (f no_traffic)"
  shows "totals_ok (both_traffic r p f)"
proof -
  have step: "c (f t) = c t + c (f no_traffic)" if "c \<in> set additive" for c t
    using add [OF that, of t] by (simp add: algebra_simps)
  show ?thesis
    unfolding totals_ok_def
  proof
    fix c assume c: "c \<in> set additive"
    with assms(1,2) step [OF c, of "reg_traffic r"] step [OF c, of "path_traffic (heap r ! p)"]
    show "c (reg_traffic (both_traffic r p f)) = sum_list (map (c \<circ> path_traffic) (heap (both_traffic r p f)))"
      by (simp add: totals_ok_def both_traffic_def sum_list_map_update)
  qed
qed

lemma both_traffic_inv:
  assumes "reg_inv r" "p < length (heap r)"
    and "\<And>c t. c \<in> set additive \<Longrightarrow> c (f t) - c t = c (f no_traffic)"
  shows "reg_inv (both_traffic r p f)"
proof (rule tables_frame [OF assms(1)])
  show "totals_ok (both_traffic r p f)"
    using assms totals_both_traffic by (simp add: reg_inv_def)
qed (use assms in \<open>auto simp: both_traffic_def nth_list_update\<close>)

lemma observe_read_additive:
  "c \<in> set additive \<Longrightarrow> c (observe_read n e t) - c t = c (observe_read n e no_traffic)"
  by (auto simp: additive_def observe_read_def no_traffic_def)

lemma observe_write_additive:
  "c \<in> set additive \<Longrightarrow> c (observe_write s n e now t) - c t = c (observe_write s n e now no_traffic)"
  by (cases s) (auto simp: additive_def observe_write_def observeWriteLatency_def no_traffic_def Let_def)

lemma BeginWrite_inv:
  assumes "reg_inv r" "p < length (heap r)"
  shows "reg_inv (snd (BeginWrite r (Some p) now))"
proof (rule tables_frame [OF assms(1)])
  show "totals_ok (snd (BeginWrite r (Some p) now))"
    using assms by (simp add: reg_inv_def totals_ok_def BeginWrite_def Let_def sum_list_map_update)
qed (use assms in \<open>auto simp: BeginWrite_def Let_def nth_list_update\<close>)

lemma gauge_inv:
  assumes "reg_inv r"
  shows "reg_inv (gauge g r)"
proof (rule tables_frame [OF assms])
  show "totals_ok (gauge g r)"
    using assms by (cases g) (simp_all add: reg_inv_def totals_ok_def)
qed (cases g; simp)+

text \<open>Closing an open path.\<close>

lemma ClosePath_fields:
  assumes inv: "reg_inv r" and p: "p < length (heap r)" "\<not> path_closed (heap r ! p)"
  shows "heap (ClosePath r (Some p)) = (heap r)[p := (heap r ! p)\<lparr>path_closed := True\<rparr>]"
    and "activePathsByID (ClosePath r (Some p)) =
           map (\<lambda>q. (path_id (heap r ! q), q)) (remove1 p (active_ptrs r))"
    and "activePaths (ClosePath r (Some p)) = activePaths r - 1"
    and "recentPaths (ClosePath r (Some p)) =
           (if length (recentPaths r) < recentPathLimit then recentPaths r else tl (recentPaths r)) @ [p]"
    and "nextPathID (ClosePath r (Some p)) = nextPathID r"
    and "reg_traffic (ClosePath r (Some p)) = reg_traffic r"
proof -
  have mem: "p \<in> set (active_ptrs r)" using p by (simp add: active_set [OF inv])
  have "path_id (heap r ! p) \<in> fst ` set (activePathsByID r)"
    unfolding active_table [OF inv] using mem by force
  then obtain q where q: "map_of (activePathsByID r) (path_id (heap r ! p)) = Some q"
    by (metis map_of_eq_None_iff not_None_eq)
  have keep: "q \<in> set (active_ptrs r) \<Longrightarrow> (path_id (heap r ! p) \<noteq> path_id (heap r ! q)) = (q \<noteq> p)" for q
    using path_id_inj [OF inv p(1)] active_ptrs_valid(1) [OF inv] by blast
  have "AList.delete (path_id (heap r ! p)) (activePathsByID r) =
      map (\<lambda>q. (path_id (heap r ! q), q)) (filter (\<lambda>q. q \<noteq> p) (active_ptrs r))"
    unfolding active_table [OF inv] AList.delete_eq filter_map comp_def
    using keep by (simp cong: filter_cong)
  then have del: "AList.delete (path_id (heap r ! p)) (activePathsByID r) =
      map (\<lambda>q. (path_id (heap r ! q), q)) (remove1 p (active_ptrs r))"
    using active_distinct [OF inv] by (simp add: distinct_remove1_removeAll removeAll_filter_not_eq eq_commute)
  show "heap (ClosePath r (Some p)) = (heap r)[p := (heap r ! p)\<lparr>path_closed := True\<rparr>]"
    "activePathsByID (ClosePath r (Some p)) =
       map (\<lambda>q. (path_id (heap r ! q), q)) (remove1 p (active_ptrs r))"
    "activePaths (ClosePath r (Some p)) = activePaths r - 1"
    "recentPaths (ClosePath r (Some p)) =
       (if length (recentPaths r) < recentPathLimit then recentPaths r else tl (recentPaths r)) @ [p]"
    "nextPathID (ClosePath r (Some p)) = nextPathID r"
    "reg_traffic (ClosePath r (Some p)) = reg_traffic r"
    using p q by (simp_all add: ClosePath_def Let_def del)
qed

lemma ClosePath_active:
  assumes inv: "reg_inv r" and p: "p < length (heap r)" "\<not> path_closed (heap r ! p)"
  shows "active_ok (ClosePath r (Some p))"
proof -
  let ?r = "ClosePath r (Some p)"
  note f = ClosePath_fields [OF assms]
  note dist = active_distinct [OF inv]
  have mem: "p \<in> set (active_ptrs r)" using p by (simp add: active_set [OF inv])
  have act: "active_ptrs ?r = remove1 p (active_ptrs r)"
    by (simp add: active_ptrs_def f comp_def)
  have "activePathsByID ?r = map (\<lambda>q. (path_id (heap ?r ! q), q)) (active_ptrs ?r)"
    unfolding act f map_eq_conv using dist p by (simp add: nth_list_update set_remove1_eq)
  moreover have "distinct (active_ptrs ?r)"
    unfolding act using dist by simp
  moreover have "set (active_ptrs ?r) = {q. q < length (heap ?r) \<and> \<not> path_closed (heap ?r ! q)}"
    unfolding act f set_remove1_eq [OF dist] active_set [OF inv] using p
    by (auto simp: nth_list_update)
  moreover have "activePaths ?r = of_nat (length (activePathsByID ?r))"
  proof -
    obtain k where "length (active_ptrs r) = Suc k"
      using mem by (cases "active_ptrs r") auto
    then show ?thesis
      using mem unfolding f active_gauge [OF inv] active_table [OF inv] by (simp add: length_remove1)
  qed
  ultimately show ?thesis by (simp add: active_ok_def)
qed

lemma ClosePath_inv:
  assumes inv: "reg_inv r" and p: "p < length (heap r)"
  shows "reg_inv (ClosePath r (Some p))"
proof (cases "path_closed (heap r ! p)")
  case True
  then show ?thesis using inv by (simp add: ClosePath_def)
next
  case False
  let ?r = "ClosePath r (Some p)"
  note f = ClosePath_fields [OF inv p False]
  have "ids_ok ?r"
    using inv p unfolding ids_ok_def f by (auto simp: reg_inv_def ids_ok_def nth_list_update)
  moreover have "recent_ok ?r"
  proof -
    from inv have old: "length (recentPaths r) \<le> recentPathLimit" "distinct (recentPaths r)"
      "set (recentPaths r) \<subseteq> {q. q < length (heap r) \<and> path_closed (heap r ! q)}"
      by (auto simp: reg_inv_def recent_ok_def)
    have tl: "set (tl (recentPaths r)) \<subseteq> set (recentPaths r)" by (cases "recentPaths r") auto
    have "p \<notin> set (recentPaths r)" using old(3) False by auto
    with old tl False p show ?thesis unfolding recent_ok_def f
      by (auto simp: nth_list_update distinct_tl recentPathLimit_def)
  qed
  moreover have "totals_ok ?r"
    using inv p unfolding totals_ok_def f by (auto simp: reg_inv_def totals_ok_def sum_list_map_update)
  ultimately show ?thesis
    using ClosePath_active [OF inv p False] inv by (simp add: reg_inv_def f)
qed

section \<open>Runs keep the invariant\<close>

lemma heap_length_step:
  "length (heap (reg_step oper r)) \<le> length (heap r) + opens [oper]"
proof (cases oper)
  case (OpGauge g)
  then show ?thesis by (cases g) simp_all
qed (auto simp: OpenPath_def ClosePath_def ObserveRead_def ObserveWrite_def BeginWrite_def
    both_traffic_def opens_def Let_def split: option.splits)

lemma reg_step_inv:
  assumes "reg_inv r" "length (heap r) + opens [oper] < 2 ^ 64"
  shows "reg_inv (reg_step oper r)"
proof (cases oper)
  case (OpOpen lbl)
  then show ?thesis using assms OpenPath_inv by (simp add: opens_def)
next
  case (OpRead p n e)
  then show ?thesis
    using assms both_traffic_inv [OF assms(1), of p "observe_read n e"] observe_read_additive
    by (simp add: ObserveRead_def)
next
  case (OpWrite p st n e now)
  then show ?thesis
    using assms both_traffic_inv [OF assms(1), of p "observe_write st n e now"] observe_write_additive
    by (simp add: ObserveWrite_def)
qed (use assms ClosePath_inv BeginWrite_inv gauge_inv in auto)

lemma opens_Cons: "opens (oper # ops) = opens [oper] + opens ops"
  by (simp add: opens_def)

lemma reg_run_inv:
  assumes "reg_inv r" "length (heap r) + opens ops < 2 ^ 64"
  shows "reg_inv (reg_run ops r)"
  using assms
proof (induction ops arbitrary: r)
  case (Cons oper ops)
  have "length (heap r) + opens [oper] < 2 ^ 64" "length (heap (reg_step oper r)) + opens ops < 2 ^ 64"
    using Cons.prems(2) heap_length_step [of oper r] opens_Cons [of oper ops] by linarith+
  with Cons.IH [OF reg_step_inv [OF Cons.prems(1)]] show ?case by (simp add: reg_run_def)
qed (simp add: reg_run_def)

lemma empty_registry_inv: "reg_inv (empty_registry snmp)"
  by (simp add: reg_inv_def empty_registry_def ids_ok_def active_ok_def active_ptrs_def recent_ok_def
      totals_ok_def no_traffic_def additive_def)

lemma reachable_inv: "opens ops < 2 ^ 64 \<Longrightarrow> reg_inv (reg_run ops (empty_registry snmp))"
  using reg_run_inv [OF empty_registry_inv [of snmp], of ops] by (simp add: empty_registry_def)

lemma heap_length_run: "length (heap (reg_run ops r)) \<le> length (heap r) + opens ops"
proof (induction ops arbitrary: r)
  case (Cons oper ops)
  have "length (heap (reg_run ops (reg_step oper r))) \<le> length (heap (reg_step oper r)) + opens ops"
    by (rule Cons.IH)
  with heap_length_step [of oper r] show ?case
    using opens_Cons [of oper ops] by (simp add: reg_run_def)
qed (simp add: reg_run_def opens_def)

lemma sint_of_nat_small: "n < 2 ^ 63 \<Longrightarrow> sint (of_nat n :: u64) = int n"
  by (simp add: signed_of_nat signed_take_bit_int_eq_self)

lemma active_count:
  assumes "reg_inv r"
  shows "length (activePathsByID r) = card {p. p < length (heap r) \<and> \<not> path_closed (heap r ! p)}"
  using distinct_card [OF active_distinct [OF assms]] active_set [OF assms]
  by (simp add: active_ptrs_def)

lemma active_gauge_value:
  assumes "reg_inv r" "length (heap r) < 2 ^ 63"
  shows "sint (activePaths r) = int (card {p. p < length (heap r) \<and> \<not> path_closed (heap r ! p)})"
proof -
  have "card {p. p < length (heap r) \<and> \<not> path_closed (heap r ! p)} \<le> card {..<length (heap r)}"
    by (rule card_mono) auto
  then show ?thesis
    using assms(2) sint_of_nat_small by (simp add: active_gauge [OF assms(1)] active_count [OF assms(1)])
qed

text \<open>
  C12. Whatever the program does with its paths, as long as it opens fewer than \<open>2^63\<close> of them:
  the \<open>activePaths\<close> gauge is the number of paths not yet closed (a repeated \<open>Close\<close> does not
  decrement it again), the closed-path history holds at most 128 distinct paths, and each
  additive counter of the registry is the sum of that counter over every path ever opened, so
  closing a path loses no traffic.
\<close>

theorem registry_accounting:
  assumes "opens ops < 2 ^ 63" and "r = reg_run ops (empty_registry snmp)"
  shows "sint (activePaths r) = int (card {p. p < length (heap r) \<and> \<not> path_closed (heap r ! p)}) \<and>
    length (recentPaths r) \<le> recentPathLimit \<and> distinct (recentPaths r) \<and>
    (\<forall>c \<in> set additive. c (reg_traffic r) = sum_list (map (c \<circ> path_traffic) (heap r)))"
proof -
  have inv: "reg_inv r" using assms by (simp add: reachable_inv)
  have "length (heap r) < 2 ^ 63"
    using heap_length_run [of ops "empty_registry snmp"] assms by (simp add: empty_registry_def)
  note gauge = active_gauge_value [OF inv this]
  from inv have "recent_ok r" "totals_ok r" by (simp_all add: reg_inv_def)
  with gauge show ?thesis unfolding recent_ok_def totals_ok_def by blast
qed

theorem registry_accounting_witness:
  "sint (activePaths (reg_run example_ops (empty_registry None))) = 1 \<and>
   bytesRead (reg_traffic (reg_run example_ops (empty_registry None))) = 12 \<and>
   sum_list (map (bytesRead \<circ> path_traffic) (heap (reg_run example_ops (empty_registry None)))) = 12"
proof -
  have "opens example_ops < 2 ^ 63" by (simp add: opens_def example_ops_def)
  note t = registry_accounting [OF this refl, of None]
  have "sint (activePaths (reg_run example_ops (empty_registry None))) = 1"
    "bytesRead (reg_traffic (reg_run example_ops (empty_registry None))) = 12"
    by (simp_all add: example_ops_def reg_run_def OpenPath_def ClosePath_def ObserveRead_def Let_def
        both_traffic_def observe_read_def empty_registry_def no_traffic_def recentPathLimit_def)
  with t show ?thesis by (simp add: additive_def)
qed

section \<open>Snapshots\<close>

lemma snapshot_ptrs:
  assumes inv: "reg_inv r"
  shows "distinct (active_ptrs r @ recentPaths r)"
    and "set (active_ptrs r @ recentPaths r) \<subseteq> {..<length (heap r)}"
proof -
  have rec: "distinct (recentPaths r)"
    "set (recentPaths r) \<subseteq> {p. p < length (heap r) \<and> path_closed (heap r ! p)}"
    using inv by (simp_all add: reg_inv_def recent_ok_def)
  then show "distinct (active_ptrs r @ recentPaths r)"
    using active_distinct [OF inv] active_set [OF inv] by auto
  show "set (active_ptrs r @ recentPaths r) \<subseteq> {..<length (heap r)}"
    using rec active_set [OF inv] by auto
qed

lemma Paths_snapshot:
  "Paths (take_snapshot r) =
     sort_key snap_id (map (\<lambda>p. path_snapshot (heap r ! p)) (active_ptrs r @ recentPaths r))"
  by (simp add: take_snapshot_def pathSnapshots_def active_ptrs_def)

lemma distinct_map_sort_key: "distinct (map f (sort_key f xs)) = distinct (map f xs)"
  by (rule mset_eq_imp_distinct_iff) simp

lemma length_filter_sort_key: "length (filter P (sort_key f xs)) = length (filter P xs)"
  by (metis mset_filter mset_sort size_mset)

lemma snapshot_ids_distinct:
  assumes inv: "reg_inv r"
  shows "distinct (map snap_id (Paths (take_snapshot r)))"
proof -
  have "distinct (map (\<lambda>p. path_id (heap r ! p)) (active_ptrs r @ recentPaths r))"
    unfolding distinct_map using snapshot_ptrs [OF inv] path_id_inj [OF inv] by (auto intro!: inj_onI)
  then have "distinct (map snap_id (map (\<lambda>p. path_snapshot (heap r ! p)) (active_ptrs r @ recentPaths r)))"
    by (simp add: path_snapshot_def comp_def)
  then show ?thesis
    unfolding Paths_snapshot distinct_map_sort_key .
qed

lemma snapshot_active_count:
  assumes inv: "reg_inv r"
  shows "length (filter snap_active (Paths (take_snapshot r))) = length (activePathsByID r)"
proof -
  have rec: "set (recentPaths r) \<subseteq> {p. p < length (heap r) \<and> path_closed (heap r ! p)}"
    using inv by (simp add: reg_inv_def recent_ok_def)
  have "filter (\<lambda>p. \<not> path_closed (heap r ! p)) (active_ptrs r) = active_ptrs r"
    "filter (\<lambda>p. \<not> path_closed (heap r ! p)) (recentPaths r) = []"
    using active_set [OF inv] rec by (auto simp: filter_empty_conv)
  then have "length (filter snap_active (map (\<lambda>p. path_snapshot (heap r ! p)) (active_ptrs r @ recentPaths r)))
      = length (active_ptrs r)"
    by (simp add: filter_map comp_def path_snapshot_def)
  then show ?thesis
    unfolding Paths_snapshot length_filter_sort_key by (simp add: active_ptrs_def)
qed

lemma snapshot_paths_set:
  assumes inv: "reg_inv r" and p: "p < length (heap r)" "\<not> path_closed (heap r ! p) \<or> p \<in> set (recentPaths r)"
  shows "path_snapshot (heap r ! p) \<in> set (Paths (take_snapshot r))"
proof -
  have "p \<in> set (active_ptrs r @ recentPaths r)" using p active_set [OF inv] by auto
  then show ?thesis unfolding Paths_snapshot set_sort set_map by (rule imageI)
qed

text \<open>
  A snapshot of a reachable registry is well formed: its paths are strictly increasing by
  identifier (no path is reported twice, neither active nor in the history), its \<open>ActivePaths\<close>
  field is the number of listed paths marked active, every open path is listed, and at most
  128 closed ones are.
\<close>

theorem snapshot_well_formed:
  assumes "opens ops < 2 ^ 63" and "r = reg_run ops (empty_registry snmp)"
  shows "sorted_wrt (<) (map snap_id (Paths (take_snapshot r))) \<and>
    ActivePaths (take_snapshot r) = int (length (filter snap_active (Paths (take_snapshot r)))) \<and>
    (\<forall>p < length (heap r). \<not> path_closed (heap r ! p) \<longrightarrow>
       path_snapshot (heap r ! p) \<in> set (Paths (take_snapshot r))) \<and>
    length (filter (Not \<circ> snap_active) (Paths (take_snapshot r))) \<le> recentPathLimit"
proof -
  have inv: "reg_inv r" using assms by (simp add: reachable_inv)
  have len: "length (heap r) < 2 ^ 63"
    using heap_length_run [of ops "empty_registry snmp"] assms by (simp add: empty_registry_def)
  have "sorted (map snap_id (Paths (take_snapshot r)))"
    unfolding Paths_snapshot by simp
  then have sorted: "sorted_wrt (<) (map snap_id (Paths (take_snapshot r)))"
    using snapshot_ids_distinct [OF inv] by (simp add: strict_sorted_iff)
  have act: "ActivePaths (take_snapshot r) = int (length (filter snap_active (Paths (take_snapshot r))))"
    using active_gauge_value [OF inv len] snapshot_active_count [OF inv] active_count [OF inv]
    by (simp add: take_snapshot_def pathSnapshots_def)
  have "length (Paths (take_snapshot r)) = length (activePathsByID r) + length (recentPaths r)"
    unfolding Paths_snapshot by (simp add: active_ptrs_def)
  then have "length (filter (Not \<circ> snap_active) (Paths (take_snapshot r))) = length (recentPaths r)"
    using sum_length_filter_compl [of snap_active "Paths (take_snapshot r)"]
      snapshot_active_count [OF inv] by (simp add: comp_def)
  moreover have "length (recentPaths r) \<le> recentPathLimit"
    using inv by (simp add: reg_inv_def recent_ok_def)
  ultimately show ?thesis using sorted act snapshot_paths_set [OF inv] by auto
qed

theorem snapshot_well_formed_witness:
  "sorted_wrt (<) (map snap_id (Paths (take_snapshot (reg_run example_ops (empty_registry None))))) \<and>
   ActivePaths (take_snapshot (reg_run example_ops (empty_registry None))) = 1"
proof -
  have "opens example_ops < 2 ^ 63" by (simp add: opens_def example_ops_def)
  note t = snapshot_well_formed [OF this refl, of None]
  have "ActivePaths (take_snapshot (reg_run example_ops (empty_registry None))) = 1"
    by (simp add: example_ops_def reg_run_def OpenPath_def ClosePath_def ObserveRead_def Let_def
        both_traffic_def observe_read_def empty_registry_def no_traffic_def recentPathLimit_def
        take_snapshot_def pathSnapshots_def)
  with t show ?thesis by simp
qed

section \<open>Latency sampling\<close>

lemma unat_of_nat_u64: "k < 2 ^ 64 \<Longrightarrow> unat (of_nat k :: u64) = k"
  by (simp add: unsigned_of_nat take_bit_nat_eq_self)

lemma BeginWrite_seq:
  assumes "p < length (heap r)" "writeSampleSequence (heap r ! p) = of_nat k" "k < 2 ^ 64"
  shows "fst (BeginWrite r (Some p) now) = (if 64 dvd k then Some now else None)"
    and "length (heap (snd (BeginWrite r (Some p) now))) = length (heap r)"
    and "writeSampleSequence (heap (snd (BeginWrite r (Some p) now)) ! p) = of_nat (Suc k)"
  using assms(1,2) unat_of_nat_u64 [OF assms(3)]
  by (simp_all add: BeginWrite_def Let_def writeLatencySampleRate_def dvd_eq_mod_eq_0)

lemma begin_writes_nth:
  assumes "p < length (heap r)" "writeSampleSequence (heap r ! p) = of_nat k"
    "k + length ts \<le> 2 ^ 64" "i < length ts"
  shows "begin_writes r p ts ! i = (if 64 dvd (k + i) then Some (ts ! i) else None)"
  using assms
proof (induction ts arbitrary: r k i)
  case (Cons now ts)
  obtain s r' where b: "BeginWrite r (Some p) now = (s, r')" by fastforce
  have "k < 2 ^ 64" using Cons.prems(3) by simp
  note seq = BeginWrite_seq [OF Cons.prems(1,2) this, of now, unfolded b fst_conv snd_conv]
  show ?case
  proof (cases i)
    case 0
    then show ?thesis by (simp add: b seq(1))
  next
    case (Suc j)
    have "begin_writes r' p ts ! j = (if 64 dvd (Suc k + j) then Some (ts ! j) else None)"
      using Cons.prems Suc seq(2,3) by (intro Cons.IH) simp_all
    then show ?thesis using Suc by (simp add: b)
  qed
qed simp

lemma length_begin_writes: "length (begin_writes r p ts) = length ts"
  by (induction ts arbitrary: r) (auto simp: split_beta Let_def)

text \<open>
  Latency sampling is exactly one write in 64: of the writes on a newly opened path, the
  writes number 0, 64, 128, ... get their start time and every other one gets the zero time.
\<close>

theorem write_sampling:
  assumes "length ts \<le> 2 ^ 64"
  shows "begin_writes (snd (OpenPath r lbl)) (fst (OpenPath r lbl)) ts =
    map (\<lambda>i. if 64 dvd i then Some (ts ! i) else None) [0..<length ts]"
proof (rule nth_equalityI)
  show "length (begin_writes (snd (OpenPath r lbl)) (fst (OpenPath r lbl)) ts) =
    length (map (\<lambda>i. if 64 dvd i then Some (ts ! i) else None) [0..<length ts])"
    by (simp add: length_begin_writes)
next
  fix i assume "i < length (begin_writes (snd (OpenPath r lbl)) (fst (OpenPath r lbl)) ts)"
  then have i: "i < length ts" by (simp add: length_begin_writes)
  have "begin_writes (snd (OpenPath r lbl)) (fst (OpenPath r lbl)) ts ! i =
      (if 64 dvd (0 + i) then Some (ts ! i) else None)"
    using assms i by (intro begin_writes_nth) (simp_all add: OpenPath_def Let_def)
  with i show "begin_writes (snd (OpenPath r lbl)) (fst (OpenPath r lbl)) ts ! i =
      map (\<lambda>i. if 64 dvd i then Some (ts ! i) else None) [0..<length ts] ! i" by simp
qed

theorem write_sampling_witness:
  "begin_writes (snd (OpenPath (empty_registry None) ''a'')) (fst (OpenPath (empty_registry None) ''a''))
     [5, 6, 7] = [Some 5, None, None]"
proof -
  have idx: "[0..<length [5, 6, 7 :: int]] = [0, 1, 2]" by code_simp
  have "length [5, 6, 7 :: int] \<le> 2 ^ 64" by simp
  from write_sampling [OF this, of "empty_registry None" "''a''", unfolded idx]
  show ?thesis by (simp del: begin_writes.simps)
qed

section \<open>Latency maximum\<close>

lemma foldr_max_update:
  fixes xs :: "'a::linorder list"
  assumes "p < length xs"
  shows "foldr max (xs[p := max (xs ! p) v]) z = max (foldr max xs z) v"
  using assms
proof (induction xs arbitrary: p)
  case (Cons x xs)
  then show ?case by (cases p) (simp_all add: max.assoc max.commute max.left_commute)
qed simp

lemma map_update_same: "p < length xs \<Longrightarrow> f y = f (xs ! p) \<Longrightarrow> map f (xs[p := y]) = map f xs"
  by (simp add: map_update) (metis length_map list_update_id nth_map)

lemma updateMaximum_max: "updateMaximum a b = max a b"
  by (auto simp: updateMaximum_def max_def)

lemma max_both_traffic:
  assumes "max_ok r" "p < length (heap r)"
    and "\<And>t. writeLatencyMaxNS (f t) = max (writeLatencyMaxNS t) v"
  shows "max_ok (both_traffic r p f)"
  using assms foldr_max_update [of p "map (writeLatencyMaxNS \<circ> path_traffic) (heap r)" v 0]
  by (simp add: max_ok_def both_traffic_def map_update)

lemma observe_write_max:
  "\<exists>v. \<forall>t. writeLatencyMaxNS (observe_write st n e now t) = max (writeLatencyMaxNS t) v"
proof (cases st)
  case None
  then show ?thesis by (intro exI [of _ 0]) (simp add: observe_write_def)
next
  case (Some t0)
  then show ?thesis
    by (intro exI [of _ "word_of_int (if now - t0 < 0 then 0 else now - t0)"])
      (simp add: observe_write_def observeWriteLatency_def Let_def updateMaximum_max)
qed

lemma reg_step_max:
  assumes "max_ok r"
  shows "max_ok (reg_step oper r)"
proof (cases oper)
  case (OpWrite p st n e now)
  obtain v where "\<forall>t. writeLatencyMaxNS (observe_write st n e now t) = max (writeLatencyMaxNS t) v"
    using observe_write_max by blast
  then show ?thesis using OpWrite assms max_both_traffic by (simp add: ObserveWrite_def)
next
  case (OpRead p n e)
  have "writeLatencyMaxNS (observe_read n e t) = max (writeLatencyMaxNS t) 0" for t
    by (simp add: observe_read_def)
  note max_both_traffic [OF assms _ this]
  then show ?thesis using OpRead assms by (simp add: ObserveRead_def)
next
  case (OpGauge g)
  then show ?thesis using assms by (cases g) (simp_all add: max_ok_def)
qed (use assms in \<open>auto simp: max_ok_def OpenPath_def ClosePath_def BeginWrite_def Let_def
    no_traffic_def map_update_same split: option.splits\<close>)

text \<open>
  After any sequence of calls the registry's maximal write latency is the largest of the
  maxima of all paths ever opened, closed ones included: \<open>updateMaximum\<close> never lowers a maximum
  and never misses a larger sample.
\<close>

theorem latency_maximum:
  "writeLatencyMaxNS (reg_traffic (reg_run ops (empty_registry snmp))) =
     foldr max (map (writeLatencyMaxNS \<circ> path_traffic) (heap (reg_run ops (empty_registry snmp)))) 0"
proof -
  have "max_ok r \<Longrightarrow> max_ok (reg_run ops r)" for r
    unfolding reg_run_def by (induction ops arbitrary: r) (simp_all add: reg_step_max)
  moreover have "max_ok (empty_registry snmp)"
    by (simp add: max_ok_def empty_registry_def no_traffic_def)
  ultimately show ?thesis by (simp add: max_ok_def)
qed

end
