(* ===== verification/Transitions.thy ===== *)
theory Transitions
  imports Main
begin

text \<open>
  Interleaving semantics shared by the components whose operations run in several
  goroutines. A component gives an initial state and an \<open>inductive\<close> step relation between
  its lock-granular atomic regions; \<open>reachable\<close> closes it, and the locale
  \<open>invariant_system\<close> turns one preservation proof into facts about every reachable state.
\<close>

inductive reachable :: "('s \<Rightarrow> bool) \<Rightarrow> ('s \<Rightarrow> 's \<Rightarrow> bool) \<Rightarrow> 's \<Rightarrow> bool"
  for init :: "'s \<Rightarrow> bool" and step :: "'s \<Rightarrow> 's \<Rightarrow> bool" where
  reach_init: "init s \<Longrightarrow> reachable init step s"
| reach_step: "reachable init step s \<Longrightarrow> step s t \<Longrightarrow> reachable init step t"

lemma reachable_steps:
  assumes "reachable init step s" "step\<^sup>*\<^sup>* s t"
  shows "reachable init step t"
  using assms(2,1) by (induction rule: rtranclp_induct) (auto intro: reach_step)

locale invariant_system =
  fixes init :: "'s \<Rightarrow> bool" and step :: "'s \<Rightarrow> 's \<Rightarrow> bool" and inv :: "'s \<Rightarrow> bool"
  assumes inv_init: "init s \<Longrightarrow> inv s"
    and inv_step: "inv s \<Longrightarrow> step s t \<Longrightarrow> inv t"
begin

lemma inv_reachable: "reachable init step s \<Longrightarrow> inv s"
  by (induction rule: reachable.induct) (auto intro: inv_init inv_step)

lemma inv_steps: "step\<^sup>*\<^sup>* s t \<Longrightarrow> inv s \<Longrightarrow> inv t"
  by (induction rule: converse_rtranclp_induct) (auto intro: inv_step)

text \<open>A property that one step keeps, given the invariant, is stable from any reachable state on.\<close>

lemma stable_steps:
  assumes "\<And>s t. inv s \<Longrightarrow> P s \<Longrightarrow> step s t \<Longrightarrow> P t"
    and "reachable init step s" "P s" "step\<^sup>*\<^sup>* s t"
  shows "P t"
  using assms(4,3) inv_reachable [OF assms(2)]
  by (induction rule: converse_rtranclp_induct) (auto intro: assms(1) inv_step)

end

end
