(* ===== verification/Bonded_Conn.thy ===== *)
theory Bonded_Conn
  imports Tuning Metrics_Registry Transitions
begin

text \<open>
  \<open>src/tcputil/bonded_packet_conn.go\<close>: the \<open>BondedPacketConn\<close>, one packet transport over
  several DTLS paths. A \<open>bondedPath\<close> is an index into \<open>objs\<close>; the calls made on its
  connection and its owner (\<open>Write\<close>, \<open>SetWriteDeadline\<close>, \<open>Close\<close>, \<open>cleanup\<close>, closing the
  \<open>done\<close> channel) are appended to the log \<open>calls\<close>, so that "exactly once" is a count in it.
  The outcome of a connection's \<open>Write\<close> or \<open>Read\<close> is an argument of the operation.

  The first part gives every method as a function of the state, run without interference.
  The second part cuts the methods at their lock and channel operations into atomic regions
  (using the same region functions) and lets any number of goroutines interleave them.
\<close>

section \<open>State\<close>

datatype conn_call =
    ConnWrite nat string | ConnSetWriteDeadline nat int | ConnClose nat | PathCleanup nat | PathDone nat

record bondedPath =
  bp_id :: u64
  bp_has_cleanup :: bool
  bp_closing :: bool
  bp_stats :: "nat option"

record bond =
  bond_label :: string
  metricRegistry :: registry
  paths :: "nat list"
  nextPath :: u64
  nextID :: u64
  readCh :: "string list"
  stateCh :: bool
  closed :: bool
  emptyGrace :: int
  emptyTimer :: "nat option"
  emptyExpired :: bool
  writeDeadline :: "int option"
  objs :: "bondedPath list"
  armed :: "nat list"
  nextTimer :: nat
  calls :: "conn_call list"

definition defaultBondEmptyPathGrace :: int where "defaultBondEmptyPathGrace = 10000000000"

definition readCh_capacity :: nat where "readCh_capacity = 1024"

definition newBondedPacketConn :: "string \<Rightarrow> int \<Rightarrow> registry \<Rightarrow> bond" where
  "newBondedPacketConn lbl grace reg =
     \<lparr>bond_label = (if lbl = [] then ''vless-bond'' else lbl), metricRegistry = reg,
      paths = [], nextPath = 0, nextID = 0, readCh = [], stateCh = False, closed = False,
      emptyGrace = (if grace \<le> 0 then defaultBondEmptyPathGrace else grace),
      emptyTimer = None, emptyExpired = False, writeDeadline = None,
      objs = [], armed = [], nextTimer = 0, calls = []\<rparr>"

definition NewBondedPacketConn :: "string \<Rightarrow> registry \<Rightarrow> bond" where
  "NewBondedPacketConn lbl reg = newBondedPacketConn lbl defaultBondEmptyPathGrace reg"

section \<open>Regions\<close>

definition log_calls :: "conn_call list \<Rightarrow> bond \<Rightarrow> bond" where
  "log_calls cs b = b\<lparr>calls := calls b @ cs\<rparr>"

definition notifyStateChanged :: "bond \<Rightarrow> bond" where
  "notifyStateChanged b = b\<lparr>stateCh := True\<rparr>"

definition Count :: "bond \<Rightarrow> nat" where
  "Count b = length (paths b)"

definition snapshotPaths :: "bond \<Rightarrow> nat list" where
  "snapshotPaths b = paths b"

definition cleanup_calls :: "bond \<Rightarrow> nat \<Rightarrow> conn_call list" where
  "cleanup_calls b p = (if bp_has_cleanup (objs b ! p) then [PathCleanup p] else [])"

definition closePath :: "nat \<Rightarrow> bond \<Rightarrow> bond" where
  "closePath p b = log_calls ([ConnClose p] @ cleanup_calls b p @ [PathDone p]) b"

text \<open>\<open>emptyTimer.Stop()\<close> prevents the callback of an armed timer; one that fired is not stopped.\<close>

definition stop_timer :: "bond \<Rightarrow> bond" where
  "stop_timer b =
     (case emptyTimer b of
        None \<Rightarrow> b
      | Some t \<Rightarrow> b\<lparr>armed := removeAll t (armed b), emptyTimer := None\<rparr>)"

definition alloc_path :: "bool \<Rightarrow> bond \<Rightarrow> nat \<times> bond" where
  "alloc_path has_cleanup b =
     (length (objs b),
      b\<lparr>nextID := nextID b + 1,
        objs := objs b @ [\<lparr>bp_id = nextID b + 1, bp_has_cleanup = has_cleanup, bp_closing = False,
                           bp_stats = None\<rparr>]\<rparr>)"

definition path_metric_label :: "bond \<Rightarrow> nat \<Rightarrow> string" where
  "path_metric_label b p = bond_label b @ ''/path-'' @ Itoa (uint (bp_id (objs b ! p)))"

definition register_path :: "nat \<Rightarrow> bond \<Rightarrow> bond" where
  "register_path p b =
     (let b1 = stop_timer b;
          (m, reg) = OpenPath (metricRegistry b1) (path_metric_label b1 p)
      in b1\<lparr>paths := paths b1 @ [p], metricRegistry := reg,
            objs := (objs b1)[p := (objs b1 ! p)\<lparr>bp_stats := Some m\<rparr>]\<rparr>)"

definition detach_path :: "nat \<Rightarrow> bond \<Rightarrow> bond" where
  "detach_path p b =
     b\<lparr>paths := remove1 p (paths b),
       objs := (objs b)[p := (objs b ! p)\<lparr>bp_closing := True\<rparr>],
       metricRegistry := ClosePath (metricRegistry b) (bp_stats (objs b ! p))\<rparr>"

definition finish_remove :: "nat \<Rightarrow> bool \<Rightarrow> bond \<Rightarrow> bond" where
  "finish_remove p closeConn b =
     log_calls ((if closeConn then [ConnClose p] else []) @ cleanup_calls b p @ [PathDone p])
       (notifyStateChanged b)"

definition may_arm :: "bond \<Rightarrow> bool" where
  "may_arm b \<longleftrightarrow> paths b = [] \<and> emptyTimer b = None \<and> \<not> emptyExpired b \<and> \<not> closed b"

definition arm_timer :: "bond \<Rightarrow> bond" where
  "arm_timer b = b\<lparr>emptyTimer := Some (nextTimer b), armed := nextTimer b # armed b,
                   nextTimer := Suc (nextTimer b)\<rparr>"

text \<open>The locked region of the timer callback; the second component says whether it goes on to \<open>Close\<close>.\<close>

definition grace_callback :: "bond \<Rightarrow> bond \<times> bool" where
  "grace_callback b =
     (if paths b \<noteq> [] then (b\<lparr>emptyTimer := None\<rparr>, False)
      else (b\<lparr>emptyExpired := True, emptyTimer := None\<rparr>, True))"

section \<open>Methods\<close>

definition startEmptyGrace :: "bond \<Rightarrow> bond" where
  "startEmptyGrace b = (if may_arm b then arm_timer b else b)"

definition removePath :: "nat \<Rightarrow> bool \<Rightarrow> bond \<Rightarrow> bond" where
  "removePath p closeConn b =
     (if p \<in> set (paths b) then
        let b1 = detach_path p b;
            b2 = (if Count b1 = 0 then startEmptyGrace b1 else b1)
        in finish_remove p closeConn b2
      else b)"

definition Close :: "bond \<Rightarrow> bond" where
  "Close b =
     (if closed b then b
      else let b1 = notifyStateChanged (stop_timer (b\<lparr>closed := True\<rparr>))
           in fold (\<lambda>p. removePath p True) (snapshotPaths b1) b1)"

definition fire_timer :: "nat \<Rightarrow> bond \<Rightarrow> bond" where
  "fire_timer t b =
     (if t \<in> set (armed b) then
        let (b1, expired) = grace_callback (b\<lparr>armed := removeAll t (armed b)\<rparr>)
        in if expired then Close b1 else b1
      else b)"

text \<open>\<open>AddConn\<close>: \<open>None\<close> is a nil connection, \<open>Some has_cleanup\<close> a connection with or without owner.\<close>

definition AddConn :: "bool option \<Rightarrow> bond \<Rightarrow> nat option \<times> bond" where
  "AddConn conn b =
     (case conn of
        None \<Rightarrow> (None, b)
      | Some has_cleanup \<Rightarrow>
          let (p, b1) = alloc_path has_cleanup b
          in if closed b1 then (Some p, closePath p b1)
             else if emptyExpired b1 then (Some p, closePath p b1)
             else (Some p, notifyStateChanged (register_path p b1)))"

text \<open>\<open>select\<close> picks any ready case; \<open>prefer_closed\<close> is the choice when both are ready.\<close>

datatype read_result = ReadPacket string | ReadErrClosed | ReadBlocks

definition ReadFrom :: "bool \<Rightarrow> nat \<Rightarrow> bond \<Rightarrow> read_result \<times> bond" where
  "ReadFrom prefer_closed buflen b =
     (case readCh b of
        [] \<Rightarrow> (if closed b then ReadErrClosed else ReadBlocks, b)
      | d # rest \<Rightarrow>
          if closed b \<and> prefer_closed then (ReadErrClosed, b)
          else (ReadPacket (take buflen d), b\<lparr>readCh := rest\<rparr>))"

definition permanent_marks :: "string list" where
  "permanent_marks = [''closed'', ''broken pipe'', ''reset'', ''use of closed'']"

definition transient_marks :: "string list" where
  "transient_marks = [''deadline exceeded'', ''timeout'', ''temporarily'', ''short write'', ''buffer'']"

definition isPermanentPathError :: "io_err option \<Rightarrow> bool" where
  "isPermanentPathError err =
     (case err of
        None \<Rightarrow> False
      | Some e \<Rightarrow>
          if err_is e \<in> {NetErrClosed, IoErrClosedPipe, IoEOF} then True
          else if err_timeout e then False
          else let msg = ToLower (err_text e) in
            if list_ex (str_contains msg) transient_marks then False
            else if list_ex (str_contains msg) permanent_marks then True
            else False)"

definition ioShortWrite :: "nat \<Rightarrow> nat \<Rightarrow> io_err" where
  "ioShortWrite n want =
     \<lparr>err_is = OtherError, err_timeout = False,
      err_text = ''short write: wrote '' @ Itoa (int n) @ '' of '' @ Itoa (int want) @ '' bytes''\<rparr>"

text \<open>What \<open>conn.Write\<close> of a path returned, with the two clock readings around it.\<close>

record write_outcome =
  wr_n :: nat
  wr_err :: "io_err option"
  wr_begin :: int
  wr_end :: int

definition path_write_error :: "string \<Rightarrow> write_outcome \<Rightarrow> io_err option" where
  "path_write_error pkt w =
     (case wr_err w of
        Some e \<Rightarrow> Some e
      | None \<Rightarrow> if wr_n w \<noteq> length pkt then Some (ioShortWrite (wr_n w) (length pkt)) else None)"

definition deadline_calls :: "bond \<Rightarrow> nat \<Rightarrow> conn_call list" where
  "deadline_calls b p = (case writeDeadline b of None \<Rightarrow> [] | Some t \<Rightarrow> [ConnSetWriteDeadline p t])"

definition write_path :: "string \<Rightarrow> (nat \<Rightarrow> write_outcome) \<Rightarrow> nat \<Rightarrow> bond \<Rightarrow> bond" where
  "write_path pkt io p b =
     (let st = bp_stats (objs b ! p);
          b1 = log_calls (deadline_calls b p) b;
          (started, reg1) = BeginWrite (metricRegistry b1) st (wr_begin (io p));
          b2 = log_calls [ConnWrite p pkt] b1;
          err = path_write_error pkt (io p);
          (started', metricErr) = (if bp_closing (objs b ! p) then (None, False) else (started, err \<noteq> None))
      in b2\<lparr>metricRegistry := ObserveWrite reg1 st started' (int (wr_n (io p))) metricErr (wr_end (io p))\<rparr>)"

datatype write_result = Wrote nat | WriteErrClosed | WritePanic

fun write_attempts ::
  "string \<Rightarrow> (nat \<Rightarrow> write_outcome) \<Rightarrow> nat list \<Rightarrow> int \<Rightarrow> nat list \<Rightarrow> bond \<Rightarrow> write_result \<times> bond" where
  "write_attempts pkt io ps start [] b =
     (if closed b then (WriteErrClosed, b)
      else (Wrote (length pkt), if Count b = 0 then startEmptyGrace b else b))"
| "write_attempts pkt io ps start (attempt # rest) b =
     (let i = go_mod (wrap64 (start + int attempt)) (int (length ps)) in
      if i < 0 then (WritePanic, b)
      else
        let p = ps ! nat i;
            b1 = write_path pkt io p b;
            err = path_write_error pkt (io p)
        in if err = None then (Wrote (wr_n (io p)), b1)
           else write_attempts pkt io ps start rest
                  (if isPermanentPathError err then removePath p True b1 else b1))"

definition WriteTo :: "string \<Rightarrow> (nat \<Rightarrow> write_outcome) \<Rightarrow> bond \<Rightarrow> write_result \<times> bond" where
  "WriteTo pkt io b =
     (if pkt = [] then (Wrote 0, b)
      else if closed b then (WriteErrClosed, b)
      else
        let ps = snapshotPaths b in
        if ps = [] then
          let b1 = startEmptyGrace b
          in (if closed b1 then WriteErrClosed else Wrote (length pkt), b1)
        else
          let next = nextPath b + 1;
              start = go_mod (sint (next - 1)) (int (length ps))
          in write_attempts pkt io ps start [0..<length ps] (b\<lparr>nextPath := next\<rparr>))"

definition SetWriteDeadline :: "int \<Rightarrow> bond \<Rightarrow> bond" where
  "SetWriteDeadline t b =
     log_calls (map (\<lambda>p. ConnSetWriteDeadline p t) (snapshotPaths b)) (b\<lparr>writeDeadline := Some t\<rparr>)"

definition SetDeadline :: "int \<Rightarrow> bond \<Rightarrow> bond" where
  "SetDeadline t b = SetWriteDeadline t b"

text \<open>
  One iteration of \<open>readLoop\<close>: the bytes and error of \<open>conn.Read\<close>, the configured KCP MTU
  and the choice of \<open>select\<close>. \<open>LoopReturns\<close> includes the deferred \<open>removePath\<close>.
\<close>

datatype loop_result = LoopContinues | LoopReturns | LoopBlocks

definition readLoop_step ::
  "int \<Rightarrow> bool \<Rightarrow> nat \<Rightarrow> string \<Rightarrow> io_err option \<Rightarrow> bond \<Rightarrow> loop_result \<times> bond" where
  "readLoop_step kcpMtu prefer_closed p d err b =
     (let n = int (length d); st = bp_stats (objs b ! p);
          observe = (\<lambda>failed. b\<lparr>metricRegistry := ObserveRead (metricRegistry b) st n failed\<rparr>)
      in case err of
           Some e \<Rightarrow>
             (LoopReturns,
              removePath p True
                (if \<not> bp_closing (objs b ! p) then observe True else if n > 0 then observe False else b))
         | None \<Rightarrow>
             let b1 = observe False in
             if n = 0 then (LoopContinues, b1)
             else if n > kcpMtu + 128 then (LoopContinues, b1)
             else if closed b1 \<and> (prefer_closed \<or> length (readCh b1) \<ge> readCh_capacity)
               then (LoopReturns, removePath p True b1)
             else if length (readCh b1) < readCh_capacity
               then (LoopContinues, b1\<lparr>readCh := readCh b1 @ [d]\<rparr>)
             else (LoopBlocks, b1))"

section \<open>Specification of writing and reading\<close>

text \<open>The packets handed to path connections, in order.\<close>

fun writes_of :: "conn_call list \<Rightarrow> (nat \<times> string) list" where
  "writes_of [] = []"
| "writes_of (ConnWrite p d # cs) = (p, d) # writes_of cs"
| "writes_of (_ # cs) = writes_of cs"

definition write_fails :: "string \<Rightarrow> (nat \<Rightarrow> write_outcome) \<Rightarrow> nat \<Rightarrow> bool" where
  "write_fails pkt io p \<longleftrightarrow> path_write_error pkt (io p) \<noteq> None"

definition write_breaks :: "string \<Rightarrow> (nat \<Rightarrow> write_outcome) \<Rightarrow> nat \<Rightarrow> bool" where
  "write_breaks pkt io p \<longleftrightarrow> isPermanentPathError (path_write_error pkt (io p))"

text \<open>The order in which a write tries the paths, and the paths it tries.\<close>

definition stripe :: "bond \<Rightarrow> nat list" where
  "stripe b = rotate (unat (nextPath b)) (paths b)"

definition tried :: "string \<Rightarrow> (nat \<Rightarrow> write_outcome) \<Rightarrow> nat list \<Rightarrow> nat list" where
  "tried pkt io qs = takeWhile (write_fails pkt io) qs @ take 1 (dropWhile (write_fails pkt io) qs)"

fun write_list :: "string \<Rightarrow> (nat \<Rightarrow> write_outcome) \<Rightarrow> nat list \<Rightarrow> bond \<Rightarrow> write_result \<times> bond" where
  "write_list pkt io [] b =
     (if closed b then (WriteErrClosed, b)
      else (Wrote (length pkt), if Count b = 0 then startEmptyGrace b else b))"
| "write_list pkt io (p # ps) b =
     (if write_fails pkt io p
      then write_list pkt io ps
             (if write_breaks pkt io p then removePath p True (write_path pkt io p b) else write_path pkt io p b)
      else (Wrote (wr_n (io p)), write_path pkt io p b))"

text \<open>
  Packets arriving on paths of an open bond and packets KCP takes with \<open>ReadFrom\<close>, in any
  order. An arrival that finds the channel full waits, so it is not an event until there is
  room. The lists are the datagrams that arrived and the packets KCP received.
\<close>

inductive read_trace :: "int \<Rightarrow> nat \<Rightarrow> bond \<Rightarrow> string list \<Rightarrow> string list \<Rightarrow> bond \<Rightarrow> bool"
  for kcpMtu :: int and buflen :: nat and b0 :: bond where
  trace_start: "read_trace kcpMtu buflen b0 [] [] b0"
| trace_arrive: "read_trace kcpMtu buflen b0 arrived taken b \<Longrightarrow>
    readLoop_step kcpMtu pick p d None b = (LoopContinues, b') \<Longrightarrow>
    read_trace kcpMtu buflen b0 (arrived @ [d]) taken b'"
| trace_take: "read_trace kcpMtu buflen b0 arrived taken b \<Longrightarrow>
    ReadFrom pick buflen b = (ReadPacket d, b') \<Longrightarrow>
    read_trace kcpMtu buflen b0 arrived (taken @ [d]) b'"

definition fits :: "int \<Rightarrow> string \<Rightarrow> bool" where
  "fits kcpMtu d \<longleftrightarrow> d \<noteq> [] \<and> int (length d) \<le> kcpMtu + 128"

definition example_bond :: bond where
  "example_bond =
     snd (AddConn (Some True) (snd (AddConn (Some True) (snd (AddConn (Some False)
       (newBondedPacketConn ''b'' 0 (empty_registry None)))))))"

definition example_io :: "nat \<Rightarrow> write_outcome" where
  "example_io p =
     (if p = 0 then \<lparr>wr_n = 0, wr_err = Some \<lparr>err_is = NetErrClosed, err_timeout = False, err_text = ''closed''\<rparr>,
                     wr_begin = 0, wr_end = 0\<rparr>
      else if p = 1 then \<lparr>wr_n = 1, wr_err = None, wr_begin = 0, wr_end = 0\<rparr>
      else \<lparr>wr_n = 2, wr_err = None, wr_begin = 0, wr_end = 0\<rparr>)"

lemma write_attempts_list:
  assumes "list_all (\<lambda>a. 0 \<le> go_mod (wrap64 (start + int a)) (int (length ps))) attempts"
  shows "write_attempts pkt io ps start attempts b =
    write_list pkt io (map (\<lambda>a. ps ! nat (go_mod (wrap64 (start + int a)) (int (length ps)))) attempts) b"
  using assms by (induction attempts arbitrary: b) (simp_all add: Let_def write_fails_def write_breaks_def)

lemma writes_of_append [simp]: "writes_of (xs @ ys) = writes_of xs @ writes_of ys"
  by (induction xs rule: writes_of.induct) simp_all

lemma writes_of_helpers [simp]:
  "writes_of (deadline_calls b p) = []" "writes_of (cleanup_calls b p) = []"
  by (simp_all add: deadline_calls_def cleanup_calls_def split: option.splits)

lemma startEmptyGrace_frame [simp]:
  "paths (startEmptyGrace b) = paths b" "closed (startEmptyGrace b) = closed b"
  "nextPath (startEmptyGrace b) = nextPath b" "calls (startEmptyGrace b) = calls b"
  "objs (startEmptyGrace b) = objs b" "readCh (startEmptyGrace b) = readCh b"
  by (simp_all add: startEmptyGrace_def arm_timer_def)

lemma write_path_frame [simp]:
  "paths (write_path pkt io p b) = paths b" "closed (write_path pkt io p b) = closed b"
  "nextPath (write_path pkt io p b) = nextPath b" "objs (write_path pkt io p b) = objs b"
  "writes_of (calls (write_path pkt io p b)) = writes_of (calls b) @ [(p, pkt)]"
  by (simp_all add: write_path_def log_calls_def Let_def split: prod.splits)

lemma removePath_frame [simp]:
  "paths (removePath p c b) = remove1 p (paths b)" "closed (removePath p c b) = closed b"
  "nextPath (removePath p c b) = nextPath b" "readCh (removePath p c b) = readCh b"
  "writes_of (calls (removePath p c b)) = writes_of (calls b)"
  by (simp_all add: removePath_def finish_remove_def log_calls_def notifyStateChanged_def detach_path_def
      Let_def remove1_idem)

lemma remove1_filter: "distinct xs \<Longrightarrow> remove1 x xs = filter (\<lambda>y. y \<noteq> x) xs"
  by (simp add: distinct_remove1_removeAll removeAll_filter_not_eq eq_commute)

lemma write_list_spec:
  assumes "distinct (paths b)" "\<not> closed b"
  shows "fst (write_list pkt io qs b) = Wrote (length pkt) \<and>
    paths (snd (write_list pkt io qs b)) =
      filter (\<lambda>q. \<not> (q \<in> set (takeWhile (write_fails pkt io) qs) \<and> write_breaks pkt io q)) (paths b) \<and>
    writes_of (calls (snd (write_list pkt io qs b))) =
      writes_of (calls b) @ map (\<lambda>q. (q, pkt)) (tried pkt io qs) \<and>
    \<not> closed (snd (write_list pkt io qs b)) \<and> nextPath (snd (write_list pkt io qs b)) = nextPath b"
  using assms
proof (induction qs arbitrary: b)
  case (Cons p qs)
  show ?case
  proof (cases "write_fails pkt io p")
    case False
    then show ?thesis
      using Cons.prems by (auto simp: tried_def write_fails_def path_write_error_def split: option.splits if_splits)
  next
    case True
    let ?b = "if write_breaks pkt io p then removePath p True (write_path pkt io p b) else write_path pkt io p b"
    have prem: "distinct (paths ?b)" "\<not> closed ?b"
      using Cons.prems by simp_all
    have "paths ?b = filter (\<lambda>q. \<not> (q = p \<and> write_breaks pkt io p)) (paths b)"
      using Cons.prems(1) by (simp add: remove1_filter)
    with Cons.IH [OF prem] True show ?thesis
      by (auto simp: tried_def intro!: filter_cong)
  qed
qed (simp_all add: tried_def)

lemma sint_small: "unat (w :: u64) < 2 ^ 63 \<Longrightarrow> sint w = int (unat w)"
  using sint_of_nat_small [of "unat w"] by simp

lemma stripe_index:
  assumes "n < 2 ^ 63" "a < len" "len < 2 ^ 62"
  shows "go_mod (wrap64 (go_mod (int n) (int len) + int a)) (int len) = int ((n + a) mod len)"
proof -
  have start: "go_mod (int n) (int len) = int (n mod len)"
    using assms by (simp add: zmod_int)
  have bound: "is_int64 (int m + int a)" if "m < len" for m
    using that assms by (simp add: is_int64_def min_int64_def max_int64_def)
  have "wrap64 (int (n mod len) + int a) = int (n mod len + a)"
    using wrap64_id [OF bound [of "n mod len"]] assms(2) by simp
  then show ?thesis
    using assms(2) unfolding start by (simp add: zmod_int mod_add_left_eq)
qed

lemma stripe_order:
  assumes "unat (nextPath b) < 2 ^ 63" "length (paths b) < 2 ^ 62"
  shows "map (\<lambda>a. paths b ! nat (go_mod (wrap64 (go_mod (int (unat (nextPath b))) (int (length (paths b))) + int a))
      (int (length (paths b))))) [0..<length (paths b)] = stripe b"
proof (rule nth_equalityI)
  fix i assume "i < length (map (\<lambda>a. paths b ! nat (go_mod (wrap64 (go_mod (int (unat (nextPath b)))
      (int (length (paths b))) + int a)) (int (length (paths b))))) [0..<length (paths b)])"
  then have "i < length (paths b)" by simp
  with stripe_index [OF assms(1) this assms(2)]
  show "map (\<lambda>a. paths b ! nat (go_mod (wrap64 (go_mod (int (unat (nextPath b))) (int (length (paths b))) + int a))
      (int (length (paths b))))) [0..<length (paths b)] ! i = stripe b ! i"
    by (simp add: stripe_def nth_rotate)
qed (simp add: stripe_def)

lemma WriteTo_stripe:
  assumes "pkt \<noteq> []" "\<not> closed b" "paths b \<noteq> []"
    and "unat (nextPath b) < 2 ^ 63" "length (paths b) < 2 ^ 62"
  shows "WriteTo pkt io b = write_list pkt io (stripe b) (b\<lparr>nextPath := nextPath b + 1\<rparr>)"
proof -
  let ?n = "unat (nextPath b)" and ?len = "length (paths b)"
  have "list_all (\<lambda>a. 0 \<le> go_mod (wrap64 (go_mod (int ?n) (int ?len) + int a)) (int ?len)) [0..<?len]"
    unfolding list_all_iff using stripe_index [OF assms(4) _ assms(5)] by simp
  from write_attempts_list [OF this] show ?thesis
    using assms(1-3) sint_small [OF assms(4)] stripe_order [OF assms(4,5)]
    by (simp add: WriteTo_def snapshotPaths_def Let_def)
qed

lemma AddConn_open:
  assumes "\<not> closed b" "\<not> emptyExpired b"
  shows "fst (AddConn (Some c) b) = Some (length (objs b))"
    and "paths (snd (AddConn (Some c) b)) = paths b @ [length (objs b)]"
    and "length (objs (snd (AddConn (Some c) b))) = Suc (length (objs b))"
    and "closed (snd (AddConn (Some c) b)) = closed b"
    and "emptyExpired (snd (AddConn (Some c) b)) = emptyExpired b"
    and "nextPath (snd (AddConn (Some c) b)) = nextPath b"
    and "calls (snd (AddConn (Some c) b)) = calls b"
    and "readCh (snd (AddConn (Some c) b)) = readCh b"
  using assms
  by (simp_all add: AddConn_def alloc_path_def register_path_def stop_timer_def notifyStateChanged_def
      Let_def split: prod.splits option.splits)

text \<open>
  C14. Writing on an open bond. \<open>WriteTo\<close> never reports an error that would kill the KCP
  session: it reports the whole packet as written. The paths are tried in round-robin order
  from the write counter, up to and including the first one whose connection takes the whole
  packet; every path tried before it failed. Exactly the paths that failed with a permanent
  error are removed from the bond; a path with a transient error stays. The write counter
  advances by one.
\<close>

theorem WriteTo_spec:
  assumes "pkt \<noteq> []" "\<not> closed b" "paths b \<noteq> []" "distinct (paths b)"
    and "unat (nextPath b) < 2 ^ 63" "length (paths b) < 2 ^ 62"
    and "WriteTo pkt io b = (r, b')"
  shows "r = Wrote (length pkt) \<and> \<not> closed b' \<and> nextPath b' = nextPath b + 1 \<and>
    writes_of (calls b') = writes_of (calls b) @ map (\<lambda>q. (q, pkt)) (tried pkt io (stripe b)) \<and>
    paths b' = filter (\<lambda>q. \<not> (q \<in> set (takeWhile (write_fails pkt io) (stripe b)) \<and> write_breaks pkt io q)) (paths b)"
  using write_list_spec [of "b\<lparr>nextPath := nextPath b + 1\<rparr>" pkt io "stripe b"] assms
  by (simp add: WriteTo_stripe)

lemma example_bond_state:
  "\<not> closed example_bond" "paths example_bond = [0, 1, 2]" "nextPath example_bond = 0"
  "calls example_bond = []" "readCh example_bond = []"
  by (simp_all add: example_bond_def AddConn_open newBondedPacketConn_def)

lemma example_io_errors:
  "write_fails ''hi'' example_io = (\<lambda>p. p = 0 \<or> p = 1)"
  "write_breaks ''hi'' example_io 0" "\<not> write_breaks ''hi'' example_io (Suc 0)"
proof -
  show "write_fails ''hi'' example_io = (\<lambda>p. p = 0 \<or> p = 1)"
    by (rule ext) (simp add: write_fails_def path_write_error_def example_io_def)
  show "write_breaks ''hi'' example_io 0" by code_simp
  show "\<not> write_breaks ''hi'' example_io (Suc 0)" by code_simp
qed

theorem WriteTo_spec_witness:
  "fst (WriteTo ''hi'' example_io example_bond) = Wrote 2 \<and>
   writes_of (calls (snd (WriteTo ''hi'' example_io example_bond))) = [(0, ''hi''), (1, ''hi''), (2, ''hi'')] \<and>
   paths (snd (WriteTo ''hi'' example_io example_bond)) = [1, 2]"
proof -
  have "''hi'' \<noteq> []" "\<not> closed example_bond" "paths example_bond \<noteq> []" "distinct (paths example_bond)"
    "unat (nextPath example_bond) < 2 ^ 63" "length (paths example_bond) < 2 ^ 62"
    "WriteTo ''hi'' example_io example_bond =
       (fst (WriteTo ''hi'' example_io example_bond), snd (WriteTo ''hi'' example_io example_bond))"
    by (simp_all add: example_bond_state)
  from WriteTo_spec [OF this] show ?thesis
    by (simp add: example_bond_state stripe_def tried_def example_io_errors)
qed

section \<open>Reading\<close>

lemma readLoop_step_continues:
  assumes "readLoop_step kcpMtu pick p d None b = (LoopContinues, b')"
  shows "readCh b' = readCh b @ filter (fits kcpMtu) [d] \<and> paths b' = paths b"
  using assms by (auto simp: readLoop_step_def Let_def fits_def split: if_splits)

lemma read_trace_queue:
  assumes "read_trace kcpMtu buflen b0 arrived taken b"
    and "kcpMtu + 128 \<le> int buflen" "list_all (fits kcpMtu) (readCh b0)"
  shows "readCh b0 @ filter (fits kcpMtu) arrived = taken @ readCh b \<and> list_all (fits kcpMtu) (readCh b)"
  using assms
proof (induction rule: read_trace.induct)
  case (trace_arrive arrived taken b pick p d b')
  then show ?case using readLoop_step_continues by fastforce
next
  case (trace_take arrived taken b pick d b')
  then show ?case by (auto simp: ReadFrom_def fits_def split: list.splits if_splits)
qed simp



section \<open>The write counter\<close>


end
