(* ===== verification/Bond_Interleaving.thy ===== *)
theory Bond_Interleaving
  imports Bonded_Conn
begin

text \<open>
  The concurrent \<open>BondedPacketConn\<close> of \<open>src/tcputil/bonded_packet_conn.go\<close>. Writers, one
  \<open>readLoop\<close> per path, \<open>AddConn\<close> callers, timer callbacks and \<open>Close\<close> run in goroutines of
  their own; each rule of \<open>bond_step\<close> is one atomic region of one of them. \<open>mu\<close> is the mutex:
  \<open>AddConn\<close> and \<open>startEmptyGrace\<close> hold it while they look at the \<open>closed\<close> channel and then act,
  and \<open>close(b.closed)\<close>, which does not take it, may happen in between. \<open>fresh\<close> are the paths
  allocated by \<open>AddConn\<close> callers that do not hold the mutex yet, \<open>removing\<close> those a \<open>removePath\<close>
  has detached but not finished, \<open>fired\<close> the timers whose callback waits for the mutex, and
  \<open>closer\<close> the progress of the one \<open>Close\<close> that \<open>closeOnce\<close> lets through.
\<close>

datatype mu_holder = MuFree | MuAdding nat | MuArming

datatype close_phase = NotClosed | Signalled | TimerStopped | Draining "nat list" | CloseReturned

record cbond =
  bnd :: bond
  mu :: mu_holder
  closer :: close_phase
  fresh :: "nat list"
  removing :: "nat list"
  fired :: "nat list"

definition bond_init :: "cbond \<Rightarrow> bool" where
  "bond_init c \<longleftrightarrow>
     (\<exists>lbl grace reg. c = \<lparr>bnd = newBondedPacketConn lbl grace reg, mu = MuFree, closer = NotClosed,
        fresh = [], removing = [], fired = []\<rparr>)"

text \<open>
  In order: \<open>AddConn\<close> (allocate; take the mutex; refuse on a closed or expired bond; register),
  \<open>removePath\<close> (detach under the mutex; close, clean up and signal), \<open>startEmptyGrace\<close> (check
  under the mutex; arm), a timer firing and its callback, \<open>Close\<close> (signal; stop the timer;
  snapshot; remove each path of the snapshot; return), packet traffic (which changes the write
  counter, the read channel, the write deadline and the metrics), and a consumer of
  \<open>StateChanged\<close>.
\<close>

inductive bond_step :: "cbond \<Rightarrow> cbond \<Rightarrow> bool" where
  add_alloc: "alloc_path has_cleanup (bnd c) = (p, b) \<Longrightarrow>
    bond_step c (c\<lparr>bnd := b, fresh := p # fresh c\<rparr>)"
| add_check: "mu c = MuFree \<Longrightarrow> p \<in> set (fresh c) \<Longrightarrow> \<not> closed (bnd c) \<Longrightarrow> \<not> emptyExpired (bnd c) \<Longrightarrow>
    bond_step c (c\<lparr>mu := MuAdding p, fresh := removeAll p (fresh c)\<rparr>)"
| add_refuse: "mu c = MuFree \<Longrightarrow> p \<in> set (fresh c) \<Longrightarrow> closed (bnd c) \<or> emptyExpired (bnd c) \<Longrightarrow>
    bond_step c (c\<lparr>bnd := closePath p (bnd c), fresh := removeAll p (fresh c)\<rparr>)"
| add_commit: "mu c = MuAdding p \<Longrightarrow>
    bond_step c (c\<lparr>bnd := register_path p (bnd c), mu := MuFree\<rparr>)"
| remove_detach: "mu c = MuFree \<Longrightarrow> p \<in> set (paths (bnd c)) \<Longrightarrow>
    bond_step c (c\<lparr>bnd := detach_path p (bnd c), removing := p # removing c\<rparr>)"
| remove_finish: "p \<in> set (removing c) \<Longrightarrow>
    bond_step c (c\<lparr>bnd := finish_remove p True (bnd c), removing := removeAll p (removing c)\<rparr>)"
| grace_check: "mu c = MuFree \<Longrightarrow> may_arm (bnd c) \<Longrightarrow> bond_step c (c\<lparr>mu := MuArming\<rparr>)"
| grace_arm: "mu c = MuArming \<Longrightarrow> bond_step c (c\<lparr>bnd := arm_timer (bnd c), mu := MuFree\<rparr>)"
| timer_fire: "t \<in> set (armed (bnd c)) \<Longrightarrow>
    bond_step c (c\<lparr>bnd := (bnd c)\<lparr>armed := removeAll t (armed (bnd c))\<rparr>, fired := t # fired c\<rparr>)"
| timer_callback: "mu c = MuFree \<Longrightarrow> t \<in> set (fired c) \<Longrightarrow>
    bond_step c (c\<lparr>bnd := fst (grace_callback (bnd c)), fired := removeAll t (fired c)\<rparr>)"
| close_signal: "closer c = NotClosed \<Longrightarrow>
    bond_step c (c\<lparr>bnd := (bnd c)\<lparr>closed := True\<rparr>, closer := Signalled\<rparr>)"
| close_stop: "closer c = Signalled \<Longrightarrow> mu c = MuFree \<Longrightarrow>
    bond_step c (c\<lparr>bnd := stop_timer (bnd c), closer := TimerStopped\<rparr>)"
| close_snapshot: "closer c = TimerStopped \<Longrightarrow> mu c = MuFree \<Longrightarrow>
    bond_step c (c\<lparr>bnd := notifyStateChanged (bnd c), closer := Draining (snapshotPaths (bnd c))\<rparr>)"
| close_next: "closer c = Draining (p # ps) \<Longrightarrow> mu c = MuFree \<Longrightarrow> p \<notin> set (paths (bnd c)) \<Longrightarrow>
    bond_step c (c\<lparr>closer := Draining ps\<rparr>)"
| close_return: "closer c = Draining [] \<Longrightarrow> bond_step c (c\<lparr>closer := CloseReturned\<rparr>)"
| traffic_step: "list_all (\<lambda>k. case k of ConnWrite _ _ \<Rightarrow> True | ConnSetWriteDeadline _ _ \<Rightarrow> True | _ \<Rightarrow> False) cs \<Longrightarrow>
    bond_step c (c\<lparr>bnd := log_calls cs ((bnd c)\<lparr>nextPath := n, readCh := q, writeDeadline := w,
      metricRegistry := m\<rparr>)\<rparr>)"
| notify: "bond_step c (c\<lparr>bnd := notifyStateChanged (bnd c)\<rparr>)"
| consume: "stateCh (bnd c) \<Longrightarrow> bond_step c (c\<lparr>bnd := (bnd c)\<lparr>stateCh := False\<rparr>\<rparr>)"

text \<open>How often a path's connection was closed, its owner cleaned up and its \<open>done\<close> channel closed.\<close>

definition teardown :: "bond \<Rightarrow> nat \<Rightarrow> nat \<times> nat \<times> nat" where
  "teardown b p = (count_list (calls b) (ConnClose p), count_list (calls b) (PathCleanup p),
     count_list (calls b) (PathDone p))"

definition torn_down :: "bond \<Rightarrow> nat \<Rightarrow> bool" where
  "torn_down b p \<longleftrightarrow> teardown b p = (1, if bp_has_cleanup (objs b ! p) then 1 else 0, 1)"

definition adding :: "cbond \<Rightarrow> nat list" where
  "adding c = (case mu c of MuAdding p \<Rightarrow> [p] | _ \<Rightarrow> [])"

definition live :: "cbond \<Rightarrow> nat list" where
  "live c = fresh c @ adding c @ paths (bnd c) @ removing c"

definition own_inv :: "cbond \<Rightarrow> bool" where
  "own_inv c \<longleftrightarrow> distinct (live c) \<and> set (live c) \<subseteq> {..<length (objs (bnd c))} \<and>
     (\<forall>p. p \<in> set (live c) \<or> length (objs (bnd c)) \<le> p \<longrightarrow> teardown (bnd c) p = (0, 0, 0)) \<and>
     (\<forall>p < length (objs (bnd c)). p \<notin> set (live c) \<longrightarrow> torn_down (bnd c) p)"

definition close_inv :: "cbond \<Rightarrow> bool" where
  "close_inv c \<longleftrightarrow>
     (closed (bnd c) \<longleftrightarrow> closer c \<noteq> NotClosed) \<and>
     (closer c \<in> {TimerStopped, CloseReturned} \<union> range Draining \<longrightarrow> mu c = MuFree) \<and>
     (case closer c of
        Draining todo \<Rightarrow> set (paths (bnd c)) \<subseteq> set todo
      | CloseReturned \<Rightarrow> paths (bnd c) = []
      | _ \<Rightarrow> True) \<and>
     (emptyExpired (bnd c) \<longrightarrow> paths (bnd c) = [] \<and> adding c = [])"

definition timer_inv :: "cbond \<Rightarrow> bool" where
  "timer_inv c \<longleftrightarrow>
     (mu c = MuArming \<longrightarrow> paths (bnd c) = [] \<and> emptyTimer (bnd c) = None) \<and>
     (paths (bnd c) \<noteq> [] \<longrightarrow> emptyTimer (bnd c) = None \<and> armed (bnd c) = []) \<and>
     (\<not> emptyExpired (bnd c) \<longrightarrow> set (armed (bnd c)) \<subseteq> set_option (emptyTimer (bnd c))) \<and>
     (closer c \<in> {TimerStopped, CloseReturned} \<union> range Draining \<longrightarrow> emptyTimer (bnd c) = None)"

definition bond_inv :: "cbond \<Rightarrow> bool" where
  "bond_inv c \<longleftrightarrow> own_inv c \<and> close_inv c \<and> timer_inv c"

text \<open>A bond nobody uses yet.\<close>

definition idle_bond :: "bond \<Rightarrow> cbond" where
  "idle_bond b = \<lparr>bnd = b, mu = MuFree, closer = NotClosed, fresh = [], removing = [], fired = []\<rparr>"

definition one_path_bond :: bond where
  "one_path_bond = snd (AddConn (Some True) (newBondedPacketConn ''b'' 0 (empty_registry None)))"

lemma own_inv_init: "bond_init c \<Longrightarrow> bond_inv c"
  by (auto simp: bond_init_def bond_inv_def own_inv_def close_inv_def timer_inv_def live_def adding_def
      newBondedPacketConn_def teardown_def)

lemma close_inv_step: "bond_step c d \<Longrightarrow> close_inv c \<Longrightarrow> close_inv d"
  by (induction rule: bond_step.induct)
    (auto simp: close_inv_def adding_def alloc_path_def closePath_def log_calls_def register_path_def
      stop_timer_def detach_path_def finish_remove_def notifyStateChanged_def arm_timer_def may_arm_def
      grace_callback_def snapshotPaths_def Let_def notin_set_remove1
      split: mu_holder.splits close_phase.splits option.splits prod.splits if_splits
      dest: set_mp [OF set_remove1_subset])

lemma removeAll_Nil_iff [simp]: "removeAll x xs = [] \<longleftrightarrow> set xs \<subseteq> {x}"
  by (induction xs) auto

lemma timer_inv_step: "bond_step c d \<Longrightarrow> close_inv c \<Longrightarrow> timer_inv c \<Longrightarrow> timer_inv d"
  by (induction rule: bond_step.induct)
    (auto simp: timer_inv_def close_inv_def adding_def alloc_path_def closePath_def log_calls_def
      register_path_def stop_timer_def detach_path_def finish_remove_def notifyStateChanged_def
      arm_timer_def may_arm_def grace_callback_def snapshotPaths_def Let_def
      split: mu_holder.splits close_phase.splits option.splits prod.splits if_splits)

text \<open>Each region either leaves the tear-down calls alone or performs them for one path.\<close>

lemma teardown_frame [simp]:
  "teardown (stop_timer b) q = teardown b q" "teardown (arm_timer b) q = teardown b q"
  "teardown (notifyStateChanged b) q = teardown b q" "teardown (detach_path p b) q = teardown b q"
  "teardown (register_path p b) q = teardown b q" "teardown (fst (grace_callback b)) q = teardown b q"
  by (simp_all add: teardown_def stop_timer_def arm_timer_def notifyStateChanged_def detach_path_def
      register_path_def grace_callback_def Let_def split: option.splits prod.splits)

lemma teardown_updates [simp]:
  "teardown (b\<lparr>armed := x1\<rparr>) q = teardown b q" "teardown (b\<lparr>closed := x2\<rparr>) q = teardown b q"
  "teardown (b\<lparr>stateCh := x3\<rparr>) q = teardown b q" "teardown (b\<lparr>nextPath := x4\<rparr>) q = teardown b q"
  "teardown (b\<lparr>readCh := x5\<rparr>) q = teardown b q" "teardown (b\<lparr>writeDeadline := x6\<rparr>) q = teardown b q"
  "teardown (b\<lparr>metricRegistry := x7\<rparr>) q = teardown b q"
  by (simp_all add: teardown_def)

lemma owner_frame [simp]:
  "map bp_has_cleanup (objs (stop_timer b)) = map bp_has_cleanup (objs b)"
  "objs (arm_timer b) = objs b" "objs (notifyStateChanged b) = objs b" "objs (log_calls cs b) = objs b"
  "objs (fst (grace_callback b)) = objs b" "objs (closePath p b) = objs b" "objs (finish_remove p k b) = objs b"
  by (simp_all add: stop_timer_def arm_timer_def notifyStateChanged_def log_calls_def closePath_def
      finish_remove_def grace_callback_def split: option.splits)

lemma teardown_closePath:
  "teardown (closePath p b) q =
     (if q = p then case teardown b p of (x, y, z) \<Rightarrow> (Suc x, y + (if bp_has_cleanup (objs b ! p) then 1 else 0), Suc z)
      else teardown b q)"
  by (simp add: teardown_def closePath_def log_calls_def cleanup_calls_def)

lemma teardown_finish_remove:
  "teardown (finish_remove p True b) q =
     (if q = p then case teardown b p of (x, y, z) \<Rightarrow> (Suc x, y + (if bp_has_cleanup (objs b ! p) then 1 else 0), Suc z)
      else teardown b q)"
  by (simp add: teardown_def finish_remove_def notifyStateChanged_def log_calls_def cleanup_calls_def)

lemma teardown_traffic:
  "list_all (\<lambda>k. case k of ConnWrite _ _ \<Rightarrow> True | ConnSetWriteDeadline _ _ \<Rightarrow> True | _ \<Rightarrow> False) cs \<Longrightarrow>
   teardown (log_calls cs b) q = teardown b q"
  by (induction cs arbitrary: b)
    (auto simp: teardown_def log_calls_def split: conn_call.splits)

text \<open>
  Ownership changes hands in two ways: a region keeps the set of live paths, or it tears one
  down.
\<close>

lemma own_inv_keep:
  assumes inv: "own_inv c"
    and "distinct (live d)" "set (live d) = set (live c)"
      "length (objs (bnd d)) = length (objs (bnd c))"
      "\<And>p. p < length (objs (bnd c)) \<Longrightarrow> bp_has_cleanup (objs (bnd d) ! p) = bp_has_cleanup (objs (bnd c) ! p)"
      "\<And>p. teardown (bnd d) p = teardown (bnd c) p"
  shows "own_inv d"
  using assms by (auto simp: own_inv_def torn_down_def)

lemma own_inv_tear:
  assumes inv: "own_inv c" and p: "p \<in> set (live c)"
    and "distinct (live d)" "set (live d) = set (live c) - {p}" "objs (bnd d) = objs (bnd c)"
      "\<And>q. teardown (bnd d) q = (if q = p then case teardown (bnd c) p of (x, y, z) \<Rightarrow>
         (Suc x, y + (if bp_has_cleanup (objs (bnd c) ! p) then 1 else 0), Suc z) else teardown (bnd c) q)"
  shows "own_inv d"
  using assms by (auto simp: own_inv_def torn_down_def split: if_splits)

lemma paths_frame [simp]:
  "paths (stop_timer b) = paths b" "paths (arm_timer b) = paths b" "paths (notifyStateChanged b) = paths b"
  "paths (log_calls cs b) = paths b" "paths (closePath p b) = paths b" "paths (finish_remove p k b) = paths b"
  "paths (fst (grace_callback b)) = paths b" "paths (detach_path p b) = remove1 p (paths b)"
  "paths (register_path p b) = paths b @ [p]"
  by (simp_all add: stop_timer_def arm_timer_def notifyStateChanged_def log_calls_def closePath_def
      finish_remove_def grace_callback_def detach_path_def register_path_def Let_def
      split: option.splits prod.splits)

lemma field_list_update: "f y = f (xs ! p) \<Longrightarrow> f (xs[p := y] ! q) = f (xs ! q)"
  by (cases "p = q"; cases "p < length xs") (simp_all add: list_update_beyond)

lemma objs_frame [simp]:
  "objs (stop_timer b) = objs b" "length (objs (detach_path p b)) = length (objs b)"
  "length (objs (register_path p b)) = length (objs b)"
  "q < length (objs b) \<Longrightarrow> bp_has_cleanup (objs (detach_path p b) ! q) = bp_has_cleanup (objs b ! q)"
  "q < length (objs b) \<Longrightarrow> bp_has_cleanup (objs (register_path p b) ! q) = bp_has_cleanup (objs b ! q)"
  by (simp_all add: stop_timer_def detach_path_def register_path_def field_list_update Let_def
      split: option.splits prod.splits)

lemma own_inv_alloc:
  assumes inv: "own_inv c" and al: "alloc_path k (bnd c) = (p, b)"
  shows "own_inv (c\<lparr>bnd := b, fresh := p # fresh c\<rparr>)"
proof -
  have b: "objs b = objs (bnd c) @ [\<lparr>bp_id = nextID (bnd c) + 1, bp_has_cleanup = k, bp_closing = False, bp_stats = None\<rparr>]"
    "p = length (objs (bnd c))" "paths b = paths (bnd c)" "teardown b q = teardown (bnd c) q" for q
    using al by (auto simp: alloc_path_def teardown_def)
  have live: "live (c\<lparr>bnd := b, fresh := p # fresh c\<rparr>) = p # live c"
    by (simp add: live_def adding_def b(3))
  have nth: "objs b ! q = objs (bnd c) ! q" if "q < length (objs (bnd c))" for q
    using that by (simp add: b(1) nth_append)
  show ?thesis
    using inv nth unfolding own_inv_def live torn_down_def by (auto simp: b less_Suc_eq nth_append)
qed

lemma own_inv_step: "bond_step c d \<Longrightarrow> own_inv c \<Longrightarrow> own_inv d"
proof (induction rule: bond_step.induct)
  case (add_alloc k c p b)
  then show ?case by (intro own_inv_alloc)
next
  case (add_check c p)
  then show ?case
    by (intro own_inv_keep [OF add_check.prems]) (auto simp: live_def adding_def own_inv_def distinct_removeAll)
next
  case (add_refuse c p)
  then show ?case
    by (intro own_inv_tear [OF add_refuse.prems, of p])
      (auto simp: live_def adding_def own_inv_def distinct_removeAll teardown_closePath)
next
  case (add_commit c p)
  then show ?case
    by (intro own_inv_keep [OF add_commit.prems]) (auto simp: live_def adding_def own_inv_def)
next
  case (remove_detach c p)
  then show ?case
    by (intro own_inv_keep [OF remove_detach.prems]) (auto simp: live_def adding_def own_inv_def)
next
  case (remove_finish p c)
  then show ?case
    by (intro own_inv_tear [OF remove_finish.prems, of p])
      (auto simp: live_def adding_def own_inv_def distinct_removeAll teardown_finish_remove split: mu_holder.splits)
next
  case (traffic_step cs c n q w m)
  then show ?case
    by (intro own_inv_keep [OF traffic_step.prems])
      (simp_all add: live_def adding_def own_inv_def teardown_traffic)
qed (simp_all add: own_inv_def live_def adding_def torn_down_def)

section \<open>Every reachable state\<close>

interpretation bond_system: invariant_system bond_init bond_step bond_inv
proof
  show "bond_init c \<Longrightarrow> bond_inv c" for c by (rule own_inv_init)
  show "bond_inv c \<Longrightarrow> bond_step c d \<Longrightarrow> bond_inv d" for c d
    unfolding bond_inv_def using own_inv_step close_inv_step timer_inv_step by blast
qed

lemma teardown_bound:
  assumes "bond_inv c"
  shows "teardown (bnd c) p \<in> {(0, 0, 0), (1, if bp_has_cleanup (objs (bnd c) ! p) then 1 else 0, 1)}"
  using assms unfolding bond_inv_def own_inv_def torn_down_def
  by (cases "p \<in> set (live c) \<or> length (objs (bnd c)) \<le> p") (auto simp: not_le)

text \<open>
  C13. However writers, readers, timers, \<open>AddConn\<close> and \<open>Close\<close> interleave: the connection of a
  path is closed, its owner's cleanup run and its \<open>done\<close> channel closed at most once each
  (closing \<open>done\<close> twice would panic); a registered path has had none of this done to it; and a
  path that is in nobody's hands any more has had all of it done exactly once, the cleanup if
  it has one.
\<close>

theorem path_teardown_exactly_once:
  assumes "reachable bond_init bond_step c" and "p < length (objs (bnd c))"
  shows "(p \<in> set (paths (bnd c)) \<longrightarrow> teardown (bnd c) p = (0, 0, 0)) \<and>
    (p \<notin> set (live c) \<longrightarrow> teardown (bnd c) p = (1, if bp_has_cleanup (objs (bnd c) ! p) then 1 else 0, 1)) \<and>
    fst (teardown (bnd c) p) \<le> 1 \<and> fst (snd (teardown (bnd c) p)) \<le> 1 \<and> snd (snd (teardown (bnd c) p)) \<le> 1"
proof -
  have inv: "bond_inv c" by (rule bond_system.inv_reachable [OF assms(1)])
  then have "p \<in> set (paths (bnd c)) \<Longrightarrow> teardown (bnd c) p = (0, 0, 0)"
    "p \<notin> set (live c) \<Longrightarrow> torn_down (bnd c) p"
    using assms(2) by (auto simp: bond_inv_def own_inv_def live_def)
  with teardown_bound [OF inv, of p] show ?thesis by (auto simp: torn_down_def split: if_splits)
qed

text \<open>
  C15. Once \<open>Close\<close> has returned, or once the grace period of an empty bond has expired, the bond
  has no path and never gets one again, whatever any goroutine does afterwards: a connection
  offered later is closed at once instead of leaking.
\<close>

theorem dead_bond_stays_empty:
  assumes "reachable bond_init bond_step c"
    and "closer c = CloseReturned \<or> emptyExpired (bnd c)"
    and "bond_step\<^sup>*\<^sup>* c d"
  shows "paths (bnd d) = [] \<and> adding d = []"
proof -
  have step: "closer t = CloseReturned \<or> emptyExpired (bnd t)"
    if "closer s = CloseReturned \<or> emptyExpired (bnd s)" "bond_step s t" for s t
    using that(2,1)
    by (induction rule: bond_step.induct)
      (auto simp: alloc_path_def closePath_def log_calls_def register_path_def stop_timer_def detach_path_def
        finish_remove_def notifyStateChanged_def arm_timer_def grace_callback_def Let_def
        split: option.splits prod.splits)
  have "closer d = CloseReturned \<or> emptyExpired (bnd d)"
    using bond_system.stable_steps [where P = "\<lambda>c. closer c = CloseReturned \<or> emptyExpired (bnd c)"] step assms
    by blast
  moreover have "bond_inv d"
    by (rule bond_system.inv_reachable [OF reachable_steps [OF assms(1,3)]])
  ultimately show ?thesis by (auto simp: bond_inv_def close_inv_def adding_def)
qed

section \<open>The methods are executions of the interleaved system\<close>

lemma steps_trans [trans]: "bond_step\<^sup>*\<^sup>* a b \<Longrightarrow> bond_step\<^sup>*\<^sup>* b c \<Longrightarrow> bond_step\<^sup>*\<^sup>* a c"
  by (rule rtranclp_trans)

lemma step_into: "bond_step a b \<Longrightarrow> b = c \<Longrightarrow> bond_step\<^sup>*\<^sup>* a c"
  by auto

lemma traffic_into:
  assumes "list_all (\<lambda>k. case k of ConnWrite _ _ \<Rightarrow> True | ConnSetWriteDeadline _ _ \<Rightarrow> True | _ \<Rightarrow> False) cs"
    and "b = log_calls cs ((bnd c)\<lparr>nextPath := n, readCh := q, writeDeadline := w, metricRegistry := m\<rparr>)"
  shows "bond_step\<^sup>*\<^sup>* c (c\<lparr>bnd := b\<rparr>)"
  using traffic_step [OF assms(1)] unfolding assms(2) by (rule r_into_rtranclp)

lemma grace_steps:
  assumes "mu c = MuFree"
  shows "bond_step\<^sup>*\<^sup>* c (c\<lparr>bnd := startEmptyGrace (bnd c)\<rparr>)"
proof (cases "may_arm (bnd c)")
  case True
  have "bond_step\<^sup>*\<^sup>* c (c\<lparr>mu := MuArming\<rparr>)" using grace_check [OF assms True] by blast
  also have "bond_step\<^sup>*\<^sup>* (c\<lparr>mu := MuArming\<rparr>) (c\<lparr>bnd := startEmptyGrace (bnd c)\<rparr>)"
    by (rule step_into [OF grace_arm]) (use assms True in \<open>simp_all add: startEmptyGrace_def\<close>)
  finally show ?thesis .
qed (simp add: startEmptyGrace_def)

lemma removing_not_path:
  assumes "bond_inv c" "p \<in> set (paths (bnd c))"
  shows "p \<notin> set (removing c)" "p \<notin> set (paths (detach_path p (bnd c)))"
  using assms by (auto simp: bond_inv_def own_inv_def live_def)

lemma removePath_steps:
  assumes inv: "bond_inv c" and free: "mu c = MuFree"
  shows "bond_step\<^sup>*\<^sup>* c (c\<lparr>bnd := removePath p True (bnd c)\<rparr>)"
proof (cases "p \<in> set (paths (bnd c))")
  case True
  let ?d = "detach_path p (bnd c)"
  let ?c1 = "c\<lparr>bnd := ?d, removing := p # removing c\<rparr>"
  let ?g = "if Count ?d = 0 then startEmptyGrace ?d else ?d"
  have "bond_step\<^sup>*\<^sup>* c ?c1" using remove_detach [OF free True] by blast
  also have "bond_step\<^sup>*\<^sup>* ?c1 (?c1\<lparr>bnd := ?g\<rparr>)"
  proof (cases "Count ?d = 0")
    case True
    then show ?thesis using grace_steps [of ?c1] free by simp
  next
    case False
    then have "?c1\<lparr>bnd := ?g\<rparr> = ?c1" by (cases c) simp
    then show ?thesis by simp
  qed
  also have "bond_step\<^sup>*\<^sup>* (?c1\<lparr>bnd := ?g\<rparr>) (c\<lparr>bnd := removePath p True (bnd c)\<rparr>)"
    by (rule step_into [OF remove_finish [of p]])
      (use True removing_not_path [OF inv True] in \<open>simp_all add: removePath_def Let_def\<close>)
  finally show ?thesis .
qed (simp add: removePath_def)

lemma fresh_alloc:
  assumes "bond_inv c"
  shows "length (objs (bnd c)) \<notin> set (fresh c)"
  using assms by (auto simp: bond_inv_def own_inv_def live_def)

lemma AddConn_steps:
  assumes inv: "bond_inv c" and free: "mu c = MuFree"
  shows "bond_step\<^sup>*\<^sup>* c (c\<lparr>bnd := snd (AddConn conn (bnd c))\<rparr>)"
proof (cases conn)
  case (Some k)
  obtain p b where al: "alloc_path k (bnd c) = (p, b)" by fastforce
  have p: "p \<notin> set (fresh c)" and cl: "closed b = closed (bnd c)" "emptyExpired b = emptyExpired (bnd c)"
    using al fresh_alloc [OF inv] by (auto simp: alloc_path_def)
  let ?c1 = "c\<lparr>bnd := b, fresh := p # fresh c\<rparr>"
  have s1: "bond_step\<^sup>*\<^sup>* c ?c1" using add_alloc [OF al] by blast
  show ?thesis
  proof (cases "closed b \<or> emptyExpired b")
    case True
    have "bond_step\<^sup>*\<^sup>* ?c1 (c\<lparr>bnd := snd (AddConn conn (bnd c))\<rparr>)"
      by (rule step_into [OF add_refuse [of _ p]])
        (use True p free in \<open>auto simp: AddConn_def Some al Let_def\<close>)
    with s1 show ?thesis by (rule steps_trans)
  next
    case False
    let ?c2 = "c\<lparr>bnd := b, mu := MuAdding p\<rparr>" and ?c3 = "c\<lparr>bnd := register_path p b\<rparr>"
    note s1
    also have "bond_step\<^sup>*\<^sup>* ?c1 ?c2"
      by (rule step_into [OF add_check [of _ p]]) (use False p free in \<open>simp_all\<close>)
    also have "bond_step\<^sup>*\<^sup>* ?c2 ?c3"
      by (rule step_into [OF add_commit [of _ p]]) (use free in simp_all)
    also have "bond_step\<^sup>*\<^sup>* ?c3 (c\<lparr>bnd := snd (AddConn conn (bnd c))\<rparr>)"
      by (rule step_into [OF notify]) (use False in \<open>simp add: AddConn_def Some al Let_def\<close>)
    finally show ?thesis .
  qed
qed (simp add: AddConn_def)

lemma drain_steps:
  assumes "bond_inv c" "mu c = MuFree" "closer c = Draining ps"
  shows "bond_step\<^sup>*\<^sup>* c (c\<lparr>bnd := fold (\<lambda>p. removePath p True) ps (bnd c), closer := CloseReturned\<rparr>)"
  using assms
proof (induction ps arbitrary: c)
  case Nil
  show ?case by (rule step_into [OF close_return]) (use Nil in simp_all)
next
  case (Cons p ps)
  let ?c1 = "c\<lparr>bnd := removePath p True (bnd c)\<rparr>" and ?c2 = "c\<lparr>bnd := removePath p True (bnd c), closer := Draining ps\<rparr>"
  have s1: "bond_step\<^sup>*\<^sup>* c ?c1" by (rule removePath_steps [OF Cons.prems(1,2)])
  have "distinct (paths (bnd c))" using Cons.prems(1) by (simp add: bond_inv_def own_inv_def live_def)
  then have "bond_step\<^sup>*\<^sup>* ?c1 ?c2"
    by (intro step_into [OF close_next [of _ p ps]]) (use Cons.prems in simp_all)
  with s1 have s2: "bond_step\<^sup>*\<^sup>* c ?c2" by (rule steps_trans)
  moreover have "bond_inv ?c2" by (rule bond_system.inv_steps [OF s2 Cons.prems(1)])
  from Cons.IH [OF this] have
    "bond_step\<^sup>*\<^sup>* ?c2 (c\<lparr>bnd := fold (\<lambda>p. removePath p True) (p # ps) (bnd c), closer := CloseReturned\<rparr>)"
    using Cons.prems(2) by simp
  ultimately show ?case by (rule steps_trans)
qed

lemma Close_steps:
  assumes inv: "bond_inv c" and free: "mu c = MuFree" and phase: "closer c \<in> {NotClosed, CloseReturned}"
  shows "bond_step\<^sup>*\<^sup>* c (c\<lparr>bnd := Close (bnd c), closer := CloseReturned\<rparr>)"
proof (cases "closed (bnd c)")
  case True
  then have "closer c = CloseReturned" using inv phase by (auto simp: bond_inv_def close_inv_def)
  then have "c\<lparr>bnd := Close (bnd c), closer := CloseReturned\<rparr> = c"
    using True by (cases c) (simp add: Close_def)
  then show ?thesis by simp
next
  case False
  then have nc: "closer c = NotClosed" using inv by (auto simp: bond_inv_def close_inv_def)
  let ?b1 = "(bnd c)\<lparr>closed := True\<rparr>"
  let ?c1 = "c\<lparr>bnd := ?b1, closer := Signalled\<rparr>" and ?c2 = "c\<lparr>bnd := stop_timer ?b1, closer := TimerStopped\<rparr>"
  let ?c3 = "c\<lparr>bnd := notifyStateChanged (stop_timer ?b1), closer := Draining (paths (stop_timer ?b1))\<rparr>"
  have "bond_step\<^sup>*\<^sup>* c ?c1" by (rule step_into [OF close_signal]) (use nc in simp_all)
  also have "bond_step\<^sup>*\<^sup>* ?c1 ?c2" by (rule step_into [OF close_stop]) (use free in simp_all)
  also have "bond_step\<^sup>*\<^sup>* ?c2 ?c3"
    by (rule step_into [OF close_snapshot]) (use free in \<open>simp_all add: snapshotPaths_def\<close>)
  finally have s3: "bond_step\<^sup>*\<^sup>* c ?c3" .
  moreover have "bond_step\<^sup>*\<^sup>* ?c3 (c\<lparr>bnd := Close (bnd c), closer := CloseReturned\<rparr>)"
    using drain_steps [OF bond_system.inv_steps [OF s3 inv]] free False
    by (simp add: Close_def Let_def snapshotPaths_def)
  ultimately show ?thesis by (rule steps_trans)
qed

lemma write_path_traffic:
  "\<exists>cs m. list_all (\<lambda>k. case k of ConnWrite _ _ \<Rightarrow> True | ConnSetWriteDeadline _ _ \<Rightarrow> True | _ \<Rightarrow> False) cs \<and>
     write_path pkt io p b = log_calls cs (b\<lparr>nextPath := nextPath b, readCh := readCh b,
       writeDeadline := writeDeadline b, metricRegistry := m\<rparr>)"
proof -
  let ?cs = "deadline_calls b p @ [ConnWrite p pkt]"
  have "list_all (\<lambda>k. case k of ConnWrite _ _ \<Rightarrow> True | ConnSetWriteDeadline _ _ \<Rightarrow> True | _ \<Rightarrow> False) ?cs"
    by (simp add: deadline_calls_def split: option.splits)
  moreover have "\<exists>m. write_path pkt io p b = log_calls ?cs (b\<lparr>nextPath := nextPath b, readCh := readCh b,
       writeDeadline := writeDeadline b, metricRegistry := m\<rparr>)"
    by (cases b) (auto simp: write_path_def log_calls_def deadline_calls_def Let_def split: prod.splits)
  ultimately show ?thesis by blast
qed

lemma write_path_steps: "bond_step\<^sup>*\<^sup>* c (c\<lparr>bnd := write_path pkt io p (bnd c)\<rparr>)"
  using write_path_traffic [of pkt io p "bnd c"] traffic_into by blast

lemma write_attempts_steps:
  assumes "bond_inv c" "mu c = MuFree"
  shows "bond_step\<^sup>*\<^sup>* c (c\<lparr>bnd := snd (write_attempts pkt io ps start as (bnd c))\<rparr>)"
  using assms
proof (induction "as" arbitrary: c)
  case Nil
  then show ?case using grace_steps [of c] by simp
next
  case (Cons a "as")
  let ?i = "go_mod (wrap64 (start + int a)) (int (length ps))"
  let ?p = "ps ! nat ?i"
  let ?c1 = "c\<lparr>bnd := write_path pkt io ?p (bnd c)\<rparr>" and ?e = "path_write_error pkt (io ?p)"
  define b2 where "b2 = (if isPermanentPathError ?e then removePath ?p True (bnd ?c1) else bnd ?c1)"
  have eq: "snd (write_attempts pkt io ps start (a # as) (bnd c)) =
      (if ?i < 0 then bnd c else if ?e = None then bnd ?c1 else snd (write_attempts pkt io ps start as b2))"
    by (simp add: b2_def Let_def)
  have s1: "bond_step\<^sup>*\<^sup>* c ?c1" by (rule write_path_steps)
  have "bond_step\<^sup>*\<^sup>* ?c1 (c\<lparr>bnd := b2\<rparr>)"
    using removePath_steps [OF bond_system.inv_steps [OF s1 Cons.prems(1)], of ?p] Cons.prems(2)
    by (simp add: b2_def)
  with s1 have s2: "bond_step\<^sup>*\<^sup>* c (c\<lparr>bnd := b2\<rparr>)" by (rule steps_trans)
  from Cons.IH [OF bond_system.inv_steps [OF s2 Cons.prems(1)]] Cons.prems(2)
  have "bond_step\<^sup>*\<^sup>* (c\<lparr>bnd := b2\<rparr>) (c\<lparr>bnd := snd (write_attempts pkt io ps start as b2)\<rparr>)" by simp
  from steps_trans [OF s2 this] s1 show ?case unfolding eq by simp
qed

lemma WriteTo_steps:
  assumes inv: "bond_inv c" and free: "mu c = MuFree"
  shows "bond_step\<^sup>*\<^sup>* c (c\<lparr>bnd := snd (WriteTo pkt io (bnd c))\<rparr>)"
proof -
  let ?c1 = "c\<lparr>bnd := (bnd c)\<lparr>nextPath := nextPath (bnd c) + 1\<rparr>\<rparr>"
  have s1: "bond_step\<^sup>*\<^sup>* c ?c1"
    by (rule traffic_into [where cs = "[]" and n = "nextPath (bnd c) + 1" and q = "readCh (bnd c)" and
          w = "writeDeadline (bnd c)" and m = "metricRegistry (bnd c)"])
      (simp_all add: log_calls_def)
  have "bond_step\<^sup>*\<^sup>* c (c\<lparr>bnd := snd (write_attempts pkt io ps start as (bnd ?c1))\<rparr>)" for ps start "as"
    using steps_trans [OF s1 write_attempts_steps [OF bond_system.inv_steps [OF s1 inv]]] free by simp
  then show ?thesis using grace_steps [OF free] by (simp add: WriteTo_def Let_def)
qed

text \<open>
  C16. Run without interference from a state where nobody holds the mutex, the methods
  \<open>AddConn\<close>, \<open>WriteTo\<close>, \<open>removePath\<close> and \<open>Close\<close> are executions of the interleaved system, so
  every property of its reachable states holds after them; in particular \<open>Close\<close> returns, with
  no path left.
\<close>

theorem methods_refine_interleaving:
  assumes "reachable bond_init bond_step c" "mu c = MuFree"
  shows "bond_step\<^sup>*\<^sup>* c (c\<lparr>bnd := snd (AddConn conn (bnd c))\<rparr>) \<and>
    bond_step\<^sup>*\<^sup>* c (c\<lparr>bnd := snd (WriteTo pkt io (bnd c))\<rparr>) \<and>
    bond_step\<^sup>*\<^sup>* c (c\<lparr>bnd := removePath p True (bnd c)\<rparr>) \<and>
    (closer c = NotClosed \<longrightarrow>
       bond_step\<^sup>*\<^sup>* c (c\<lparr>bnd := Close (bnd c), closer := CloseReturned\<rparr>) \<and> paths (Close (bnd c)) = [])"
proof -
  have inv: "bond_inv c" by (rule bond_system.inv_reachable [OF assms(1)])
  have "paths (Close (bnd c)) = []" if "closer c = NotClosed"
    using bond_system.inv_steps [OF Close_steps [OF inv assms(2)] inv] that
    by (simp add: bond_inv_def close_inv_def)
  then show ?thesis
    using AddConn_steps [OF inv assms(2)] WriteTo_steps [OF inv assms(2)] removePath_steps [OF inv assms(2)]
      Close_steps [OF inv assms(2)] by simp
qed

section \<open>Progress of \<open>Close\<close>\<close>

lemma release_mu:
  "\<exists>d. bond_step\<^sup>*\<^sup>* c d \<and> mu d = MuFree \<and> closer d = closer c"
proof (cases "mu c")
  case (MuAdding p)
  then show ?thesis
    using add_commit [OF MuAdding] by (intro exI [of _ "c\<lparr>bnd := register_path p (bnd c), mu := MuFree\<rparr>"]) auto
next
  case MuArming
  then show ?thesis
    using grace_arm [OF MuArming] by (intro exI [of _ "c\<lparr>bnd := arm_timer (bnd c), mu := MuFree\<rparr>"]) auto
qed auto

lemma Draining_returns:
  assumes "bond_inv c" "closer c = Draining ps"
  shows "\<exists>d. bond_step\<^sup>*\<^sup>* c d \<and> closer d = CloseReturned"
proof -
  have "mu c = MuFree" using assms by (auto simp: bond_inv_def close_inv_def)
  from drain_steps [OF assms(1) this assms(2)] show ?thesis by (intro exI conjI, assumption) simp
qed

lemma TimerStopped_returns:
  assumes "bond_inv c" "closer c = TimerStopped"
  shows "\<exists>d. bond_step\<^sup>*\<^sup>* c d \<and> closer d = CloseReturned"
proof -
  have "mu c = MuFree" using assms by (auto simp: bond_inv_def close_inv_def)
  note s = close_snapshot [OF assms(2) this]
  from Draining_returns [OF bond_system.inv_step [OF assms(1) s]] obtain d where
    "bond_step\<^sup>*\<^sup>* (c\<lparr>bnd := notifyStateChanged (bnd c), closer := Draining (snapshotPaths (bnd c))\<rparr>) d"
    "closer d = CloseReturned" by auto
  with s show ?thesis by (meson converse_rtranclp_into_rtranclp)
qed

lemma Signalled_returns:
  assumes "bond_inv c" "closer c = Signalled"
  shows "\<exists>d. bond_step\<^sup>*\<^sup>* c d \<and> closer d = CloseReturned"
proof -
  obtain e where e: "bond_step\<^sup>*\<^sup>* c e" "mu e = MuFree" "closer e = Signalled"
    using release_mu [of c] assms(2) by auto
  note s = close_stop [OF e(3,2)]
  have inv: "bond_inv (e\<lparr>bnd := stop_timer (bnd e), closer := TimerStopped\<rparr>)"
    by (rule bond_system.inv_step [OF bond_system.inv_steps [OF e(1) assms(1)] s])
  from TimerStopped_returns [OF inv] obtain d where
    "bond_step\<^sup>*\<^sup>* (e\<lparr>bnd := stop_timer (bnd e), closer := TimerStopped\<rparr>) d" "closer d = CloseReturned" by auto
  with s e(1) show ?thesis by (meson converse_rtranclp_into_rtranclp rtranclp_trans)
qed

text \<open>
  C17. \<open>Close\<close> is never blocked for good: whatever the other goroutines were doing when it began,
  from every reachable state in which the bond is closed the started \<open>Close\<close> can run to its
  return.
\<close>

theorem Close_can_return:
  assumes "reachable bond_init bond_step c" "closed (bnd c)"
  shows "\<exists>d. bond_step\<^sup>*\<^sup>* c d \<and> closer d = CloseReturned \<and> paths (bnd d) = []"
proof -
  have inv: "bond_inv c" by (rule bond_system.inv_reachable [OF assms(1)])
  have "\<exists>d. bond_step\<^sup>*\<^sup>* c d \<and> closer d = CloseReturned"
    using inv assms(2) Signalled_returns [OF inv] TimerStopped_returns [OF inv] Draining_returns [OF inv]
    by (cases "closer c") (auto simp: bond_inv_def close_inv_def)
  then obtain d where d: "bond_step\<^sup>*\<^sup>* c d" "closer d = CloseReturned" by auto
  have "bond_inv d" by (rule bond_system.inv_steps [OF d(1) inv])
  with d show ?thesis by (auto simp: bond_inv_def close_inv_def)
qed

section \<open>Concrete executions\<close>

lemma idle_bond_reachable:
  "reachable bond_init bond_step (idle_bond (newBondedPacketConn lbl grace reg))"
  by (rule reach_init) (auto simp: bond_init_def idle_bond_def)

lemma bnd_idle [simp]:
  "bnd (idle_bond b) = b" "mu (idle_bond b) = MuFree" "closer (idle_bond b) = NotClosed"
  "(idle_bond b)\<lparr>bnd := b'\<rparr> = idle_bond b'" "live (idle_bond b) = paths b"
  by (simp_all add: idle_bond_def live_def adding_def)

lemma one_path_reachable: "reachable bond_init bond_step (idle_bond one_path_bond)"
proof -
  let ?c = "idle_bond (newBondedPacketConn ''b'' 0 (empty_registry None))"
  note r = idle_bond_reachable [of "''b''" 0 "empty_registry None"]
  from reachable_steps [OF r AddConn_steps [OF bond_system.inv_reachable [OF r], of "Some True"]]
  show ?thesis by (simp add: one_path_bond_def)
qed

lemma one_path_state:
  "paths one_path_bond = [0]" "length (objs one_path_bond) = 1" "\<not> closed one_path_bond"
  "bp_has_cleanup (objs one_path_bond ! 0)"
  by (simp_all add: one_path_bond_def AddConn_open newBondedPacketConn_def)
    (simp add: AddConn_def alloc_path_def register_path_def stop_timer_def notifyStateChanged_def Let_def
      split: prod.splits)

lemma closed_one_path:
  "reachable bond_init bond_step ((idle_bond one_path_bond)\<lparr>bnd := Close one_path_bond, closer := CloseReturned\<rparr>)"
  using reachable_steps [OF one_path_reachable Close_steps [OF bond_system.inv_reachable [OF one_path_reachable]]]
  by simp

lemma closed_one_path_state:
  "paths (Close one_path_bond) = []" "length (objs (Close one_path_bond)) = 1"
  "bp_has_cleanup (objs (Close one_path_bond) ! 0)"
  by (simp_all add: Close_def one_path_state snapshotPaths_def removePath_def notifyStateChanged_def
      stop_timer_def detach_path_def finish_remove_def log_calls_def Let_def split: option.splits)

theorem path_teardown_exactly_once_witness:
  "teardown one_path_bond 0 = (0, 0, 0) \<and> teardown (Close one_path_bond) 0 = (1, 1, 1)"
  using path_teardown_exactly_once [OF one_path_reachable, of 0] path_teardown_exactly_once [OF closed_one_path, of 0]
  by (simp add: one_path_state closed_one_path_state live_def adding_def idle_bond_def)

theorem dead_bond_stays_empty_witness:
  "paths (snd (AddConn (Some False) (Close one_path_bond))) = []"
proof -
  let ?c = "(idle_bond one_path_bond)\<lparr>bnd := Close one_path_bond, closer := CloseReturned\<rparr>"
  have "bond_step\<^sup>*\<^sup>* ?c (?c\<lparr>bnd := snd (AddConn (Some False) (Close one_path_bond))\<rparr>)"
    using AddConn_steps [OF bond_system.inv_reachable [OF closed_one_path], of "Some False"]
    by (simp add: idle_bond_def)
  from dead_bond_stays_empty [OF closed_one_path _ this] show ?thesis by simp
qed

theorem methods_refine_interleaving_witness:
  "bond_step\<^sup>*\<^sup>* (idle_bond one_path_bond) (idle_bond (snd (WriteTo ''x'' example_io one_path_bond))) \<and>
   paths (Close one_path_bond) = []"
  using methods_refine_interleaving [OF one_path_reachable, of None "''x''" example_io 0] by simp

theorem Close_can_return_witness:
  "\<exists>d. bond_step\<^sup>*\<^sup>* ((idle_bond one_path_bond)\<lparr>bnd := one_path_bond\<lparr>closed := True\<rparr>, closer := Signalled\<rparr>) d \<and>
     closer d = CloseReturned \<and> paths (bnd d) = []"
proof -
  have "reachable bond_init bond_step
      ((idle_bond one_path_bond)\<lparr>bnd := one_path_bond\<lparr>closed := True\<rparr>, closer := Signalled\<rparr>)"
    using reach_step [OF one_path_reachable close_signal] by simp
  from Close_can_return [OF this] show ?thesis by simp
qed

section \<open>A stale grace callback\<close>

definition stale_start :: cbond where
  "stale_start = idle_bond (newBondedPacketConn ''b'' 0 (empty_registry None))"

definition stale_fired :: cbond where
  "stale_fired = (idle_bond ((startEmptyGrace (bnd stale_start))\<lparr>armed := []\<rparr>))\<lparr>fired := [0]\<rparr>"

definition stale_rearmed :: cbond where
  "stale_rearmed = stale_fired\<lparr>bnd := removePath 0 True (snd (AddConn (Some True) (bnd stale_fired)))\<rparr>"

lemma stale_fired_state:
  "mu stale_fired = MuFree" "fired stale_fired = [0]" "paths (bnd stale_fired) = []"
  "objs (bnd stale_fired) = []" "armed (bnd stale_fired) = []" "emptyTimer (bnd stale_fired) = Some 0"
  "nextTimer (bnd stale_fired) = 1" "\<not> closed (bnd stale_fired)" "\<not> emptyExpired (bnd stale_fired)"
  by (simp_all add: stale_fired_def stale_start_def idle_bond_def startEmptyGrace_def may_arm_def
      arm_timer_def newBondedPacketConn_def)

lemma stale_fired_reachable: "reachable bond_init bond_step stale_fired"
proof -
  have r: "reachable bond_init bond_step stale_start"
    unfolding stale_start_def by (rule idle_bond_reachable)
  have "reachable bond_init bond_step (idle_bond (startEmptyGrace (bnd stale_start)))"
    using reachable_steps [OF r grace_steps] by (simp add: stale_start_def)
  moreover have "bond_step (idle_bond (startEmptyGrace (bnd stale_start))) stale_fired"
    using timer_fire [of 0 "idle_bond (startEmptyGrace (bnd stale_start))"]
    by (simp add: stale_fired_def stale_start_def idle_bond_def startEmptyGrace_def may_arm_def
        arm_timer_def newBondedPacketConn_def)
  ultimately show ?thesis by (rule reach_step)
qed

lemma stale_rearmed_reachable: "reachable bond_init bond_step stale_rearmed"
proof -
  note inv = bond_system.inv_reachable [OF stale_fired_reachable]
  note a = AddConn_steps [OF inv stale_fired_state(1), of "Some True"]
  note r = reachable_steps [OF stale_fired_reachable a]
  from reachable_steps [OF r removePath_steps [OF bond_system.inv_reachable [OF r], of 0]]
  show ?thesis by (simp add: stale_rearmed_def stale_fired_state)
qed

lemma stale_rearmed_state:
  "mu stale_rearmed = MuFree" "fired stale_rearmed = [0]" "paths (bnd stale_rearmed) = []"
  "armed (bnd stale_rearmed) = [1]" "emptyTimer (bnd stale_rearmed) = Some 1"
  "\<not> emptyExpired (bnd stale_rearmed)" "\<not> closed (bnd stale_rearmed)"
  using stale_fired_state
  by (simp_all add: stale_rearmed_def AddConn_def alloc_path_def register_path_def stop_timer_def
      notifyStateChanged_def removePath_def detach_path_def finish_remove_def log_calls_def Count_def
      startEmptyGrace_def may_arm_def arm_timer_def Let_def split: prod.splits)

text \<open>
  C30. The grace period is not always granted in full. A callback that fired while \<open>AddConn\<close> held
  the mutex is not stopped by \<open>Timer.Stop\<close>; if the new path is lost before the callback gets the
  mutex, a new grace timer is armed, and the old callback then finds the bond empty and expires
  it at once, with the new timer still waiting.
\<close>

theorem stale_grace_callback:
  "\<exists>c d. reachable bond_init bond_step c \<and> bond_step c d \<and>
     emptyTimer (bnd c) = Some 1 \<and> 1 \<in> set (armed (bnd c)) \<and> \<not> emptyExpired (bnd c) \<and>
     emptyExpired (bnd d) \<and> 1 \<in> set (armed (bnd d))"
proof -
  have "bond_step stale_rearmed (stale_rearmed\<lparr>bnd := fst (grace_callback (bnd stale_rearmed)),
      fired := removeAll 0 (fired stale_rearmed)\<rparr>)"
    by (rule timer_callback) (simp_all add: stale_rearmed_state)
  with stale_rearmed_reachable show ?thesis
    by (intro exI conjI) (assumption | simp add: stale_rearmed_state grace_callback_def)+
qed

end
