(* ===== verification/Bond_Hello.thy ===== *)
theory Bond_Hello
  imports Tuning
begin

text \<open>
  \<open>src/tcputil/bonded_packet_conn.go\<close>, the control protocol of a bond
  (\<open>src/docs/BOND_PROTOCOL.md\<close>): the hello record each path sends before KCP traffic, its
  validation, its text on the wire, the V2 acknowledgement and the V2 rejection. A control
  line is sent by one \<open>Write\<close> and received by one \<open>Read\<close> of a datagram connection; the
  outcomes of both are the parameter \<open>conn_io\<close>. Sending operations return the error and
  the payloads handed to \<open>Write\<close>.
\<close>

definition bondHelloV1Token :: string where "bondHelloV1Token = ''VKTURNBOND/1''"

definition bondHelloV2Token :: string where "bondHelloV2Token = ''VKTURNBOND/2''"

definition bondHelloV2Ack :: string where "bondHelloV2Ack = ''VKTURNBOND/2 OK'' @ [CHR 0x0A]"

definition bondHelloV2Error :: string where "bondHelloV2Error = ''ERR''"

definition maxBondHelloSize :: nat where "maxBondHelloSize = 256"

definition MaxBondPaths :: int where "MaxBondPaths = 64"

definition BondProtocolV1 :: int where "BondProtocolV1 = 1"

definition BondProtocolV2 :: int where "BondProtocolV2 = 2"

lemmas bond_consts = bondHelloV1Token_def bondHelloV2Token_def bondHelloV2Ack_def
  bondHelloV2Error_def maxBondHelloSize_def MaxBondPaths_def BondProtocolV1_def BondProtocolV2_def

record BondHello =
  Version :: int
  BondID :: string
  ExpectedPaths :: int
  MTU :: int
  FECDataShards :: int
  FECParityShards :: int

datatype bond_error =
    InvalidBondID | V1HasProfile | ExpectedPathsRange | BadFecProfile fec_error | HelloMtuRange
  | UnsupportedVersion int | MissingHello | V1FieldCount | V2FieldCount | BadNumericField string
  | UnsupportedProtocol string | ControlRecordLength | ConnError io_err | ShortWrite nat nat
  | ControlRecordTooLong | UnterminatedRecord | InvalidRejectionCode string
  | BondHelloRejection string | UnexpectedAck string | MtuMismatch int int
  | FecMismatch int int int int

section \<open>Validation\<close>

definition is_hex_byte :: "char \<Rightarrow> bool" where
  "is_hex_byte c \<longleftrightarrow>
     97 \<le> byte_val c \<and> byte_val c \<le> 102 \<or> 65 \<le> byte_val c \<and> byte_val c \<le> 70 \<or> is_digit c"

definition isValidBondID :: "string \<Rightarrow> bool" where
  "isValidBondID s \<longleftrightarrow> 8 \<le> length s \<and> length s \<le> 64 \<and> list_all is_hex_byte s"

definition is_code_byte :: "char \<Rightarrow> bool" where
  "is_code_byte c \<longleftrightarrow> 65 \<le> byte_val c \<and> byte_val c \<le> 90 \<or> is_digit c \<or> c = CHR ''_''"

definition isValidBondRejectionCode :: "string \<Rightarrow> bool" where
  "isValidBondRejectionCode s \<longleftrightarrow> 1 \<le> length s \<and> length s \<le> 32 \<and> list_all is_code_byte s"

definition validateBondHello :: "BondHello \<Rightarrow> bond_error option" where
  "validateBondHello h =
     (if \<not> isValidBondID (BondID h) then Some InvalidBondID
      else if Version h = BondProtocolV1 then
        if ExpectedPaths h \<noteq> 0 \<or> MTU h \<noteq> 0 \<or> FECDataShards h \<noteq> 0 \<or> FECParityShards h \<noteq> 0
        then Some V1HasProfile else None
      else if Version h = BondProtocolV2 then
        if ExpectedPaths h < 1 \<or> ExpectedPaths h > MaxBondPaths then Some ExpectedPathsRange
        else case validateFECShards (FECDataShards h) (FECParityShards h) of
          Some e \<Rightarrow> Some (BadFecProfile e)
        | None \<Rightarrow>
            if MTU h < minKCPMTU \<or> MTU h > maxKCPMTU (FECDataShards h) (FECParityShards h)
            then Some HelloMtuRange else None
      else Some (UnsupportedVersion (Version h)))"

definition CurrentBondHello :: "tuningValues \<Rightarrow> string \<Rightarrow> int \<Rightarrow> BondHello" where
  "CurrentBondHello v bondID expectedPaths =
     \<lparr>Version = BondProtocolV2, BondID = bondID, ExpectedPaths = expectedPaths, MTU = mtu v,
      FECDataShards = dataShards v, FECParityShards = parityShards v\<rparr>"

definition ValidateBondHelloTuning :: "tuningValues \<Rightarrow> BondHello \<Rightarrow> bond_error option" where
  "ValidateBondHelloTuning v h =
     (case validateBondHello h of
        Some e \<Rightarrow> Some e
      | None \<Rightarrow>
          if Version h = BondProtocolV1 then None
          else if MTU h \<noteq> mtu v then Some (MtuMismatch (MTU h) (mtu v))
          else if FECDataShards h \<noteq> dataShards v \<or> FECParityShards h \<noteq> parityShards v
          then Some (FecMismatch (FECDataShards h) (FECParityShards h) (dataShards v) (parityShards v))
          else None)"

section \<open>Control lines on a connection\<close>

definition writeBondControlLine :: "conn_io \<Rightarrow> string \<Rightarrow> bond_error option \<times> string list" where
  "writeBondControlLine conn line =
     (if length line > maxBondHelloSize \<or> \<not> has_suffix line [CHR 0x0A]
      then (Some ControlRecordLength, [])
      else case set_deadline conn of
        Some e \<Rightarrow> (Some (ConnError e), [])
      | None \<Rightarrow>
          let (n, werr) = conn_write conn line;
              err = (case werr of
                       Some e \<Rightarrow> Some (ConnError e)
                     | None \<Rightarrow> if n \<noteq> length line then Some (ShortWrite n (length line)) else None)
          in (case err of
                Some e \<Rightarrow> (Some e, [line])
              | None \<Rightarrow> (map_option ConnError (reset_deadline conn), [line])))"

definition readBondControlLine :: "conn_io \<Rightarrow> bond_error + string" where
  "readBondControlLine conn =
     (case set_deadline conn of
        Some e \<Rightarrow> Inl (ConnError e)
      | None \<Rightarrow>
          let (record, rerr) = conn_read conn (maxBondHelloSize + 1);
              err = (case rerr of Some e \<Rightarrow> Some e | None \<Rightarrow> reset_deadline conn)
          in if length record > maxBondHelloSize then Inl ControlRecordTooLong
             else (case err of
                     Some e \<Rightarrow> Inl (ConnError e)
                   | None \<Rightarrow>
                       if \<not> has_suffix record [CHR 0x0A] then Inl UnterminatedRecord
                       else Inr (TrimSpace record)))"

section \<open>Hello records\<close>

definition formatBondHello :: "BondHello \<Rightarrow> bond_error + string" where
  "formatBondHello h =
     (if Version h = BondProtocolV1 then Inr (bondHelloV1Token @ '' '' @ BondID h @ [CHR 0x0A])
      else if Version h = BondProtocolV2 then
        Inr (bondHelloV2Token @ '' '' @ BondID h @ '' '' @ Itoa (ExpectedPaths h) @ '' '' @ Itoa (MTU h)
             @ '' '' @ Itoa (FECDataShards h) @ '' '' @ Itoa (FECParityShards h) @ [CHR 0x0A])
      else Inl (UnsupportedVersion (Version h)))"

definition WriteBondHelloConfig :: "conn_io \<Rightarrow> BondHello \<Rightarrow> bond_error option \<times> string list" where
  "WriteBondHelloConfig conn h =
     (case validateBondHello h of
        Some e \<Rightarrow> (Some e, [])
      | None \<Rightarrow>
          (case formatBondHello h of
             Inl e \<Rightarrow> (Some e, [])
           | Inr line \<Rightarrow> writeBondControlLine conn line))"

text \<open>The loop over the four numeric fields stops at the first that is no integer.\<close>

fun parse_values :: "string list \<Rightarrow> bond_error + int list" where
  "parse_values [] = Inr []"
| "parse_values (raw # rs) =
     (case Atoi raw of
        None \<Rightarrow> Inl (BadNumericField raw)
      | Some value \<Rightarrow>
          (case parse_values rs of Inl e \<Rightarrow> Inl e | Inr vs \<Rightarrow> Inr (value # vs)))"

definition checked_hello :: "BondHello \<Rightarrow> bond_error + BondHello" where
  "checked_hello h = (case validateBondHello h of Some e \<Rightarrow> Inl e | None \<Rightarrow> Inr h)"

definition parseBondHelloLine :: "string \<Rightarrow> bond_error + BondHello" where
  "parseBondHelloLine line =
     (case Fields line of
        [] \<Rightarrow> Inl MissingHello
      | token # fs \<Rightarrow>
          if token = bondHelloV1Token then
            (case fs of
               [bid] \<Rightarrow> checked_hello \<lparr>Version = BondProtocolV1, BondID = bid, ExpectedPaths = 0,
                          MTU = 0, FECDataShards = 0, FECParityShards = 0\<rparr>
             | _ \<Rightarrow> Inl V1FieldCount)
          else if token = bondHelloV2Token then
            (if length fs \<noteq> 5 then Inl V2FieldCount
             else case parse_values (tl fs) of
               Inl e \<Rightarrow> Inl e
             | Inr values \<Rightarrow>
                 checked_hello \<lparr>Version = BondProtocolV2, BondID = hd fs,
                   ExpectedPaths = values ! 0, MTU = values ! 1,
                   FECDataShards = values ! 2, FECParityShards = values ! 3\<rparr>)
          else Inl (UnsupportedProtocol token))"

definition ReadBondHelloConfig :: "conn_io \<Rightarrow> bond_error + BondHello" where
  "ReadBondHelloConfig conn =
     (case readBondControlLine conn of Inl e \<Rightarrow> Inl e | Inr line \<Rightarrow> parseBondHelloLine line)"

section \<open>Acknowledgement and rejection\<close>

definition WriteBondHelloAck :: "conn_io \<Rightarrow> bond_error option \<times> string list" where
  "WriteBondHelloAck conn = writeBondControlLine conn bondHelloV2Ack"

definition WriteBondHelloReject :: "conn_io \<Rightarrow> string \<Rightarrow> bond_error option \<times> string list" where
  "WriteBondHelloReject conn code =
     (if \<not> isValidBondRejectionCode code then (Some (InvalidRejectionCode code), [])
      else writeBondControlLine conn
             (bondHelloV2Token @ '' '' @ bondHelloV2Error @ '' '' @ code @ [CHR 0x0A]))"

definition parse_ack :: "string \<Rightarrow> bond_error option" where
  "parse_ack line =
     (if line = TrimSpace bondHelloV2Ack then None
      else case Fields line of
        [t, e, code] \<Rightarrow>
          if t = bondHelloV2Token \<and> e = bondHelloV2Error \<and> isValidBondRejectionCode code
          then Some (BondHelloRejection code) else Some (UnexpectedAck line)
      | _ \<Rightarrow> Some (UnexpectedAck line))"

definition ReadBondHelloAck :: "conn_io \<Rightarrow> bond_error option" where
  "ReadBondHelloAck conn =
     (case readBondControlLine conn of Inl e \<Rightarrow> Some e | Inr line \<Rightarrow> parse_ack line)"

text \<open>\<open>errors.Is(err, ErrBondHelloRejected)\<close>: \<open>Unwrap\<close> of a rejection error.\<close>

definition is_bond_hello_rejected :: "bond_error \<Rightarrow> bool" where
  "is_bond_hello_rejected e = (case e of BondHelloRejection _ \<Rightarrow> True | _ \<Rightarrow> False)"

section \<open>Lemmas\<close>

lemma hex_byte_graphic: "is_hex_byte c \<Longrightarrow> graphic c"
  by (auto simp: is_hex_byte_def graphic_def is_digit_def)

lemma code_byte_graphic: "is_code_byte c \<Longrightarrow> graphic c"
  by (auto simp: is_code_byte_def graphic_def is_digit_def)

lemma valid_id_word: "isValidBondID s \<Longrightarrow> s \<noteq> [] \<and> list_all graphic s"
  by (auto simp: isValidBondID_def list_all_iff hex_byte_graphic)

lemma valid_code_word: "isValidBondRejectionCode s \<Longrightarrow> s \<noteq> [] \<and> list_all graphic s"
  by (auto simp: isValidBondRejectionCode_def list_all_iff code_byte_graphic)

lemma token_words:
  "bondHelloV1Token \<noteq> [] \<and> list_all graphic bondHelloV1Token"
  "bondHelloV2Token \<noteq> [] \<and> list_all graphic bondHelloV2Token"
  "bondHelloV2Error \<noteq> [] \<and> list_all graphic bondHelloV2Error"
  by (simp_all add: bond_consts graphic_def)

lemma Itoa_word: "Itoa i \<noteq> [] \<and> list_all graphic (Itoa i)"
  by (simp add: Itoa_graphic)

lemma has_suffix_snoc [simp]: "has_suffix (s @ [c]) [c]"
  by (simp add: has_suffix_def)

text \<open>A line of graphic words, written as one datagram, is read back as those words.\<close>

definition word_line :: "string list \<Rightarrow> string" where
  "word_line ws = join_with '' '' ws @ [CHR 0x0A]"

lemma words_line_read:
  assumes "ws \<noteq> []" "list_all (\<lambda>w. w \<noteq> [] \<and> list_all graphic w) ws"
    and "length (word_line ws) \<le> maxBondHelloSize"
  shows "readBondControlLine (datagram_conn (word_line ws)) = Inr (join_with '' '' ws)"
    and "Fields (join_with '' '' ws) = ws"
proof -
  let ?s = "join_with '' '' ws"
  have ne: "list_all (\<lambda>w. w \<noteq> []) ws" using assms(2) by (auto simp: list_all_iff)
  have s: "?s \<noteq> []" using join_with_nonempty assms(1) ne by blast
  obtain w ws' where ws: "ws = w # ws'" using assms(1) by (cases ws) auto
  have "graphic (hd ?s)"
    using assms(2) hd_join_with [of w "'' ''" ws'] by (cases w) (auto simp: ws)
  moreover have "graphic (last ?s)"
    using last_join_with [OF assms(1) ne] last_in_set [OF assms(1)] assms(2)
    by (auto simp: list_all_iff)
  ultimately have "TrimSpace (?s @ [CHR 0x0A]) = ?s"
    using TrimSpace_newline s by blast
  then show "readBondControlLine (datagram_conn (word_line ws)) = Inr ?s"
    using assms(3) by (simp add: readBondControlLine_def datagram_conn_def word_line_def)
  show "Fields ?s = ws" using assms(2) by (rule Fields_words)
qed

lemma words_line_write:
  assumes "length (word_line ws) \<le> maxBondHelloSize"
  shows "writeBondControlLine (datagram_conn d) (word_line ws) = (None, [word_line ws])"
  using assms by (simp add: writeBondControlLine_def datagram_conn_def word_line_def)

definition hello_words :: "BondHello \<Rightarrow> string list" where
  "hello_words h =
     (if Version h = BondProtocolV1 then [bondHelloV1Token, BondID h]
      else [bondHelloV2Token, BondID h, Itoa (ExpectedPaths h), Itoa (MTU h),
            Itoa (FECDataShards h), Itoa (FECParityShards h)])"

lemma validate_version:
  "validateBondHello h = None \<Longrightarrow> Version h = BondProtocolV1 \<or> Version h = BondProtocolV2"
  by (auto simp: validateBondHello_def split: if_splits)

lemma validate_id: "validateBondHello h = None \<Longrightarrow> isValidBondID (BondID h)"
  by (auto simp: validateBondHello_def split: if_splits)

lemma validate_v2:
  assumes "validateBondHello h = None" "Version h = BondProtocolV2"
  shows "1 \<le> ExpectedPaths h" "ExpectedPaths h \<le> 64" "50 \<le> MTU h" "MTU h \<le> 1480"
    "0 \<le> FECDataShards h" "FECDataShards h \<le> 256" "0 \<le> FECParityShards h" "FECParityShards h \<le> 256"
  using assms
  by (auto simp: validateBondHello_def bond_consts tuning_consts maxKCPMTU_def validateFECShards_iff
      fec_ok_def Let_def split: if_splits option.splits)

lemma format_words: "validateBondHello h = None \<Longrightarrow> formatBondHello h = Inr (word_line (hello_words h))"
  using validate_version [of h]
  by (auto simp: formatBondHello_def hello_words_def word_line_def BondProtocolV1_def BondProtocolV2_def)

lemma length_Itoa: "0 \<le> i \<Longrightarrow> i < 10 ^ Suc k \<Longrightarrow> length (Itoa i) \<le> Suc k"
  unfolding Itoa_def by (simp, rule length_dec_digits) (simp add: nat_less_iff)

lemma hello_line_length:
  assumes "validateBondHello h = None"
  shows "length (word_line (hello_words h)) \<le> 104"
proof -
  have id: "length (BondID h) \<le> 64" using validate_id [OF assms] by (simp add: isValidBondID_def)
  show ?thesis
  proof (cases "Version h = BondProtocolV1")
    case True
    with id show ?thesis by (simp add: hello_words_def word_line_def bond_consts)
  next
    case False
    then have v2: "Version h = BondProtocolV2" using validate_version [OF assms] by blast
    note b = validate_v2 [OF assms v2]
    have "length (Itoa (ExpectedPaths h)) \<le> Suc 1" using b by (intro length_Itoa) simp_all
    moreover have "length (Itoa (MTU h)) \<le> Suc 3" using b by (intro length_Itoa) simp_all
    moreover have "length (Itoa (FECDataShards h)) \<le> Suc 2" using b by (intro length_Itoa) simp_all
    moreover have "length (Itoa (FECParityShards h)) \<le> Suc 2" using b by (intro length_Itoa) simp_all
    ultimately show ?thesis using id False
      by (simp add: hello_words_def word_line_def bond_consts)
  qed
qed

lemma hello_words_ok:
  "validateBondHello h = None \<Longrightarrow> list_all (\<lambda>w. w \<noteq> [] \<and> list_all graphic w) (hello_words h)"
  using valid_id_word [OF validate_id] token_words Itoa_word by (simp add: hello_words_def)

lemma hello_values_int64:
  assumes "validateBondHello h = None" "Version h = BondProtocolV2"
  shows "is_int64 (ExpectedPaths h)" "is_int64 (MTU h)" "is_int64 (FECDataShards h)"
    "is_int64 (FECParityShards h)"
  using validate_v2 [OF assms] by (simp_all add: is_int64_def min_int64_def max_int64_def)

lemma parse_hello_words:
  assumes ok: "validateBondHello h = None" and line: "Fields line = hello_words h"
  shows "parseBondHelloLine line = Inr h"
proof (cases "Version h = BondProtocolV1")
  case True
  then have "h = \<lparr>Version = BondProtocolV1, BondID = BondID h, ExpectedPaths = 0, MTU = 0,
      FECDataShards = 0, FECParityShards = 0\<rparr>"
    using ok by (cases h) (auto simp: validateBondHello_def split: if_splits)
  with True ok line show ?thesis
    by (simp add: parseBondHelloLine_def hello_words_def checked_hello_def)
next
  case False
  then have v2: "Version h = BondProtocolV2" using validate_version [OF ok] by blast
  have "parse_values (tl (tl (hello_words h))) =
      Inr [ExpectedPaths h, MTU h, FECDataShards h, FECParityShards h]"
    using False hello_values_int64 [OF ok v2] by (simp add: hello_words_def)
  moreover have "\<lparr>Version = BondProtocolV2, BondID = BondID h, ExpectedPaths = ExpectedPaths h,
      MTU = MTU h, FECDataShards = FECDataShards h, FECParityShards = FECParityShards h\<rparr> = h"
    using v2 by (cases h) simp
  ultimately show ?thesis using False ok line
    by (simp add: parseBondHelloLine_def hello_words_def checked_hello_def bondHelloV1Token_def
        bondHelloV2Token_def)
qed

lemma hello_roundtrip:
  assumes "validateBondHello h = None"
  shows "\<exists>line. WriteBondHelloConfig (datagram_conn d) h = (None, [line]) \<and>
    length line \<le> maxBondHelloSize \<and> ReadBondHelloConfig (datagram_conn line) = Inr h"
proof -
  let ?ws = "hello_words h"
  have len: "length (word_line ?ws) \<le> maxBondHelloSize"
    using hello_line_length [OF assms] by (simp add: maxBondHelloSize_def)
  have ne: "?ws \<noteq> []" by (simp add: hello_words_def)
  note read = words_line_read [OF ne hello_words_ok [OF assms] len]
  have "WriteBondHelloConfig (datagram_conn d) h = (None, [word_line ?ws])"
    using assms words_line_write [OF len]
    by (simp add: WriteBondHelloConfig_def format_words)
  moreover have "ReadBondHelloConfig (datagram_conn (word_line ?ws)) = Inr h"
    using read parse_hello_words [OF assms] by (simp add: ReadBondHelloConfig_def)
  ultimately show ?thesis using len by blast
qed

section \<open>Properties\<close>

text \<open>C9. Every valid hello, V1 or V2, is written as one newline-terminated record of at most
  256 bytes, and the peer that reads that record as one datagram gets the same hello back:
  the length check of the writer never rejects a valid hello.\<close>

theorem bond_hello_roundtrip:
  assumes "validateBondHello h = None"
  shows "\<exists>line. WriteBondHelloConfig (datagram_conn d) h = (None, [line]) \<and>
    length line \<le> maxBondHelloSize \<and> ReadBondHelloConfig (datagram_conn line) = Inr h"
  by (rule hello_roundtrip [OF assms])

definition example_v2_hello :: BondHello where
  "example_v2_hello = \<lparr>Version = 2, BondID = ''0123456789abcdef'', ExpectedPaths = 10, MTU = 1200,
     FECDataShards = 10, FECParityShards = 3\<rparr>"

theorem bond_hello_roundtrip_witness:
  "validateBondHello example_v2_hello = None \<and>
   (\<exists>line. WriteBondHelloConfig (datagram_conn []) example_v2_hello = (None, [line]) \<and>
    length line \<le> maxBondHelloSize \<and> ReadBondHelloConfig (datagram_conn line) = Inr example_v2_hello)"
proof -
  have ok: "validateBondHello example_v2_hello = None" by code_simp
  show ?thesis using ok bond_hello_roundtrip [OF ok, of "[]"] by blast
qed

lemma checked_hello_Inr: "checked_hello h = Inr g \<Longrightarrow> g = h \<and> validateBondHello g = None"
  by (auto simp: checked_hello_def split: option.splits)

lemma parse_sound: "parseBondHelloLine line = Inr h \<Longrightarrow> validateBondHello h = None"
  by (auto simp: parseBondHelloLine_def split: list.splits if_splits sum.splits
      dest: checked_hello_Inr)

text \<open>C10. Whatever bytes a peer sends, a hello that the server accepts from the wire is valid:
  its bond id is 8 to 64 hexadecimal digits, a V1 hello carries no profile, and a V2 hello
  announces 1 to 64 paths and a runnable MTU and FEC profile.\<close>

theorem read_hello_valid:
  assumes "ReadBondHelloConfig conn = Inr h"
  shows "isValidBondID (BondID h) \<and>
    (Version h = 1 \<and> ExpectedPaths h = 0 \<and> MTU h = 0 \<and> FECDataShards h = 0 \<and> FECParityShards h = 0 \<or>
     Version h = 2 \<and> 1 \<le> ExpectedPaths h \<and> ExpectedPaths h \<le> 64 \<and>
     fec_ok (FECDataShards h) (FECParityShards h) \<and> 50 \<le> MTU h \<and>
     MTU h + packet_overhead (FECDataShards h) (FECParityShards h) \<le> 1500)"
proof -
  have "validateBondHello h = None"
    using assms parse_sound by (auto simp: ReadBondHelloConfig_def split: sum.splits)
  then show ?thesis
    by (auto simp: validateBondHello_def bond_consts tuning_consts validateFECShards_iff
        maxKCPMTU_fits split: if_splits option.splits)
qed

theorem read_hello_valid_witness:
  "ReadBondHelloConfig (datagram_conn (''VKTURNBOND/1 00ff00ff'' @ [CHR 0x0A])) =
     Inr \<lparr>Version = 1, BondID = ''00ff00ff'', ExpectedPaths = 0, MTU = 0, FECDataShards = 0, FECParityShards = 0\<rparr> \<and>
   isValidBondID ''00ff00ff''"
proof -
  let ?h = "\<lparr>Version = 1, BondID = ''00ff00ff'', ExpectedPaths = 0, MTU = 0, FECDataShards = 0,
    FECParityShards = 0\<rparr> :: BondHello"
  have r: "ReadBondHelloConfig (datagram_conn (''VKTURNBOND/1 00ff00ff'' @ [CHR 0x0A])) = Inr ?h"
    by code_simp
  show ?thesis using r read_hello_valid [OF r] by simp
qed

lemma ack_roundtrip:
  "WriteBondHelloAck (datagram_conn d) = (None, [bondHelloV2Ack])"
  "ReadBondHelloAck (datagram_conn bondHelloV2Ack) = None"
proof -
  show "WriteBondHelloAck (datagram_conn d) = (None, [bondHelloV2Ack])"
    by (simp add: WriteBondHelloAck_def writeBondControlLine_def datagram_conn_def has_suffix_def
        bond_consts)
  show "ReadBondHelloAck (datagram_conn bondHelloV2Ack) = None"
    by code_simp
qed

lemma reject_words_read:
  assumes "isValidBondRejectionCode code"
  defines "ws \<equiv> [bondHelloV2Token, bondHelloV2Error, code]"
  shows "WriteBondHelloReject (datagram_conn d) code = (None, [word_line ws])"
    and "ReadBondHelloAck (datagram_conn (word_line ws)) = Some (BondHelloRejection code)"
proof -
  have words: "list_all (\<lambda>w. w \<noteq> [] \<and> list_all graphic w) ws"
    using valid_code_word [OF assms(1)] token_words by (simp add: ws_def)
  have len: "length (word_line ws) \<le> maxBondHelloSize"
    using assms(1) by (simp add: ws_def word_line_def bond_consts isValidBondRejectionCode_def)
  have ne: "ws \<noteq> []" by (simp add: ws_def)
  note read = words_line_read [OF ne words len]
  have line: "word_line ws = bondHelloV2Token @ '' '' @ bondHelloV2Error @ '' '' @ code @ [CHR 0x0A]"
    by (simp add: ws_def word_line_def)
  show "WriteBondHelloReject (datagram_conn d) code = (None, [word_line ws])"
    using words_line_write [OF len, of d] assms(1) unfolding line WriteBondHelloReject_def by simp
  have "TrimSpace bondHelloV2Ack = ''VKTURNBOND/2 OK''" by code_simp
  then have "join_with '' '' ws \<noteq> TrimSpace bondHelloV2Ack"
    by (simp add: ws_def bond_consts)
  then show "ReadBondHelloAck (datagram_conn (word_line ws)) = Some (BondHelloRejection code)"
    using read assms(1) by (simp add: ReadBondHelloAck_def parse_ack_def ws_def)
qed

text \<open>The V2 replies are unambiguous: the acknowledgement record is read as success, every
  rejection record with a valid code is read as \<open>ErrBondHelloRejected\<close> with that code, and
  each is one record within the size limit, so a client can tell an incompatible server
  from one that never answers.\<close>

theorem bond_reply_roundtrip:
  "WriteBondHelloAck (datagram_conn d) = (None, [bondHelloV2Ack]) \<and>
   ReadBondHelloAck (datagram_conn bondHelloV2Ack) = None \<and>
   (isValidBondRejectionCode code \<longrightarrow>
     (\<exists>line. WriteBondHelloReject (datagram_conn d) code = (None, [line]) \<and>
       (\<exists>e. ReadBondHelloAck (datagram_conn line) = Some e \<and> is_bond_hello_rejected e \<and>
            e = BondHelloRejection code)))"
proof (intro conjI impI)
  show "WriteBondHelloAck (datagram_conn d) = (None, [bondHelloV2Ack])"
    "ReadBondHelloAck (datagram_conn bondHelloV2Ack) = None"
    by (rule ack_roundtrip)+
  show "\<exists>line. WriteBondHelloReject (datagram_conn d) code = (None, [line]) \<and>
     (\<exists>e. ReadBondHelloAck (datagram_conn line) = Some e \<and> is_bond_hello_rejected e \<and>
          e = BondHelloRejection code)" if "isValidBondRejectionCode code"
    using reject_words_read [OF that] by (auto simp: is_bond_hello_rejected_def)
qed

theorem bond_reply_roundtrip_witness:
  "isValidBondRejectionCode ''GROUP_MISMATCH'' \<and>
   (\<exists>line. WriteBondHelloReject (datagram_conn []) ''GROUP_MISMATCH'' = (None, [line]) \<and>
      ReadBondHelloAck (datagram_conn line) = Some (BondHelloRejection ''GROUP_MISMATCH''))"
proof -
  have ok: "isValidBondRejectionCode ''GROUP_MISMATCH''" by code_simp
  show ?thesis using ok bond_reply_roundtrip [of "[]" "''GROUP_MISMATCH''"] by auto
qed

lemma current_hello_valid:
  assumes "validateTuning v = []" "isValidBondID bid" "1 \<le> n" "n \<le> 64"
  shows "validateBondHello (CurrentBondHello v bid n) = None"
  using assms validateTuning_Nil_fec [OF assms(1)]
  by (auto simp: validateBondHello_def CurrentBondHello_def bond_consts validateTuning_def Let_def)

lemma profile_agreement_iff:
  assumes "validateTuning client = []" "isValidBondID bid" "1 \<le> paths" "paths \<le> 64"
  shows "ValidateBondHelloTuning server (CurrentBondHello client bid paths) = None \<longleftrightarrow>
    mtu client = mtu server \<and> dataShards client = dataShards server \<and>
    parityShards client = parityShards server"
  using current_hello_valid [OF assms]
  by (auto simp: ValidateBondHelloTuning_def CurrentBondHello_def bond_consts)

text \<open>A client and a server agree on a bond exactly when their wire profiles agree: the
  hello built from a validated client tuning passes the server's check if and only if the
  MTU and both FEC shard counts are equal on the two sides.\<close>

theorem bond_profile_agreement:
  assumes "validateTuning client = []" "isValidBondID bid" "1 \<le> paths" "paths \<le> 64"
  shows "ValidateBondHelloTuning server (CurrentBondHello client bid paths) = None \<longleftrightarrow>
    mtu client = mtu server \<and> dataShards client = dataShards server \<and>
    parityShards client = parityShards server"
  by (rule profile_agreement_iff [OF assms])

theorem bond_profile_agreement_witness:
  "let v = current (init_tuning (\<lambda>_. None)) in
   validateTuning v = [] \<and> isValidBondID ''0123456789abcdef'' \<and>
   ValidateBondHelloTuning v (CurrentBondHello v ''0123456789abcdef'' 10) = None"
proof -
  let ?v = "current (init_tuning (\<lambda>_. None))"
  have v: "validateTuning ?v = []" by code_simp
  have i: "isValidBondID ''0123456789abcdef''" by code_simp
  show ?thesis using v i bond_profile_agreement [OF v i, of 10 ?v] by (simp add: Let_def)
qed

end
