(* ===== verification/Bond_Manager.thy ===== *)
theory Bond_Manager
  imports Bond_Hello Bonded_Conn
begin

text \<open>
  \<open>src/server/main.go\<close>, the \<open>vlessBondManager\<close> and its \<open>vlessBondGroup\<close>s: the server side of a
  bond. A group is an index into \<open>mgr_heap\<close>; \<open>mgr_groups\<close> is the map from bond IDs, guarded by the
  manager's mutex. \<open>add\<close> runs in the goroutine of each incoming connection and is cut at its
  critical sections: reading and checking the hello (with the replies it writes), finding or
  creating the group, adding the path under the group's mutex, and starting the group's run. The
  life of a running group (installing and clearing the KCP window setter, closing the bond,
  leaving the map) is given by the operations it performs on this state. The calls of
  \<open>SetWindowSize\<close> are logged. The metrics registry of a bond is a parameter.
\<close>

section \<open>State\<close>

record vlessBondGroup =
  grp_id :: string
  grp_pc :: bond
  grp_hello :: BondHello
  grp_started :: bool
  grp_maxPaths :: int
  grp_window :: "nat option"
  grp_appliedWnd :: int
  grp_window_calls :: "int list"

record vlessBondManager =
  mgr_groups :: "string \<rightharpoonup> nat"
  mgr_heap :: "vlessBondGroup list"
  mgr_runs :: "nat list"

definition newVLESSBondManager :: vlessBondManager where
  "newVLESSBondManager = \<lparr>mgr_groups = Map.empty, mgr_heap = [], mgr_runs = []\<rparr>"

datatype add_error =
    AddHelloError bond_error | AddProfileMismatch bond_error | AddGroupMismatch
  | AddAckError bond_error | AddGroupFull int

section \<open>A group\<close>

definition matchesHello :: "vlessBondGroup \<Rightarrow> BondHello \<Rightarrow> bool" where
  "matchesHello g h \<longleftrightarrow> grp_hello g = h"

definition desiredPathCountLocked :: "vlessBondGroup \<Rightarrow> int" where
  "desiredPathCountLocked g =
     (if Version (grp_hello g) = BondProtocolV2 \<and> ExpectedPaths (grp_hello g) > 0
      then ExpectedPaths (grp_hello g)
      else if grp_maxPaths g < 1 then 1 else grp_maxPaths g)"

definition applyWindowLocked :: "tuningValues \<Rightarrow> vlessBondGroup \<Rightarrow> (bool \<times> int) \<times> vlessBondGroup" where
  "applyWindowLocked v g =
     (let wnd = BondedKCPWindow v (desiredPathCountLocked g) in
      if grp_window g = None \<or> wnd \<le> grp_appliedWnd g then ((False, wnd), g)
      else ((True, wnd), g\<lparr>grp_window_calls := grp_window_calls g @ [wnd], grp_appliedWnd := wnd\<rparr>))"

definition addWithCleanup ::
  "tuningValues \<Rightarrow> bool \<Rightarrow> vlessBondGroup \<Rightarrow> add_error option \<times> vlessBondGroup" where
  "addWithCleanup v has_cleanup g =
     (if Version (grp_hello g) = BondProtocolV2 \<and> int (Count (grp_pc g)) \<ge> ExpectedPaths (grp_hello g)
      then (Some (AddGroupFull (ExpectedPaths (grp_hello g))), g)
      else
        let pc = snd (AddConn (Some has_cleanup) (grp_pc g));
            n = int (Count pc);
            g1 = g\<lparr>grp_pc := pc, grp_maxPaths := (if n > grp_maxPaths g then n else grp_maxPaths g)\<rparr>
        in (None, snd (applyWindowLocked v g1)))"

definition installWindowSetter :: "tuningValues \<Rightarrow> nat \<Rightarrow> vlessBondGroup \<Rightarrow> (int \<times> int) \<times> vlessBondGroup" where
  "installWindowSetter v setter g =
     (let pathCount = desiredPathCountLocked g; wnd = BondedKCPWindow v pathCount
      in ((pathCount, wnd),
          g\<lparr>grp_window := Some setter, grp_window_calls := grp_window_calls g @ [wnd], grp_appliedWnd := wnd\<rparr>))"

definition clearWindowSetter :: "nat \<Rightarrow> vlessBondGroup \<Rightarrow> vlessBondGroup" where
  "clearWindowSetter setter g =
     (if grp_window g = Some setter then g\<lparr>grp_window := None, grp_appliedWnd := 0\<rparr> else g)"

definition shortID :: "vlessBondGroup \<Rightarrow> string" where
  "shortID g = (if length (grp_id g) \<le> 8 then grp_id g else take 8 (grp_id g))"

section \<open>The manager\<close>

definition rejectV2BondHello :: "conn_io \<Rightarrow> BondHello \<Rightarrow> string \<Rightarrow> string list" where
  "rejectV2BondHello conn h code =
     (if Version h \<noteq> BondProtocolV2 then [] else snd (WriteBondHelloReject conn code))"

text \<open>The first part of \<open>add\<close>, up to the acknowledgement: its result and the lines it wrote.\<close>

definition add_hello ::
  "tuningValues \<Rightarrow> conn_io \<Rightarrow> vlessBondManager \<Rightarrow> (add_error + BondHello) \<times> string list" where
  "add_hello v conn m =
     (case ReadBondHelloConfig conn of
        Inl e \<Rightarrow> (Inl (AddHelloError e), [])
      | Inr h \<Rightarrow>
          (case ValidateBondHelloTuning v h of
             Some e \<Rightarrow> (Inl (AddProfileMismatch e), rejectV2BondHello conn h ''PROFILE_MISMATCH'')
           | None \<Rightarrow>
               if (case mgr_groups m (BondID h) of None \<Rightarrow> False | Some g \<Rightarrow> \<not> matchesHello (mgr_heap m ! g) h)
               then (Inl AddGroupMismatch, rejectV2BondHello conn h ''GROUP_MISMATCH'')
               else if Version h = BondProtocolV2 then
                 (case WriteBondHelloAck conn of
                    (Some e, ws) \<Rightarrow> (Inl (AddAckError e), ws)
                  | (None, ws) \<Rightarrow> (Inr h, ws))
               else (Inr h, [])))"

definition new_group :: "registry \<Rightarrow> BondHello \<Rightarrow> vlessBondGroup" where
  "new_group reg h =
     \<lparr>grp_id = BondID h, grp_pc = NewBondedPacketConn (''vless-bond-server:'' @ BondID h) reg,
      grp_hello = h, grp_started = False, grp_maxPaths = 0, grp_window = None, grp_appliedWnd = 0,
      grp_window_calls = []\<rparr>"

definition find_group ::
  "registry \<Rightarrow> BondHello \<Rightarrow> vlessBondManager \<Rightarrow> (add_error + nat) \<times> vlessBondManager" where
  "find_group reg h m =
     (case mgr_groups m (BondID h) of
        None \<Rightarrow>
          (Inr (length (mgr_heap m)),
           m\<lparr>mgr_groups := (mgr_groups m)(BondID h \<mapsto> length (mgr_heap m)),
             mgr_heap := mgr_heap m @ [new_group reg h]\<rparr>)
      | Some g \<Rightarrow> if \<not> matchesHello (mgr_heap m ! g) h then (Inl AddGroupMismatch, m) else (Inr g, m))"

definition update_group :: "nat \<Rightarrow> (vlessBondGroup \<Rightarrow> vlessBondGroup) \<Rightarrow> vlessBondManager \<Rightarrow> vlessBondManager" where
  "update_group g f m = m\<lparr>mgr_heap := (mgr_heap m)[g := f (mgr_heap m ! g)]\<rparr>"

definition start_group :: "nat \<Rightarrow> vlessBondManager \<Rightarrow> vlessBondManager" where
  "start_group g m =
     (if grp_started (mgr_heap m ! g) then m
      else (update_group g (grp_started_update (\<lambda>_. True)) m)\<lparr>mgr_runs := mgr_runs m @ [g]\<rparr>)"

definition add_path ::
  "tuningValues \<Rightarrow> registry \<Rightarrow> conn_io \<Rightarrow> bool \<Rightarrow> vlessBondManager \<Rightarrow>
     (add_error option \<times> string list) \<times> vlessBondManager" where
  "add_path v reg conn has_cleanup m =
     (case add_hello v conn m of
        (Inl e, ws) \<Rightarrow> ((Some e, ws), m)
      | (Inr h, ws) \<Rightarrow>
          (case find_group reg h m of
             (Inl e, m1) \<Rightarrow> ((Some e, ws), m1)
           | (Inr g, m1) \<Rightarrow>
               (case addWithCleanup v has_cleanup (mgr_heap m1 ! g) of
                  (Some e, _) \<Rightarrow> ((Some e, ws), m1)
                | (None, g') \<Rightarrow> ((None, ws), start_group g (update_group g (\<lambda>_. g') m1)))))"

definition group_done :: "nat \<Rightarrow> vlessBondManager \<Rightarrow> vlessBondManager" where
  "group_done g m =
     (let bondID = grp_id (mgr_heap m ! g) in
      if mgr_groups m bondID = Some g then m\<lparr>mgr_groups := (mgr_groups m)(bondID := None)\<rparr> else m)"

text \<open>
  The run of a group whose KCP and smux calls have the given outcomes (\<open>None\<close>: KCP set-up failed;
  \<open>Some False\<close>: smux failed; \<open>Some True\<close>: streams were served until the session ended), in the
  order of its deferred calls.
\<close>

definition run_group :: "tuningValues \<Rightarrow> nat \<Rightarrow> bool option \<Rightarrow> nat \<Rightarrow> vlessBondManager \<Rightarrow> vlessBondManager" where
  "run_group v setter outcome g m =
     (let served = (case outcome of
                      None \<Rightarrow> m
                    | Some _ \<Rightarrow>
                        update_group g (\<lambda>gr. clearWindowSetter setter (snd (installWindowSetter v setter gr))) m);
          closed_pc = update_group g (\<lambda>gr. gr\<lparr>grp_pc := Close (grp_pc gr)\<rparr>) served
      in group_done g closed_pc)"

section \<open>Interleavings\<close>

text \<open>The critical sections of many connections and runs, in any order.\<close>

datatype mgr_op =
    OpFind registry BondHello | OpAdd nat bool | OpStart nat | OpLose nat nat
  | OpInstall nat nat | OpClear nat nat | OpClosePc nat | OpDone nat

fun mgr_step :: "tuningValues \<Rightarrow> mgr_op \<Rightarrow> vlessBondManager \<Rightarrow> vlessBondManager" where
  "mgr_step v (OpFind reg h) m = snd (find_group reg h m)"
| "mgr_step v (OpAdd g c) m =
     (if g < length (mgr_heap m) then update_group g (\<lambda>gr. snd (addWithCleanup v c gr)) m else m)"
| "mgr_step v (OpStart g) m = (if g < length (mgr_heap m) then start_group g m else m)"
| "mgr_step v (OpLose g p) m =
     (if g < length (mgr_heap m) then update_group g (\<lambda>gr. gr\<lparr>grp_pc := removePath p True (grp_pc gr)\<rparr>) m else m)"
| "mgr_step v (OpInstall g s) m =
     (if g < length (mgr_heap m) then update_group g (\<lambda>gr. snd (installWindowSetter v s gr)) m else m)"
| "mgr_step v (OpClear g s) m =
     (if g < length (mgr_heap m) then update_group g (clearWindowSetter s) m else m)"
| "mgr_step v (OpClosePc g) m =
     (if g < length (mgr_heap m) then update_group g (\<lambda>gr. gr\<lparr>grp_pc := Close (grp_pc gr)\<rparr>) m else m)"
| "mgr_step v (OpDone g) m = (if g < length (mgr_heap m) then group_done g m else m)"

text \<open>A hello that reaches the map has passed \<open>add_hello\<close>.\<close>

fun op_ok :: "tuningValues \<Rightarrow> mgr_op \<Rightarrow> bool" where
  "op_ok v (OpFind reg h) = (ValidateBondHelloTuning v h = None)"
| "op_ok v _ = True"

definition group_inv :: "tuningValues \<Rightarrow> vlessBondGroup \<Rightarrow> bool" where
  "group_inv v g \<longleftrightarrow>
     ValidateBondHelloTuning v (grp_hello g) = None \<and> grp_id g = BondID (grp_hello g) \<and>
     0 \<le> grp_maxPaths g \<and> int (Count (grp_pc g)) \<le> grp_maxPaths g \<and>
     (Version (grp_hello g) = BondProtocolV2 \<longrightarrow> grp_maxPaths g \<le> ExpectedPaths (grp_hello g)) \<and>
     (grp_window g \<noteq> None \<longrightarrow>
        grp_window_calls g \<noteq> [] \<and> last (grp_window_calls g) = grp_appliedWnd g \<and>
        grp_appliedWnd g = BondedKCPWindow v (desiredPathCountLocked g))"

definition mgr_inv :: "tuningValues \<Rightarrow> vlessBondManager \<Rightarrow> bool" where
  "mgr_inv v m \<longleftrightarrow>
     list_all (group_inv v) (mgr_heap m) \<and>
     (\<forall>b g. mgr_groups m b = Some g \<longrightarrow> g < length (mgr_heap m) \<and> grp_id (mgr_heap m ! g) = b) \<and>
     distinct (mgr_runs m) \<and>
     (\<forall>g. g \<in> set (mgr_runs m) \<longleftrightarrow> g < length (mgr_heap m) \<and> grp_started (mgr_heap m ! g))"

section \<open>Groups keep their invariant\<close>

lemma Count_AddConn: "Count (snd (AddConn (Some c) b)) \<le> Suc (Count b)"
  by (simp add: Count_def AddConn_def alloc_path_def register_path_def stop_timer_def closePath_def
      log_calls_def notifyStateChanged_def Let_def split: option.splits prod.splits)

lemma Count_removePath: "Count (removePath p k b) \<le> Count b"
  by (simp add: Count_def length_remove1)

lemma Count_fold_removePath: "Count (fold (\<lambda>p. removePath p True) ps b) \<le> Count b"
  by (induction ps arbitrary: b) (auto intro: order_trans Count_removePath)

lemma Count_Close: "Count (Close b) \<le> Count b"
proof -
  have "Count (notifyStateChanged (stop_timer (b\<lparr>closed := True\<rparr>))) = Count b"
    by (simp add: Count_def notifyStateChanged_def stop_timer_def split: option.splits)
  then show ?thesis
    using Count_fold_removePath [of "snapshotPaths (notifyStateChanged (stop_timer (b\<lparr>closed := True\<rparr>)))"
        "notifyStateChanged (stop_timer (b\<lparr>closed := True\<rparr>))"]
    by (simp add: Close_def Let_def)
qed

lemma BondedKCPWindow_mono: "i \<le> j \<Longrightarrow> BondedKCPWindow v i \<le> BondedKCPWindow v j"
  unfolding BondedKCPWindow_def bondedKCPWindow_window_spec
  by (intro min.mono order_refl mult_left_mono) auto

lemma desired_mono:
  assumes "grp_hello g = grp_hello g'" "grp_maxPaths g \<le> grp_maxPaths g'"
  shows "desiredPathCountLocked g \<le> desiredPathCountLocked g'"
  using assms by (simp add: desiredPathCountLocked_def)

text \<open>Adding a path: the applied window follows the desired path count.\<close>

lemma applyWindow_inv:
  assumes inv: "group_inv v g"
    and more: "grp_maxPaths g \<le> n" "int (Count pc) \<le> n"
      "Version (grp_hello g) = BondProtocolV2 \<longrightarrow> n \<le> ExpectedPaths (grp_hello g)"
  shows "group_inv v (snd (applyWindowLocked v (g\<lparr>grp_pc := pc, grp_maxPaths := n\<rparr>)))"
proof -
  let ?g = "g\<lparr>grp_pc := pc, grp_maxPaths := n\<rparr>"
  have same: "desiredPathCountLocked (?g\<lparr>grp_window_calls := x, grp_appliedWnd := y\<rparr>) = desiredPathCountLocked ?g" for x y
    by (simp add: desiredPathCountLocked_def)
  have "BondedKCPWindow v (desiredPathCountLocked g) \<le> BondedKCPWindow v (desiredPathCountLocked ?g)"
    using more(1) by (intro BondedKCPWindow_mono desired_mono) simp_all
  with inv more same show ?thesis
    by (auto simp: group_inv_def applyWindowLocked_def Let_def)
qed

lemma addWithCleanup_inv:
  assumes inv: "group_inv v g"
  shows "group_inv v (snd (addWithCleanup v c g))"
proof (cases "Version (grp_hello g) = BondProtocolV2 \<and> int (Count (grp_pc g)) \<ge> ExpectedPaths (grp_hello g)")
  case True
  then show ?thesis using inv by (simp add: addWithCleanup_def)
next
  case False
  let ?pc = "snd (AddConn (Some c) (grp_pc g))"
  let ?n = "int (Count ?pc)"
  have n: "?n \<le> int (Count (grp_pc g)) + 1" using Count_AddConn [of c "grp_pc g"] by linarith
  have "group_inv v (snd (applyWindowLocked v (g\<lparr>grp_pc := ?pc, grp_maxPaths := max (grp_maxPaths g) ?n\<rparr>)))"
    using inv n False by (intro applyWindow_inv) (auto simp: group_inv_def)
  moreover have "(if ?n > grp_maxPaths g then ?n else grp_maxPaths g) = max (grp_maxPaths g) ?n" by auto
  ultimately show ?thesis using False inv by (simp add: addWithCleanup_def Let_def)
qed

lemma installWindowSetter_inv: "group_inv v g \<Longrightarrow> group_inv v (snd (installWindowSetter v s g))"
  by (auto simp: group_inv_def installWindowSetter_def Let_def desiredPathCountLocked_def)

lemma clearWindowSetter_inv: "group_inv v g \<Longrightarrow> group_inv v (clearWindowSetter s g)"
  by (auto simp: group_inv_def clearWindowSetter_def desiredPathCountLocked_def)

lemma shrink_inv:
  assumes "group_inv v g" "Count pc \<le> Count (grp_pc g)"
  shows "group_inv v (g\<lparr>grp_pc := pc\<rparr>)"
  using assms by (auto simp: group_inv_def desiredPathCountLocked_def)

lemma new_group_inv: "ValidateBondHelloTuning v h = None \<Longrightarrow> group_inv v (new_group reg h)"
  by (auto simp: group_inv_def new_group_def NewBondedPacketConn_def newBondedPacketConn_def Count_def
      ValidateBondHelloTuning_def validateBondHello_def bond_consts split: option.splits if_splits)

section \<open>The manager keeps its invariant\<close>

lemma update_group_inv:
  assumes inv: "mgr_inv v m" and g: "g < length (mgr_heap m)"
    and f: "\<And>gr. group_inv v gr \<Longrightarrow> group_inv v (f gr)"
    and same: "\<And>gr. grp_id (f gr) = grp_id gr \<and> grp_started (f gr) = grp_started gr"
  shows "mgr_inv v (update_group g f m)"
proof -
  have "list_all (group_inv v) ((mgr_heap m)[g := f (mgr_heap m ! g)])"
    using inv g f by (auto simp: mgr_inv_def list_all_length nth_list_update)
  with inv g same show ?thesis
    by (auto simp: mgr_inv_def update_group_def nth_list_update)
qed

lemma find_group_inv:
  assumes inv: "mgr_inv v m" and h: "ValidateBondHelloTuning v h = None"
  shows "mgr_inv v (snd (find_group reg h m))"
proof (cases "mgr_groups m (BondID h)")
  case None
  have runs: "length (mgr_heap m) \<notin> set (mgr_runs m)" using inv by (auto simp: mgr_inv_def)
  have new: "group_inv v (new_group reg h)" "grp_id (new_group reg h) = BondID h" "\<not> grp_started (new_group reg h)"
    using new_group_inv [OF h] by (simp_all add: new_group_def)
  show ?thesis
    using inv new None runs unfolding mgr_inv_def find_group_def
    by (auto simp: nth_append less_Suc_eq split: if_splits)
next
  case (Some g)
  then show ?thesis using inv by (simp add: find_group_def)
qed

lemma start_group_inv:
  assumes inv: "mgr_inv v m" and g: "g < length (mgr_heap m)"
  shows "mgr_inv v (start_group g m)"
proof (cases "grp_started (mgr_heap m ! g)")
  case True
  then show ?thesis using inv by (simp add: start_group_def)
next
  case False
  have ginv: "group_inv v (mgr_heap m ! g)" using inv g by (auto simp: mgr_inv_def list_all_length)
  then have "group_inv v ((mgr_heap m ! g)\<lparr>grp_started := True\<rparr>)"
    by (auto simp: group_inv_def desiredPathCountLocked_def)
  with inv g False show ?thesis
    by (auto simp: mgr_inv_def start_group_def update_group_def list_all_length nth_list_update)
qed

lemma addWithCleanup_frame:
  "grp_id (snd (addWithCleanup v c g)) = grp_id g" "grp_started (snd (addWithCleanup v c g)) = grp_started g"
  "grp_hello (snd (addWithCleanup v c g)) = grp_hello g"
  by (simp_all add: addWithCleanup_def applyWindowLocked_def Let_def)

lemma update_guarded_inv:
  assumes "mgr_inv v m" "\<And>gr. group_inv v gr \<Longrightarrow> group_inv v (f gr)"
    and "\<And>gr. grp_id (f gr) = grp_id gr \<and> grp_started (f gr) = grp_started gr"
  shows "mgr_inv v (if g < length (mgr_heap m) then update_group g f m else m)"
  using assms(1) update_group_inv [OF assms(1) _ assms(2,3), of g] by simp

lemma group_done_inv:
  assumes "mgr_inv v m"
  shows "mgr_inv v (group_done g m)"
proof -
  have "mgr_heap (group_done g m) = mgr_heap m" "mgr_runs (group_done g m) = mgr_runs m"
    by (simp_all add: group_done_def Let_def)
  moreover have "mgr_groups (group_done g m) b = Some x \<Longrightarrow> mgr_groups m b = Some x" for b x
    by (simp add: group_done_def Let_def split: if_splits)
  ultimately show ?thesis using assms unfolding mgr_inv_def by metis
qed

lemma mgr_step_inv:
  assumes inv: "mgr_inv v m" and ok: "op_ok v oper"
  shows "mgr_inv v (mgr_step v oper m)"
proof (cases oper)
  case (OpFind reg h)
  then show ?thesis using find_group_inv [OF inv] ok by simp
next
  case (OpAdd g c)
  show ?thesis unfolding OpAdd mgr_step.simps
    by (rule update_guarded_inv [OF inv]) (simp_all add: addWithCleanup_inv addWithCleanup_frame)
next
  case (OpStart g)
  then show ?thesis using start_group_inv [OF inv] inv by simp
next
  case (OpLose g p)
  show ?thesis unfolding OpLose mgr_step.simps
    by (rule update_guarded_inv [OF inv]) (simp_all add: shrink_inv Count_removePath)
next
  case (OpInstall g s)
  show ?thesis unfolding OpInstall mgr_step.simps
    by (rule update_guarded_inv [OF inv], erule installWindowSetter_inv) (simp add: installWindowSetter_def Let_def)
next
  case (OpClear g s)
  show ?thesis unfolding OpClear mgr_step.simps
    by (rule update_guarded_inv [OF inv], erule clearWindowSetter_inv) (simp add: clearWindowSetter_def)
next
  case (OpClosePc g)
  show ?thesis unfolding OpClosePc mgr_step.simps
    by (rule update_guarded_inv [OF inv]) (simp_all add: shrink_inv Count_Close)
next
  case (OpDone g)
  then show ?thesis using group_done_inv [OF inv] inv by simp
qed

lemma mgr_run_inv:
  assumes "list_all (op_ok v) ops" "mgr_inv v m"
  shows "mgr_inv v (fold (mgr_step v) ops m)"
  using assms by (induction ops arbitrary: m) (simp_all add: mgr_step_inv)

lemma new_manager_inv: "mgr_inv v newVLESSBondManager"
  by (simp add: mgr_inv_def newVLESSBondManager_def)

section \<open>Properties\<close>

lemma distinct_count_list: "distinct xs \<Longrightarrow> count_list xs x \<le> 1"
  by (induction xs) (auto simp: count_notin)

lemma group_of_run:
  assumes "list_all (op_ok v) ops" "m = fold (mgr_step v) ops newVLESSBondManager" "g < length (mgr_heap m)"
  shows "group_inv v (mgr_heap m ! g)"
  using mgr_run_inv [OF assms(1) new_manager_inv] assms(2,3) by (simp add: mgr_inv_def list_all_length)

text \<open>
  C32. However the connection goroutines and group runs interleave, every bond group satisfies: its
  profile is the one this server is configured for; a V2 group never has more paths than it
  negotiated, at most 64; and while a KCP session is installed, the window last set on it is
  the bonded window for the negotiated path count (V2) or for the largest number of paths seen
  so far (V1), so paths joining later always enlarge it. Each group's run is started at most
  once, and a bond ID maps to a group with that ID.
\<close>

theorem bond_groups_consistent:
  assumes "list_all (op_ok v) ops" "m = fold (mgr_step v) ops newVLESSBondManager" "g < length (mgr_heap m)"
  shows "ValidateBondHelloTuning v (grp_hello (mgr_heap m ! g)) = None \<and>
    (Version (grp_hello (mgr_heap m ! g)) = BondProtocolV2 \<longrightarrow>
       int (Count (grp_pc (mgr_heap m ! g))) \<le> ExpectedPaths (grp_hello (mgr_heap m ! g)) \<and>
       ExpectedPaths (grp_hello (mgr_heap m ! g)) \<le> 64) \<and>
    (grp_window (mgr_heap m ! g) \<noteq> None \<longrightarrow>
       grp_window_calls (mgr_heap m ! g) \<noteq> [] \<and>
       last (grp_window_calls (mgr_heap m ! g)) =
         min 8192 (max 1 (window v) * max 1 (desiredPathCountLocked (mgr_heap m ! g)))) \<and>
    count_list (mgr_runs m) g \<le> 1 \<and>
    (mgr_groups m b = Some g \<longrightarrow> BondID (grp_hello (mgr_heap m ! g)) = b)"
proof -
  let ?g = "mgr_heap m ! g"
  have ginv: "group_inv v ?g" by (rule group_of_run [OF assms])
  have minv: "mgr_inv v m" using mgr_run_inv [OF assms(1) new_manager_inv] assms(2) by simp
  have "validateBondHello (grp_hello ?g) = None"
    using ginv by (auto simp: group_inv_def ValidateBondHelloTuning_def split: option.splits)
  then have "Version (grp_hello ?g) = BondProtocolV2 \<Longrightarrow> ExpectedPaths (grp_hello ?g) \<le> 64"
    by (rule validate_v2)
  moreover have "count_list (mgr_runs m) g \<le> 1"
    by (rule distinct_count_list) (use minv in \<open>simp add: mgr_inv_def\<close>)
  moreover have "mgr_groups m b = Some g \<Longrightarrow> BondID (grp_hello ?g) = b"
    using minv ginv by (auto simp: mgr_inv_def group_inv_def)
  ultimately show ?thesis
    using ginv by (auto simp: group_inv_def BondedKCPWindow_def bondedKCPWindow_window_spec)
qed

definition example_mgr_ops :: "mgr_op list" where
  "example_mgr_ops =
     [OpFind (empty_registry None) example_v2_hello, OpAdd 0 True, OpStart 0, OpInstall 0 7, OpAdd 0 True, OpStart 0]"

definition example_mgr_tuning :: tuningValues where
  "example_mgr_tuning = (current (init_tuning (\<lambda>_. None)))\<lparr>dataShards := 10, parityShards := 3\<rparr>"

theorem bond_groups_consistent_witness:
  "last (grp_window_calls (mgr_heap (fold (mgr_step example_mgr_tuning) example_mgr_ops newVLESSBondManager) ! 0)) = 2560"
proof -
  have ok: "list_all (op_ok example_mgr_tuning) example_mgr_ops" by code_simp
  let ?m = "fold (mgr_step example_mgr_tuning) example_mgr_ops newVLESSBondManager"
  have st: "length (mgr_heap ?m) = 1" "grp_window (mgr_heap ?m ! 0) = Some 7"
    "desiredPathCountLocked (mgr_heap ?m ! 0) = 10" "window example_mgr_tuning = 256"
    by code_simp+
  then have "0 < length (mgr_heap ?m)" by simp
  from bond_groups_consistent [OF ok refl this, of "[]"] st show ?thesis by simp
qed


end
