(* ===== verification/Bond_Supervisor.thy ===== *)
theory Bond_Supervisor
  imports Bond_Hello Metrics_Registry
begin

text \<open>
  \<open>src/client/vless_bond_supervisor.go\<close>: the client's bond generations. A generation is a pointer
  (a number); the supervisor creates one, publishes it in the session slot, waits until it ends,
  closes it and starts again. Loops that select on channels are functions of the list of what
  happens to them: each round carries the values the loop reads at its head and the event
  that the select takes, so every interleaving is some list. Times and delays are nanoseconds.
\<close>

definition second :: int where "second = 1000000000"

definition vlessBondStableGeneration :: int where "vlessBondStableGeneration = 60 * second"

definition vlessBondV2FallbackGrace :: int where "vlessBondV2FallbackGrace = 8 * second"

definition vlessBondZeroPathGrace :: int where "vlessBondZeroPathGrace = 10 * second"

type_synonym gen_ref = nat

datatype gen_error =
    GenCancelled | GenV2Unavailable "bond_error option" | GenHelloRejected bond_error | GenExpectedPaths
  | GenBondID | GenProtocol int | GenKCP | GenSmux | GenNil
  | GenNoSession | GenSessionClosed | GenFailed string | GenNoPaths

section \<open>Protocol selection\<close>

datatype vlessBondProtocolMode = vlessBondProtocolAuto | vlessBondProtocolV1 | vlessBondProtocolV2

definition parseVLESSBondProtocolMode :: "string \<Rightarrow> vlessBondProtocolMode option" where
  "parseVLESSBondProtocolMode raw =
     (let s = ToLower (TrimSpace raw) in
      if s = [] \<or> s = ''auto'' then Some vlessBondProtocolAuto
      else if s = ''1'' \<or> s = ''v1'' then Some vlessBondProtocolV1
      else if s = ''2'' \<or> s = ''v2'' then Some vlessBondProtocolV2
      else None)"

fun mode_String :: "vlessBondProtocolMode \<Rightarrow> string" where
  "mode_String vlessBondProtocolV1 = ''v1''"
| "mode_String vlessBondProtocolV2 = ''v2''"
| "mode_String vlessBondProtocolAuto = ''auto''"

record vlessBondProtocolSelector =
  sel_mode :: vlessBondProtocolMode
  legacyV1 :: bool

definition newVLESSBondProtocolSelector :: "vlessBondProtocolMode \<Rightarrow> vlessBondProtocolSelector" where
  "newVLESSBondProtocolSelector m = \<lparr>sel_mode = m, legacyV1 = False\<rparr>"

definition protocol :: "vlessBondProtocolSelector \<Rightarrow> int" where
  "protocol s =
     (case sel_mode s of
        vlessBondProtocolV1 \<Rightarrow> BondProtocolV1
      | vlessBondProtocolV2 \<Rightarrow> BondProtocolV2
      | vlessBondProtocolAuto \<Rightarrow> if legacyV1 s then BondProtocolV1 else BondProtocolV2)"

definition is_v2_unavailable :: "gen_error option \<Rightarrow> bool" where
  "is_v2_unavailable e = (case e of Some (GenV2Unavailable _) \<Rightarrow> True | _ \<Rightarrow> False)"

text \<open>\<open>create\<close> also returns the protocols the factory was called with and the generations closed.\<close>

definition create ::
  "vlessBondProtocolSelector \<Rightarrow> (int \<Rightarrow> gen_ref option \<times> gen_error option) \<Rightarrow>
     (gen_ref option \<times> gen_error option) \<times> vlessBondProtocolSelector \<times> int list \<times> gen_ref list" where
  "create s factory =
     (let p = protocol s; (generation, err) = factory p in
      if sel_mode s \<noteq> vlessBondProtocolAuto \<or> p \<noteq> BondProtocolV2 \<or> \<not> is_v2_unavailable err
      then ((generation, err), s, [p], [])
      else (factory BondProtocolV1, s\<lparr>legacyV1 := True\<rparr>, [p, BondProtocolV1],
            case generation of None \<Rightarrow> [] | Some g \<Rightarrow> [g]))"

section \<open>Waiting for the first path\<close>

datatype fallback_timer = TimerUnset | TimerArmed | TimerFired

record first_state =
  failedPaths :: "int list"
  lastSetupErr :: "bond_error option"
  fallbackTimer :: fallback_timer

datatype first_event = FirstCtxDone | FirstStateChanged | FirstFallback | FirstSetup int bond_error

text \<open>A round: the path count at the head of the loop, the event, the path count read in its case.\<close>

record first_round =
  first_top :: nat
  first_ev :: first_event
  first_inner :: nat

definition first_init :: first_state where
  "first_init = \<lparr>failedPaths = [], lastSetupErr = None, fallbackTimer = TimerUnset\<rparr>"

text \<open>The case for a setup event: a result, or the state to go on with.\<close>

definition setup_event :: "int \<Rightarrow> int \<Rightarrow> int \<Rightarrow> bond_error \<Rightarrow> nat \<Rightarrow> first_state \<Rightarrow> gen_error + first_state" where
  "setup_event proto expectedPaths pathID err active st =
     (if is_bond_hello_rejected err then Inl (GenHelloRejected err)
      else if proto \<noteq> BondProtocolV2 then Inr st
      else
        let st' = st\<lparr>failedPaths := List.insert pathID (failedPaths st), lastSetupErr := Some err,
                     fallbackTimer := (if fallbackTimer st = TimerUnset then TimerArmed else fallbackTimer st)\<rparr>
        in if int (length (failedPaths st')) \<ge> expectedPaths \<and> active = 0
           then Inl (GenV2Unavailable (lastSetupErr st')) else Inr st')"

text \<open>\<open>None\<close> is a loop still waiting; a timer that is not armed never fires.\<close>

fun first_loop :: "int \<Rightarrow> int \<Rightarrow> first_state \<Rightarrow> first_round list \<Rightarrow> gen_error option option" where
  "first_loop proto expectedPaths st [] = None"
| "first_loop proto expectedPaths st (r # rs) =
     (if first_top r > 0 then Some None
      else case first_ev r of
        FirstCtxDone \<Rightarrow> Some (Some GenCancelled)
      | FirstStateChanged \<Rightarrow> first_loop proto expectedPaths st rs
      | FirstFallback \<Rightarrow>
          if fallbackTimer st \<noteq> TimerArmed then first_loop proto expectedPaths st rs
          else if first_inner r = 0 then Some (Some (GenV2Unavailable (lastSetupErr st)))
          else first_loop proto expectedPaths (st\<lparr>fallbackTimer := TimerFired\<rparr>) rs
      | FirstSetup pathID err \<Rightarrow>
          (case setup_event proto expectedPaths pathID err (first_inner r) st of
             Inl e \<Rightarrow> Some (Some e)
           | Inr st' \<Rightarrow> first_loop proto expectedPaths st' rs))"

definition waitForFirstBondPath :: "int \<Rightarrow> int \<Rightarrow> first_round list \<Rightarrow> gen_error option option" where
  "waitForFirstBondPath proto expectedPaths rs =
     (if expectedPaths < 1 then Some (Some GenExpectedPaths) else first_loop proto expectedPaths first_init rs)"

section \<open>A generation\<close>

record vlessBondGeneration =
  gen_id :: string
  cleanupDone :: bool
  cleanups :: nat
  failed :: bool
  failureErr :: "string option"
  startedAt :: int

definition newVLESSBondGeneration :: "string \<Rightarrow> int \<Rightarrow> vlessBondGeneration" where
  "newVLESSBondGeneration i now =
     \<lparr>gen_id = i, cleanupDone = False, cleanups = 0, failed = False, failureErr = None, startedAt = now\<rparr>"

definition gen_fail :: "string option \<Rightarrow> vlessBondGeneration \<Rightarrow> vlessBondGeneration" where
  "gen_fail err g =
     (let e = (case err of None \<Rightarrow> ''vless bond generation failed'' | Some e \<Rightarrow> e) in
      if failed g then g else g\<lparr>failureErr := Some e, failed := True\<rparr>)"

definition gen_close :: "vlessBondGeneration \<Rightarrow> vlessBondGeneration" where
  "gen_close g = (if cleanupDone g then g else g\<lparr>cleanupDone := True, cleanups := cleanups g + 1\<rparr>)"

datatype gen_event = EvCtxDone | EvSessionClosed | EvFailed "string option" | EvStateChanged | EvZeroDeadline

record gen_round =
  round_now :: int
  round_count :: nat
  round_ev :: gen_event
  ev_time :: int
  ev_count :: nat

text \<open>The start of the zero-path timer after the head of the loop, if it runs.\<close>

definition zero_timer :: "gen_round \<Rightarrow> int option \<Rightarrow> int option" where
  "zero_timer r since =
     (if round_count r = 0 then (case since of None \<Rightarrow> Some (round_now r) | Some t \<Rightarrow> Some t) else None)"

fun gen_wait_loop :: "int \<Rightarrow> int option \<Rightarrow> gen_round list \<Rightarrow> gen_error option" where
  "gen_wait_loop grace since [] = None"
| "gen_wait_loop grace since (r # rs) =
     (let since' = zero_timer r since in
      case round_ev r of
        EvCtxDone \<Rightarrow> Some GenCancelled
      | EvSessionClosed \<Rightarrow> Some GenSessionClosed
      | EvFailed e \<Rightarrow> Some (GenFailed (case e of Some m \<Rightarrow> m | None \<Rightarrow> ''failed''))
      | EvStateChanged \<Rightarrow> gen_wait_loop grace since' rs
      | EvZeroDeadline \<Rightarrow>
          (case since' of
             None \<Rightarrow> gen_wait_loop grace since' rs
           | Some t \<Rightarrow>
               if ev_time r < t + grace then gen_wait_loop grace since' rs
               else if ev_count r = 0 then Some GenNoPaths
               else gen_wait_loop grace None rs))"

definition gen_wait :: "bool \<Rightarrow> gen_round list \<Rightarrow> gen_error option" where
  "gen_wait has_session rs = (if \<not> has_session then Some GenNoSession else gen_wait_loop vlessBondZeroPathGrace None rs)"

section \<open>The session slot\<close>

text \<open>\<open>changed\<close> is the number of the current channel; every channel with a smaller number is closed.\<close>

record vlessBondSessionSlot =
  current_gen :: "gen_ref option"
  changed :: nat

definition newVLESSBondSessionSlot :: vlessBondSessionSlot where
  "newVLESSBondSessionSlot = \<lparr>current_gen = None, changed = 0\<rparr>"

definition notifyLocked :: "vlessBondSessionSlot \<Rightarrow> vlessBondSessionSlot" where
  "notifyLocked s = s\<lparr>changed := changed s + 1\<rparr>"

definition publish :: "gen_ref \<Rightarrow> vlessBondSessionSlot \<Rightarrow> vlessBondSessionSlot" where
  "publish g s = notifyLocked (s\<lparr>current_gen := Some g\<rparr>)"

definition slot_clear :: "gen_ref \<Rightarrow> vlessBondSessionSlot \<Rightarrow> vlessBondSessionSlot" where
  "slot_clear g s = (if current_gen s = Some g then notifyLocked (s\<lparr>current_gen := None\<rparr>) else s)"

text \<open>A waiter reads the generation and the channel together, and sleeps only while that channel is open.\<close>

definition slot_read :: "vlessBondSessionSlot \<Rightarrow> gen_ref option \<times> nat" where
  "slot_read s = (current_gen s, changed s)"

text \<open>The waiting loop over what it reads and whether the context ended; \<open>None\<close> is a loop still waiting.\<close>

fun slot_wait :: "(vlessBondSessionSlot \<times> bool) list \<Rightarrow> gen_ref option option" where
  "slot_wait [] = None"
| "slot_wait ((s, ctx_done) # rs) =
     (case slot_read s of
        (Some g, _) \<Rightarrow> Some (Some g)
      | (None, _) \<Rightarrow> if ctx_done then Some None else slot_wait rs)"

definition channel_closed :: "nat \<Rightarrow> vlessBondSessionSlot \<Rightarrow> bool" where
  "channel_closed c s \<longleftrightarrow> c < changed s"

section \<open>Delays\<close>

fun backoff :: "nat \<Rightarrow> int \<Rightarrow> int" where
  "backoff 0 delay = delay"
| "backoff (Suc n) delay =
     (if delay < 30 * second then backoff n (if delay * 2 > 30 * second then 30 * second else delay * 2) else delay)"

text \<open>\<open>int63n\<close> is \<open>rand.Int63n\<close>.\<close>

definition vlessBondGenerationRetryDelay :: "(int \<Rightarrow> int) \<Rightarrow> int \<Rightarrow> int" where
  "vlessBondGenerationRetryDelay int63n attempt =
     (let delay = backoff (nat attempt) second; half = go_div delay 2 in half + int63n (delay - half + 1))"

definition vlessBondPathRetryDelay :: "(int \<Rightarrow> int) \<Rightarrow> int \<Rightarrow> int" where
  "vlessBondPathRetryDelay int63n base =
     (let spread = go_div base 2 in if spread \<le> 0 then base else base + int63n (spread + 1))"

text \<open>\<open>done\<close> says whether the context ended first; with no delay, whether it had ended.\<close>

definition waitContextDelay :: "bool \<Rightarrow> bool \<Rightarrow> int \<Rightarrow> bool" where
  "waitContextDelay ended_before done delay = (if delay \<le> 0 then \<not> ended_before else \<not> done)"

definition shortBondID :: "string \<Rightarrow> string" where
  "shortBondID i = (if length i \<le> 8 then i else take 8 i)"

section \<open>The supervisor\<close>

datatype sup_call =
    Publish gen_ref | ClearSlot gen_ref | CloseGeneration gen_ref | RetryDelay int

record sup_state =
  attempt :: int
  slot :: vlessBondSessionSlot
  sup_metrics :: registry
  sup_calls :: "sup_call list"

text \<open>What one round of the loop meets: the state of the context when it is asked, the factory's
  result, the end of the generation, and the outcome of the wait before the next attempt.\<close>

record sup_round =
  ctx_at_head :: bool
  made :: "gen_ref option \<times> gen_error option"
  ctx_after :: bool
  gen_lifetime :: int
  retry_ctx_ended :: bool

definition sup_log :: "sup_call list \<Rightarrow> sup_state \<Rightarrow> sup_state" where
  "sup_log cs st = st\<lparr>sup_calls := sup_calls st @ cs\<rparr>"

text \<open>The common end of a round: count the reconnect, wait, and go on with the next attempt.\<close>

definition sup_retry :: "(int \<Rightarrow> int) \<Rightarrow> sup_round \<Rightarrow> sup_state \<Rightarrow> bool \<times> sup_state" where
  "sup_retry retryDelay rd st =
     (let st1 = sup_log [RetryDelay (retryDelay (attempt st))] (st\<lparr>sup_metrics := gauge SessionReconnected (sup_metrics st)\<rparr>)
      in if waitContextDelay (retry_ctx_ended rd) (retry_ctx_ended rd) (retryDelay (attempt st))
         then (True, st1\<lparr>attempt := attempt st1 + 1\<rparr>) else (False, st1))"

definition sup_step :: "(int \<Rightarrow> int) \<Rightarrow> sup_round \<Rightarrow> sup_state \<Rightarrow> bool \<times> sup_state" where
  "sup_step retryDelay rd st =
     (if ctx_at_head rd then (False, st)
      else case made rd of
        (Some g, None) \<Rightarrow>
          let st1 = sup_log [Publish g] (st\<lparr>slot := publish g (slot st), sup_metrics := gauge SessionOpened (sup_metrics st)\<rparr>);
              st2 = sup_log [ClearSlot g] (st1\<lparr>slot := slot_clear g (slot st1), sup_metrics := gauge SessionClosed (sup_metrics st1)\<rparr>);
              st3 = sup_log [CloseGeneration g] st2
          in if ctx_after rd then (False, st3)
             else sup_retry retryDelay rd
                    (if gen_lifetime rd \<ge> vlessBondStableGeneration then st3\<lparr>attempt := 0\<rparr> else st3)
      | _ \<Rightarrow> if ctx_after rd then (False, st) else sup_retry retryDelay rd st)"

fun superviseVLESSBond :: "(int \<Rightarrow> int) \<Rightarrow> sup_round list \<Rightarrow> sup_state \<Rightarrow> sup_state" where
  "superviseVLESSBond retryDelay [] st = st"
| "superviseVLESSBond retryDelay (rd # rds) st =
     (case sup_step retryDelay rd st of (go, st') \<Rightarrow> if go then superviseVLESSBond retryDelay rds st' else st')"

definition sup_init :: sup_state where
  "sup_init = \<lparr>attempt = 0, slot = newVLESSBondSessionSlot, sup_metrics = empty_registry None, sup_calls = []\<rparr>"

section \<open>Creating a generation\<close>

text \<open>
  \<open>createVLESSBondGeneration\<close> with what it meets: the random identifier (sixteen bytes, or the
  error of the random source), the rounds of the wait for the first path, and whether KCP and smux
  can be set up. The calls are those of the cleanup function, which runs at most once.
\<close>

datatype layer_call = CancelContext | CloseSmux | CloseKCP | CloseBonded | WaitPaths

record gen_env =
  random_id :: "string option"
  first_rounds :: "int \<Rightarrow> first_round list"
  kcp_fails :: bool
  smux_fails :: bool

record gen_parts =
  part_kcp :: bool
  part_smux :: bool
  part_cleaned :: bool
  layer_calls :: "layer_call list"

definition generation_cleanup :: "gen_parts \<Rightarrow> gen_parts" where
  "generation_cleanup p =
     (if part_cleaned p then p
      else p\<lparr>part_cleaned := True,
             layer_calls := layer_calls p @ [CancelContext] @ (if part_smux p then [CloseSmux] else []) @
               (if part_kcp p then [CloseKCP] else []) @ [CloseBonded, WaitPaths]\<rparr>)"

definition generateBondID :: "gen_env \<Rightarrow> string option" where
  "generateBondID env = map_option hex_encode (random_id env)"

definition generation_hello :: "tuningValues \<Rightarrow> string \<Rightarrow> int \<Rightarrow> int \<Rightarrow> BondHello option" where
  "generation_hello v bondID numSessions proto =
     (if proto = BondProtocolV2 then Some (CurrentBondHello v bondID numSessions)
      else if proto = BondProtocolV1 then
        Some \<lparr>Version = BondProtocolV1, BondID = bondID, ExpectedPaths = 0, MTU = 0, FECDataShards = 0, FECParityShards = 0\<rparr>
      else None)"

text \<open>The start delays of the path goroutines.\<close>

definition path_start_delays :: "int \<Rightarrow> int list" where
  "path_start_delays numSessions = map (\<lambda>i. int i * 300 * (second div 1000)) [0..<nat numSessions]"

text \<open>\<open>None\<close> is a creation that still waits for its first path.\<close>

definition createVLESSBondGeneration ::
  "tuningValues \<Rightarrow> gen_env \<Rightarrow> int \<Rightarrow> int \<Rightarrow> ((gen_error + BondHello) \<times> gen_parts) option" where
  "createVLESSBondGeneration v env numSessions proto =
     (let none = \<lparr>part_kcp = False, part_smux = False, part_cleaned = False, layer_calls = []\<rparr> in
      case generateBondID env of
        None \<Rightarrow> Some (Inl GenBondID, none)
      | Some bondID \<Rightarrow>
          (case generation_hello v bondID numSessions proto of
             None \<Rightarrow> Some (Inl (GenProtocol proto), none\<lparr>layer_calls := [CancelContext, CloseBonded]\<rparr>)
           | Some hello \<Rightarrow>
               (case waitForFirstBondPath proto numSessions (first_rounds env proto) of
                  None \<Rightarrow> None
                | Some (Some e) \<Rightarrow> Some (Inl e, generation_cleanup none)
                | Some None \<Rightarrow>
                    if kcp_fails env then Some (Inl GenKCP, generation_cleanup none)
                    else if smux_fails env then Some (Inl GenSmux, generation_cleanup (none\<lparr>part_kcp := True\<rparr>))
                    else Some (Inr hello, none\<lparr>part_kcp := True, part_smux := True\<rparr>))))"

text \<open>The factory of \<open>runSupervisedVLESSBondMode\<close>; a generation made is the pointer \<open>g\<close>.\<close>

definition generation_factory :: "tuningValues \<Rightarrow> gen_env \<Rightarrow> int \<Rightarrow> gen_ref \<Rightarrow> int \<Rightarrow> gen_ref option \<times> gen_error option" where
  "generation_factory v env numSessions g proto =
     (case createVLESSBondGeneration v env numSessions proto of
        Some (Inr _, _) \<Rightarrow> (Some g, None)
      | Some (Inl e, _) \<Rightarrow> (None, Some e)
      | None \<Rightarrow> (None, Some GenCancelled))"

section \<open>Accepting connections\<close>

datatype accept_call = CloseTCP | FailGeneration gen_ref string | PipeStream gen_ref | CloseStream

text \<open>One accepted connection: \<open>closed\<close> says whether a generation's session is closed, \<open>open_err\<close> how
  opening a stream on it fails.\<close>

definition accept_connection ::
  "vlessBondSessionSlot \<Rightarrow> (gen_ref \<Rightarrow> bool) \<Rightarrow> (gen_ref \<Rightarrow> string option) \<Rightarrow> accept_call list" where
  "accept_connection sl closed open_err =
     (case current_gen sl of
        None \<Rightarrow> [CloseTCP]
      | Some g \<Rightarrow>
          if closed g then [CloseTCP]
          else (case open_err g of
                  Some e \<Rightarrow> [FailGeneration g (''smux open stream: '' @ e), CloseTCP]
                | None \<Rightarrow> [PipeStream g, CloseStream, CloseTCP]))"

section \<open>Fallback\<close>

definition rejects :: "first_round \<Rightarrow> bool" where
  "rejects r = (case first_ev r of FirstSetup _ e \<Rightarrow> is_bond_hello_rejected e | _ \<Rightarrow> False)"

definition fails :: "first_round \<Rightarrow> bool" where
  "fails r = (case first_ev r of FirstSetup _ e \<Rightarrow> \<not> is_bond_hello_rejected e | _ \<Rightarrow> False)"

definition failed_ids :: "first_round list \<Rightarrow> int set" where
  "failed_ids rs = {i. \<exists>r e. r \<in> set rs \<and> first_ev r = FirstSetup i e}"

text \<open>What an unavailable V2 rests on: rounds without any path and without any rejection, of which
  the last is either the failure of the last path or the end of the grace after a first failure.\<close>

definition v2_silent :: "int \<Rightarrow> first_round list \<Rightarrow> bool" where
  "v2_silent expectedPaths rs \<longleftrightarrow>
     list_all (\<lambda>r. first_top r = 0 \<and> \<not> rejects r) rs \<and> list_ex fails rs \<and> first_inner (last rs) = 0 \<and>
     (first_ev (last rs) = FirstFallback \<or> expectedPaths \<le> int (card (failed_ids rs)))"

lemma failed_ids_snoc:
  "failed_ids (rs @ [r]) = failed_ids rs \<union> (case first_ev r of FirstSetup i _ \<Rightarrow> {i} | _ \<Rightarrow> {})"
  by (auto simp: failed_ids_def split: first_event.split)

text \<open>The loop's state describes the rounds behind it.\<close>

definition first_inv :: "first_round list \<Rightarrow> first_state \<Rightarrow> bool" where
  "first_inv past st \<longleftrightarrow>
     list_all (\<lambda>r. first_top r = 0 \<and> \<not> rejects r) past \<and> distinct (failedPaths st) \<and>
     set (failedPaths st) = failed_ids past \<and> (fallbackTimer st \<noteq> TimerUnset \<longrightarrow> list_ex fails past)"

lemma first_loop_unavailable:
  assumes "first_inv past st"
    and "first_loop BondProtocolV2 n st rs = Some (Some (GenV2Unavailable e))"
  shows "\<exists>seen rest. rs = seen @ rest \<and> v2_silent n (past @ seen)"
  using assms
proof (induction rs arbitrary: past st)
  case (Cons r rs)
  note inv = Cons.prems(1) and res = Cons.prems(2)
  have top: "first_top r = 0" using res by (auto split: if_splits)
  have go: "\<exists>seen rest. r # rs = seen @ rest \<and> v2_silent n (past @ seen)"
    if "first_inv (past @ [r]) st'" "first_loop BondProtocolV2 n st' rs = Some (Some (GenV2Unavailable e))" for st'
    using Cons.IH [OF that] by (metis append_Cons append_assoc append_self_conv2)
  show ?case
  proof (cases "first_ev r")
    case FirstCtxDone
    with res top show ?thesis by simp
  next
    case FirstStateChanged
    with inv top have "first_inv (past @ [r]) st"
      by (auto simp: first_inv_def rejects_def failed_ids_snoc)
    with go res top FirstStateChanged show ?thesis by simp
  next
    case FirstFallback
    have inv': "first_inv (past @ [r]) (st\<lparr>fallbackTimer := t\<rparr>)" if "t \<noteq> TimerUnset \<longrightarrow> list_ex fails past" for t
      using inv top FirstFallback that by (auto simp: first_inv_def rejects_def failed_ids_snoc)
    show ?thesis
    proof (cases "fallbackTimer st = TimerArmed \<and> first_inner r = 0")
      case True
      with inv top FirstFallback have "v2_silent n (past @ [r])"
        by (auto simp: first_inv_def v2_silent_def rejects_def)
      then show ?thesis by (metis append_Cons append_Nil)
    next
      case False
      define t where "t = (if fallbackTimer st = TimerArmed then TimerFired else fallbackTimer st)"
      have "first_loop BondProtocolV2 n (st\<lparr>fallbackTimer := t\<rparr>) rs = Some (Some (GenV2Unavailable e))"
        using False res top FirstFallback by (auto simp: t_def split: if_splits)
      moreover have "first_inv (past @ [r]) (st\<lparr>fallbackTimer := t\<rparr>)"
        using inv by (intro inv') (auto simp: t_def first_inv_def split: if_splits)
      ultimately show ?thesis by (intro go)
    qed
  next
    case (FirstSetup i err)
    define st' where "st' = st\<lparr>failedPaths := List.insert i (failedPaths st), lastSetupErr := Some err,
                     fallbackTimer := (if fallbackTimer st = TimerUnset then TimerArmed else fallbackTimer st)\<rparr>"
    have nrej: "\<not> is_bond_hello_rejected err"
      using res top FirstSetup by (auto simp: setup_event_def split: if_splits)
    have inv': "first_inv (past @ [r]) st'"
      using inv top FirstSetup nrej by (auto simp: first_inv_def st'_def rejects_def fails_def failed_ids_snoc)
    show ?thesis
    proof (cases "int (length (failedPaths st')) \<ge> n \<and> first_inner r = 0")
      case True
      have "length (failedPaths st') = card (failed_ids (past @ [r]))"
        using inv' by (metis first_inv_def distinct_card)
      with True inv' FirstSetup nrej have "v2_silent n (past @ [r])"
        by (auto simp: first_inv_def v2_silent_def fails_def)
      then show ?thesis by (metis append_Cons append_Nil)
    next
      case False
      with res top FirstSetup nrej have "first_loop BondProtocolV2 n st' rs = Some (Some (GenV2Unavailable e))"
        by (auto simp: setup_event_def st'_def Let_def BondProtocolV2_def split: if_splits)
      with go inv' show ?thesis by blast
    qed
  qed
qed simp

lemma create_fallback:
  assumes "create s factory = (res, s', protos, closed)"
  shows "sel_mode s' = sel_mode s \<and>
    (if sel_mode s = vlessBondProtocolAuto \<and> \<not> legacyV1 s \<and> is_v2_unavailable (snd (factory BondProtocolV2))
     then legacyV1 s' \<and> protos = [BondProtocolV2, BondProtocolV1] \<and> res = factory BondProtocolV1 \<and>
       closed = (case fst (factory BondProtocolV2) of None \<Rightarrow> [] | Some g \<Rightarrow> [g])
     else s' = s \<and> protos = [protocol s] \<and> res = factory (protocol s) \<and> closed = [])"
proof -
  obtain generation err where f: "factory BondProtocolV2 = (generation, err)" by fastforce
  have v: "BondProtocolV1 \<noteq> BondProtocolV2" by (simp add: BondProtocolV1_def BondProtocolV2_def)
  show ?thesis
  proof (cases "sel_mode s")
    case vlessBondProtocolAuto
    then show ?thesis
      using assms f v by (auto simp: create_def protocol_def Let_def split: if_split_asm prod.split_asm)
  qed (use assms in \<open>auto simp: create_def protocol_def Let_def split: prod.split_asm\<close>)
qed

lemma factory_unavailable:
  assumes "is_v2_unavailable (snd (generation_factory v env n g BondProtocolV2))"
  shows "\<exists>seen rest. first_rounds env BondProtocolV2 = seen @ rest \<and> v2_silent n seen"
proof -
  from assms obtain e where "waitForFirstBondPath BondProtocolV2 n (first_rounds env BondProtocolV2) = Some (Some (GenV2Unavailable e))"
    by (auto simp: generation_factory_def createVLESSBondGeneration_def is_v2_unavailable_def Let_def
        split: option.split_asm sum.split_asm prod.split_asm if_split_asm gen_error.split_asm)
  then have "first_loop BondProtocolV2 n first_init (first_rounds env BondProtocolV2) = Some (Some (GenV2Unavailable e))"
    by (simp add: waitForFirstBondPath_def split: if_splits)
  moreover have "first_inv [] first_init" by (simp add: first_inv_def first_init_def failed_ids_def)
  ultimately show ?thesis using first_loop_unavailable by fastforce
qed

text \<open>
  C34. The client falls back to V1 only when V2 goes unanswered. The selector leaves the configured mode alone; a
  forced mode uses its own version only; in automatic mode V1 is used after V2 was found
  unavailable, for good from then on, after closing what V2 had produced. And V2 is found
  unavailable only when no path was up, no server had rejected a hello, and
  either every path had failed its setup or the grace period after a first failure had run out.
\<close>

theorem fallback_only_on_silence:
  assumes "create s (generation_factory v env n g) = (res, s', protos, closed)"
  shows "sel_mode s' = sel_mode s \<and> (legacyV1 s \<longrightarrow> legacyV1 s') \<and>
    (sel_mode s = vlessBondProtocolV2 \<longrightarrow> protos = [BondProtocolV2]) \<and>
    (sel_mode s = vlessBondProtocolV1 \<or> sel_mode s = vlessBondProtocolAuto \<and> legacyV1 s \<longrightarrow> protos = [BondProtocolV1]) \<and>
    (legacyV1 s' \<and> \<not> legacyV1 s \<longrightarrow>
       sel_mode s = vlessBondProtocolAuto \<and> res = generation_factory v env n g BondProtocolV1 \<and>
       (\<exists>seen rest. first_rounds env BondProtocolV2 = seen @ rest \<and> v2_silent n seen)) \<and>
    (sel_mode s = vlessBondProtocolAuto \<and> \<not> legacyV1 s' \<longrightarrow> protos = [BondProtocolV2])"
  using create_fallback [OF assms] factory_unavailable [of v env n g]
  by (auto simp: protocol_def split: if_split_asm)

definition example_rounds :: "first_round list" where
  "example_rounds = [\<lparr>first_top = 0, first_ev = FirstSetup 0 UnterminatedRecord, first_inner = 0\<rparr>,
     \<lparr>first_top = 0, first_ev = FirstSetup 1 UnterminatedRecord, first_inner = 0\<rparr>]"

definition example_gen_env :: gen_env where
  "example_gen_env = \<lparr>random_id = Some (replicate 16 (CHR 0x11)),
     first_rounds = (\<lambda>p. if p = BondProtocolV2 then example_rounds else [\<lparr>first_top = 1, first_ev = FirstStateChanged, first_inner = 1\<rparr>]),
     kcp_fails = False, smux_fails = False\<rparr>"

theorem fallback_only_on_silence_witness:
  "fst (create (newVLESSBondProtocolSelector vlessBondProtocolAuto) (generation_factory example_tuning example_gen_env 2 5)) = (Some 5, None) \<and>
   (\<exists>seen rest. first_rounds example_gen_env BondProtocolV2 = seen @ rest \<and> v2_silent 2 seen)"
proof -
  let ?s = "newVLESSBondProtocolSelector vlessBondProtocolAuto" and ?f = "generation_factory example_tuning example_gen_env 2 5"
  have c: "create ?s ?f = (fst (create ?s ?f), fst (snd (create ?s ?f)), fst (snd (snd (create ?s ?f))), snd (snd (snd (create ?s ?f))))"
    by simp
  have "legacyV1 (fst (snd (create ?s ?f)))" "\<not> legacyV1 ?s" "fst (create ?s ?f) = (Some 5, None)" by code_simp+
  then show ?thesis using fallback_only_on_silence [OF c] by blast
qed

section \<open>The supervisor's generations\<close>

definition life :: "gen_ref \<Rightarrow> sup_call list" where
  "life g = [Publish g, ClearSlot g, CloseGeneration g]"

fun is_delay :: "sup_call \<Rightarrow> bool" where
  "is_delay (RetryDelay _) = True"
| "is_delay _ = False"

definition sup_ok :: "(int \<Rightarrow> int) \<Rightarrow> gen_ref set \<Rightarrow> sup_state \<Rightarrow> bool" where
  "sup_ok retryDelay G st \<longleftrightarrow>
     (\<exists>gs. filter (\<lambda>c. \<not> is_delay c) (sup_calls st) = concat (map life gs) \<and> set gs \<subseteq> G) \<and>
     current_gen (slot st) = None \<and> activeSessions (sup_metrics st) = 0 \<and> 0 \<le> attempt st \<and>
     sessionReconnects (sup_metrics st) = of_nat (length (filter is_delay (sup_calls st))) \<and>
     (\<forall>d. RetryDelay d \<in> set (sup_calls st) \<longrightarrow> (\<exists>a. 0 \<le> a \<and> d = retryDelay a))"

lemma sup_ok_init: "sup_ok retryDelay G sup_init"
  by (auto simp: sup_ok_def sup_init_def newVLESSBondSessionSlot_def empty_registry_def intro: exI [of _ "[]"])

lemma sup_ok_retry:
  assumes "sup_ok retryDelay G st"
  shows "sup_ok retryDelay G (snd (sup_retry retryDelay rd st))"
  using assms by (auto simp: sup_ok_def sup_retry_def sup_log_def Let_def)

lemma sup_ok_generation:
  assumes "sup_ok retryDelay G st" "g \<in> G"
  shows "sup_ok retryDelay G (sup_log (life g)
     (st\<lparr>slot := slot_clear g (publish g (slot st)), sup_metrics := gauge SessionClosed (gauge SessionOpened (sup_metrics st))\<rparr>))"
proof -
  from assms(1) obtain gs where gs: "filter (\<lambda>c. \<not> is_delay c) (sup_calls st) = concat (map life gs)" "set gs \<subseteq> G"
    by (auto simp: sup_ok_def)
  let ?calls = "sup_calls st @ life g"
  have "filter (\<lambda>c. \<not> is_delay c) ?calls = concat (map life (gs @ [g]))" "set (gs @ [g]) \<subseteq> G"
    using gs assms(2) by (simp_all add: life_def)
  moreover have "filter is_delay ?calls = filter is_delay (sup_calls st)"
    "RetryDelay d \<in> set ?calls \<longleftrightarrow> RetryDelay d \<in> set (sup_calls st)" for d
    by (simp_all add: life_def)
  moreover have "current_gen (slot_clear g (publish g (slot st))) = None"
    by (simp add: slot_clear_def publish_def notifyLocked_def)
  ultimately show ?thesis using assms(1) unfolding sup_ok_def sup_log_def
    by (intro conjI exI [of _ "gs @ [g]"]) auto
qed

lemma sup_ok_step:
  assumes "sup_ok retryDelay G st" "\<And>g. made rd = (Some g, None) \<Longrightarrow> g \<in> G"
  shows "sup_ok retryDelay G (snd (sup_step retryDelay rd st))"
proof (cases "ctx_at_head rd \<or> (\<nexists>g. made rd = (Some g, None))")
  case True
  with assms(1) show ?thesis
    by (auto simp: sup_step_def sup_ok_retry split: prod.split option.split)
next
  case False
  then obtain g where g: "made rd = (Some g, None)" "\<not> ctx_at_head rd" by blast
  define st3 where "st3 = sup_log (life g)
     (st\<lparr>slot := slot_clear g (publish g (slot st)), sup_metrics := gauge SessionClosed (gauge SessionOpened (sup_metrics st))\<rparr>)"
  have "sup_step retryDelay rd st = (if ctx_after rd then (False, st3)
      else sup_retry retryDelay rd (if gen_lifetime rd \<ge> vlessBondStableGeneration then st3\<lparr>attempt := 0\<rparr> else st3))"
    using g by (simp add: sup_step_def st3_def sup_log_def life_def Let_def)
  moreover have ok3: "sup_ok retryDelay G st3"
    unfolding st3_def using sup_ok_generation assms g(1) by blast
  moreover from ok3 have "sup_ok retryDelay G (st3\<lparr>attempt := 0\<rparr>)" by (simp add: sup_ok_def)
  ultimately show ?thesis by (simp add: sup_ok_retry)
qed

lemma sup_ok_run:
  assumes "sup_ok retryDelay G st" "\<And>rd g. rd \<in> set rds \<Longrightarrow> made rd = (Some g, None) \<Longrightarrow> g \<in> G"
  shows "sup_ok retryDelay G (superviseVLESSBond retryDelay rds st)"
  using assms
proof (induction rds arbitrary: st)
  case (Cons rd rds)
  have "sup_ok retryDelay G (snd (sup_step retryDelay rd st))"
    using Cons.prems by (intro sup_ok_step) auto
  moreover have "g \<in> G" if "rd' \<in> set rds" "made rd' = (Some g, None)" for rd' g
    using Cons.prems(2) that by auto
  moreover obtain go st' where "sup_step retryDelay rd st = (go, st')" by fastforce
  ultimately show ?case using Cons.IH [of st'] by (cases go) simp_all
qed simp


definition example_sup_rounds :: "sup_round list" where
  "example_sup_rounds =
     [\<lparr>ctx_at_head = False, made = (None, Some GenKCP), ctx_after = False, gen_lifetime = 0, retry_ctx_ended = False\<rparr>,
      \<lparr>ctx_at_head = False, made = (Some 4, None), ctx_after = True, gen_lifetime = 5, retry_ctx_ended = False\<rparr>]"


section \<open>Delays\<close>

lemma backoff_power:
  "backoff n (min (2 ^ k) 30 * second) = min (2 ^ (k + n)) 30 * second"
proof (induction n arbitrary: k)
  case (Suc n)
  show ?case
  proof (cases "(2::int) ^ k < 30")
    case True
    then have lt: "min (2 ^ k) 30 * second < 30 * second" by (simp add: second_def)
    have "(if min (2 ^ k) 30 * second * 2 > 30 * second then 30 * second else min (2 ^ k) 30 * second * 2) = min (2 ^ Suc k) 30 * second"
      using True by (simp add: second_def min_def)
    then have "backoff (Suc n) (min (2 ^ k) 30 * second) = backoff n (min (2 ^ Suc k) 30 * second)"
      by (simp only: backoff.simps lt if_True)
    with Suc [of "Suc k"] show ?thesis by simp
  next
    case False
    moreover have "(2::int) ^ k \<le> 2 ^ (k + Suc n)" by (intro power_increasing) simp_all
    ultimately show ?thesis by (simp add: min_def)
  qed
qed simp

text \<open>
  Retries back off within bounds. With a random source in its documented range, the wait after
  \<open>a\<close> failed attempts lies between half of and all of \<open>min (2^a) 30\<close> seconds, so never above 30 seconds and
  never below half a second, and a path's wait between its base and one and a half times its base; the random source
  is always asked for a positive range.
\<close>

theorem retry_delay_bounds:
  assumes "\<And>n. 0 < n \<Longrightarrow> 0 \<le> int63n n \<and> int63n n < n" and "0 \<le> a" and "0 \<le> base"
  shows "let d = min (2 ^ nat a) 30 * second in
    d div 2 \<le> vlessBondGenerationRetryDelay int63n a \<and> vlessBondGenerationRetryDelay int63n a \<le> d \<and>
    vlessBondGenerationRetryDelay int63n a \<le> 30 * second \<and> second div 2 \<le> vlessBondGenerationRetryDelay int63n a \<and>
    base \<le> vlessBondPathRetryDelay int63n base \<and> vlessBondPathRetryDelay int63n base \<le> base + base div 2"
proof -
  define d where "d = min (2 ^ nat a) 30 * second"
  have "(1::int) \<le> 2 ^ nat a" by simp
  then have d: "second \<le> d" "d \<le> 30 * second" by (auto simp: d_def second_def min_def)
  have "backoff (nat a) second = d" using backoff_power [of "nat a" 0] by (simp add: d_def)
  moreover have "go_div d 2 = d div 2" "go_div base 2 = base div 2"
    using d(1) assms(3) by (simp_all add: second_def)
  ultimately have e: "vlessBondGenerationRetryDelay int63n a = d div 2 + int63n (d - d div 2 + 1)"
    "vlessBondPathRetryDelay int63n base = (if base div 2 \<le> 0 then base else base + int63n (base div 2 + 1))"
    by (simp_all add: vlessBondGenerationRetryDelay_def vlessBondPathRetryDelay_def Let_def)
  have "0 < d - d div 2 + 1" using d(1) by (simp add: second_def)
  from assms(1) [OF this] have g: "d div 2 \<le> vlessBondGenerationRetryDelay int63n a" "vlessBondGenerationRetryDelay int63n a \<le> d"
    unfolding e by linarith+
  have "0 < base div 2 + 1" using assms(3) by linarith
  from assms(1) [OF this] have "base \<le> vlessBondPathRetryDelay int63n base" "vlessBondPathRetryDelay int63n base \<le> base + base div 2"
    unfolding e using assms(3) by (auto split: if_splits)
  moreover have "second div 2 \<le> d div 2" using d(1) by (rule zdiv_mono1) simp
  ultimately show ?thesis using g d unfolding Let_def d_def [symmetric] by linarith
qed

theorem retry_delay_bounds_witness:
  "vlessBondGenerationRetryDelay (\<lambda>n. n - 1) 3 \<le> 30 * second \<and> 2 * second \<le> vlessBondPathRetryDelay (\<lambda>n. n - 1) (2 * second)"
  using retry_delay_bounds [of "\<lambda>n. n - 1" 3 "2 * second"] by (simp add: Let_def second_def)

section \<open>The end of a generation\<close>

text \<open>A run of rounds that saw no path from its first head to its last event.\<close>

definition zero_run :: "int \<Rightarrow> gen_round list \<Rightarrow> bool" where
  "zero_run grace rs \<longleftrightarrow> rs \<noteq> [] \<and> list_all (\<lambda>r. round_count r = 0) rs \<and>
     ev_count (last rs) = 0 \<and> grace \<le> ev_time (last rs) - round_now (hd rs)"

lemma gen_wait_loop_zero:
  assumes "gen_wait_loop grace since rs = Some GenNoPaths"
    and "case since of None \<Rightarrow> zs = [] | Some t \<Rightarrow> zs \<noteq> [] \<and> round_now (hd zs) = t \<and> list_all (\<lambda>r. round_count r = 0) zs"
  shows "\<exists>pre run post. zs @ rs = pre @ run @ post \<and> zero_run grace run"
  using assms
proof (induction rs arbitrary: since zs)
  case (Cons r rs)
  define since' where "since' = zero_timer r since"
  define zs' where "zs' = (if round_count r = 0 then zs @ [r] else [])"
  have zs': "case since' of None \<Rightarrow> zs' = [] | Some t \<Rightarrow> zs' \<noteq> [] \<and> round_now (hd zs') = t \<and> list_all (\<lambda>r. round_count r = 0) zs'"
    using Cons.prems(2) by (auto simp: since'_def zs'_def zero_timer_def hd_append split: option.splits)
  define p where "p = (if round_count r = 0 then [] else zs @ [r])"
  have p: "zs @ [r] = p @ zs'" by (simp add: p_def zs'_def)
  have go: ?case if "gen_wait_loop grace s rs = Some GenNoPaths"
    "case s of None \<Rightarrow> z = [] | Some t \<Rightarrow> z \<noteq> [] \<and> round_now (hd z) = t \<and> list_all (\<lambda>r. round_count r = 0) z"
    "zs @ [r] = q @ z" for s z q
  proof -
    from Cons.IH [OF that(1,2)] obtain pre run post where "z @ rs = pre @ run @ post" "zero_run grace run" by blast
    then have "zs @ r # rs = (q @ pre) @ run @ post" using that(3) by (metis append.assoc append_Cons append_Nil)
    with \<open>zero_run grace run\<close> show ?thesis by blast
  qed
  show ?case
  proof (cases "round_ev r")
    case EvStateChanged
    with Cons.prems(1) go [OF _ zs' p] show ?thesis by (simp add: since'_def)
  next
    case EvZeroDeadline
    show ?thesis
    proof (cases since')
      case None
      with Cons.prems(1) EvZeroDeadline go [OF _ zs' p] show ?thesis by (simp add: since'_def)
    next
      case (Some t)
      then have z: "zs' = zs @ [r]" by (simp add: since'_def zs'_def zero_timer_def split: if_splits)
      show ?thesis
      proof (cases "t + grace \<le> ev_time r \<and> ev_count r = 0")
        case True
        then have "zero_run grace (zs @ [r])" using zs' Some z by (auto simp: zero_run_def)
        then show ?thesis by (metis append.assoc append_Cons append_Nil)
      next
        case False
        have "gen_wait_loop grace since' rs = Some GenNoPaths \<or> gen_wait_loop grace None rs = Some GenNoPaths"
          using Cons.prems(1) EvZeroDeadline Some False by (auto simp: since'_def split: if_splits)
        then show ?thesis using go [OF _ zs' p] go [where z = "[]" and s = None] by auto
      qed
    qed
  qed (use Cons.prems(1) in \<open>simp_all add: Let_def\<close>)
qed simp

text \<open>
  A generation is given up for lack of paths only after the grace period. If waiting on a generation
  ends with no active paths, then there was a run of rounds, at whose every head no path was
  counted, from whose first head to whose last event at least ten seconds passed, and at that
  event there was no path either; a generation without a session ends at once.
\<close>

theorem no_paths_only_after_grace:
  "(gen_wait has_session rs = Some GenNoPaths \<longrightarrow>
      (\<exists>pre run post. rs = pre @ run @ post \<and> zero_run vlessBondZeroPathGrace run)) \<and>
   (\<not> has_session \<longrightarrow> gen_wait has_session rs = Some GenNoSession)"
  using gen_wait_loop_zero [of vlessBondZeroPathGrace None rs "[]"] by (auto simp: gen_wait_def split: if_splits)

theorem no_paths_only_after_grace_witness:
  "gen_wait True [\<lparr>round_now = 0, round_count = 0, round_ev = EvZeroDeadline, ev_time = 10 * second, ev_count = 0\<rparr>] = Some GenNoPaths \<and>
   (\<exists>pre run post. [\<lparr>round_now = 0, round_count = 0, round_ev = EvZeroDeadline, ev_time = 10 * second, ev_count = 0\<rparr>] = pre @ run @ post \<and>
      zero_run vlessBondZeroPathGrace run)"
proof -
  let ?rs = "[\<lparr>round_now = 0, round_count = 0, round_ev = EvZeroDeadline, ev_time = 10 * second, ev_count = 0\<rparr>]"
  have "gen_wait True ?rs = Some GenNoPaths" by code_simp
  with no_paths_only_after_grace [of True ?rs] show ?thesis by blast
qed

section \<open>Cleanup and the slot\<close>

text \<open>Whatever fails, a creation that fails has released every layer it had set up, once.\<close>

lemma creation_releases:
  assumes "createVLESSBondGeneration v env n proto = Some (Inl e, parts)"
  shows "e = GenBondID \<and> layer_calls parts = [] \<or>
    distinct (layer_calls parts) \<and> CloseBonded \<in> set (layer_calls parts) \<and> CancelContext \<in> set (layer_calls parts) \<and>
    (part_kcp parts \<longrightarrow> CloseKCP \<in> set (layer_calls parts)) \<and> (part_smux parts \<longrightarrow> CloseSmux \<in> set (layer_calls parts))"
  using assms
  by (auto simp: createVLESSBondGeneration_def generation_cleanup_def Let_def split: option.split_asm if_split_asm)

lemma creation_keeps:
  "createVLESSBondGeneration v env n proto = Some (Inr hello, parts) \<Longrightarrow>
     layer_calls parts = [] \<and> part_kcp parts \<and> part_smux parts \<and> \<not> part_cleaned parts"
  by (auto simp: createVLESSBondGeneration_def Let_def split: option.split_asm if_split_asm)

lemma generation_cleanup_once: "generation_cleanup (generation_cleanup p) = generation_cleanup p"
  by (simp add: generation_cleanup_def)

text \<open>A late clear does not remove a newer generation, and a change always closes the channel a
  waiter holds, so no waiter sleeps through a publication.\<close>

lemma slot_clear_other: "g \<noteq> h \<Longrightarrow> slot_clear g (publish h s) = publish h s"
  by (simp add: slot_clear_def publish_def notifyLocked_def)

lemma slot_change_wakes:
  "current_gen (publish g s) \<noteq> fst (slot_read s) \<Longrightarrow> channel_closed (snd (slot_read s)) (publish g s)"
  "current_gen (slot_clear g s) \<noteq> fst (slot_read s) \<Longrightarrow> channel_closed (snd (slot_read s)) (slot_clear g s)"
  by (simp_all add: slot_read_def channel_closed_def publish_def slot_clear_def notifyLocked_def split: if_splits)

end
