(* ===== verification/Go_Files.thy ===== *)
theory Go_Files
  imports Go_Prelude
begin

text \<open>
  The files the server keeps: private regular files that are published atomically. A file system
  is a map from paths to files with kind, permission bits and contents; which system calls fail,
  the temporary name and a file that another process links at the same path first are the record
  \<open>os_env\<close>. The theory also has the lexical path functions of \<open>path/filepath\<close> the code uses.
\<close>

section \<open>Files and their checks\<close>

text \<open>A symbolic link says whether its target exists, which is all that \<open>os.Stat\<close> shows here;
  the contents of a link are those of its target.\<close>

datatype file_kind = RegularFile | SymbolicLink bool | OtherFile

record file_info =
  file_kind :: file_kind
  file_perm :: nat
  file_content :: string

type_synonym filesystem = "string \<rightharpoonup> file_info"

record os_env =
  on_windows :: bool
  lstat_fails :: bool
  read_fails :: bool
  rand_fails :: bool
  rand_bytes :: string
  temp_fails :: bool
  temp_name :: string
  chmod_fails :: bool
  write_fails :: bool
  sync_fails :: bool
  close_fails :: bool
  link_fails :: bool
  rival :: "file_info option"

text \<open>Mode \<open>0600\<close>, and the check \<open>Perm() & 0o077 != 0\<close>.\<close>

definition private_mode :: nat where "private_mode = 384"

definition too_broad :: "nat \<Rightarrow> bool" where "too_broad perm \<longleftrightarrow> perm mod 64 \<noteq> 0"

definition is_symlink :: "file_info \<Rightarrow> bool" where
  "is_symlink f \<longleftrightarrow> (case file_kind f of SymbolicLink _ \<Rightarrow> True | _ \<Rightarrow> False)"

text \<open>The check shared by the token and the identity file.\<close>

datatype private_error = PrivStat | PrivNotExist | PrivSymlink | PrivNotRegular | PrivPermissions nat

definition check_private :: "os_env \<Rightarrow> filesystem \<Rightarrow> string \<Rightarrow> private_error + file_info" where
  "check_private env fs path =
     (if lstat_fails env then Inl PrivStat
      else case fs path of
        None \<Rightarrow> Inl PrivNotExist
      | Some f \<Rightarrow>
          if is_symlink f then Inl PrivSymlink
          else if file_kind f \<noteq> RegularFile then Inl PrivNotRegular
          else if \<not> on_windows env \<and> too_broad (file_perm f) then Inl (PrivPermissions (file_perm f))
          else Inr f)"

section \<open>Atomic publication\<close>

text \<open>
  A file is written to a temporary name, made private, synced, closed, and hard-linked to its path;
  the temporary name is removed on every return. A failed write may leave any contents, which go
  with the temporary file.
\<close>

datatype publish_result =
    PublishTemp | PublishChmod | PublishWrite | PublishClose | PublishLink | PublishExists | Published

definition private_file :: "string \<Rightarrow> file_info" where
  "private_file content = \<lparr>file_kind = RegularFile, file_perm = private_mode, file_content = content\<rparr>"

definition link_file :: "os_env \<Rightarrow> filesystem \<Rightarrow> string \<Rightarrow> publish_result \<times> filesystem" where
  "link_file env fs path =
     (let fs1 = (case rival env of
                   None \<Rightarrow> fs
                 | Some f \<Rightarrow> if fs path = None then fs(path \<mapsto> f) else fs)
      in if link_fails env then (PublishLink, fs1)
         else case fs1 path of
           Some _ \<Rightarrow> (PublishExists, fs1)
         | None \<Rightarrow> (Published, fs1(path := fs1 (temp_name env))))"

definition publish_file :: "os_env \<Rightarrow> filesystem \<Rightarrow> string \<Rightarrow> string \<Rightarrow> publish_result \<times> filesystem" where
  "publish_file env fs path content =
     (let tmp = temp_name env;
          created = fs(tmp \<mapsto> private_file []);
          written = fs(tmp \<mapsto> private_file content);
          done = (\<lambda>(r, fs'). (r, fs'(tmp := None)))
      in if temp_fails env then (PublishTemp, fs)
         else if chmod_fails env then done (PublishChmod, created)
         else if write_fails env then done (PublishWrite, created)
         else if sync_fails env then done (PublishWrite, written)
         else if close_fails env then done (PublishClose, written)
         else done (link_file env written path))"

lemma private_file_ok [simp]:
  "file_kind (private_file c) = RegularFile" "\<not> too_broad (file_perm (private_file c))"
  "file_content (private_file c) = c" "\<not> is_symlink (private_file c)"
  by (simp_all add: private_file_def too_broad_def private_mode_def is_symlink_def)

lemma check_private_file: "\<not> lstat_fails env \<Longrightarrow> fs path = Some (private_file c) \<Longrightarrow> check_private env fs path = Inr (private_file c)"
  by (simp add: check_private_def)

lemma check_private_sound:
  "check_private env fs path = Inr f \<Longrightarrow>
     fs path = Some f \<and> file_kind f = RegularFile \<and> (on_windows env \<or> \<not> too_broad (file_perm f))"
  by (auto simp: check_private_def split: if_split_asm option.split_asm)

lemma check_private_missing:
  "check_private env fs path = Inl PrivNotExist \<longleftrightarrow> \<not> lstat_fails env \<and> fs path = None"
  by (auto simp: check_private_def split: if_split_asm option.split_asm)

lemma check_private_local: "fs path = fs' path \<Longrightarrow> check_private env fs path = check_private env fs' path"
  by (simp add: check_private_def)

text \<open>Publication touches only its path, never replaces a file, and on success the path has
  exactly the contents; a rival's file is kept.\<close>

lemma publish_file_cases:
  assumes "temp_name env \<noteq> path" "fs (temp_name env) = None" "publish_file env fs path c = (r, fs')"
  shows "q \<noteq> path \<Longrightarrow> fs' q = fs q"
    and "fs path = Some f \<Longrightarrow> fs' path = Some f \<and> r \<noteq> Published"
    and "r = Published \<Longrightarrow> fs path = None \<and> rival env = None \<and> fs' path = Some (private_file c)"
    and "r = PublishExists \<Longrightarrow> fs' path \<noteq> None \<and> (fs path = None \<longrightarrow> fs' path = rival env)"
    and "fs path = None \<Longrightarrow> fs' path = None \<or> fs' path = rival env \<or> r = Published"
  using assms
  by (auto simp: publish_file_def link_file_def Let_def split: if_split_asm option.split_asm)

section \<open>Paths\<close>

text \<open>\<open>filepath.Clean\<close> for slash-separated paths: the elements are read from the left, the output
  kept in reverse.\<close>

fun clean_elems :: "bool \<Rightarrow> string list \<Rightarrow> string list \<Rightarrow> string list" where
  "clean_elems rooted out [] = rev out"
| "clean_elems rooted out (e # es) =
     (if e = [] \<or> e = ''.'' then clean_elems rooted out es
      else if e = ''..'' then
        (case out of
           [] \<Rightarrow> if rooted then clean_elems rooted [] es else clean_elems rooted [''..''] es
         | o' # os \<Rightarrow> if o' = ''..'' then clean_elems rooted (''..'' # out) es else clean_elems rooted os es)
      else clean_elems rooted (e # out) es)"

definition Clean :: "string \<Rightarrow> string" where
  "Clean path =
     (let rooted = has_prefix path ''/'';
          body = join_with ''/'' (clean_elems rooted [] (split_char (CHR ''/'') path))
      in if rooted then CHR ''/'' # body else if body = [] then ''.'' else body)"

text \<open>Cleaning is idempotent on the elements it returns: they are non-empty, not \<open>.\<close>, and \<open>..\<close>
  only at the front of a relative path.\<close>

lemma clean_elems_plain:
  "list_all (\<lambda>e. e \<noteq> [] \<and> e \<noteq> ''.'' \<and> e \<noteq> ''..'') es \<Longrightarrow> clean_elems rooted out es = rev out @ es"
  by (induction es arbitrary: out) auto

end
