(* ===== verification/Session_Auth.thy ===== *)
theory Session_Auth
  imports Go_Files
begin

text \<open>
  \<open>src/sessionauth/sessionauth.go\<close>: the client token and its exchange. A token is its 32 bytes.
  The token file is a private file of \<open>Go_Files\<close>. An exchange on a
  connection uses its outcomes (\<open>conn_io\<close>) and returns the payloads written.
\<close>

definition tokenBytes :: nat where "tokenBytes = 32"

definition encodedTokenSize :: nat where "encodedTokenSize = tokenBytes * 2"

definition authPrefix :: string where "authPrefix = ''VKTA'' @ [CHR 0x01]"

definition authOK :: string where "authOK = ''VKTA'' @ [CHR 0x01] @ ''OK''"

definition authDenied :: string where "authDenied = ''VKTA'' @ [CHR 0x01] @ ''NO''"

section \<open>Token files\<close>

datatype token_error =
    TokenPathRequired | TokenFile private_error | TokenRead | TokenSize | TokenDecode | TokenAllZero
  | TokenGenerate | TokenPublish publish_result

definition zero_token :: string where "zero_token = replicate tokenBytes (CHR 0x00)"

text \<open>The decoding of the file's contents.\<close>

definition decode_token :: "string \<Rightarrow> token_error + string" where
  "decode_token encoded =
     (let normalized = TrimSpace encoded in
      if length normalized \<noteq> encodedTokenSize then Inl TokenSize
      else case hex_decode normalized of
        None \<Rightarrow> Inl TokenDecode
      | Some decoded \<Rightarrow> if decoded = zero_token then Inl TokenAllZero else Inr decoded)"

definition LoadTokenFile :: "os_env \<Rightarrow> filesystem \<Rightarrow> string \<Rightarrow> token_error + string" where
  "LoadTokenFile env fs rawPath =
     (let path = TrimSpace rawPath in
      if path = [] then Inl TokenPathRequired
      else case check_private env fs path of
        Inl e \<Rightarrow> Inl (TokenFile e)
      | Inr f \<Rightarrow> if read_fails env then Inl TokenRead else decode_token (file_content f))"

text \<open>The load after a lost race sees the path as the publication left it; the temporary file,
  removed by the deferred call, is another path.\<close>

definition LoadOrCreateTokenFile ::
  "os_env \<Rightarrow> filesystem \<Rightarrow> string \<Rightarrow> (token_error + (string \<times> bool)) \<times> filesystem" where
  "LoadOrCreateTokenFile env fs rawPath =
     (let path = TrimSpace rawPath in
      if path = [] then (Inl TokenPathRequired, fs)
      else case LoadTokenFile env fs path of
        Inr token \<Rightarrow> (Inr (token, False), fs)
      | Inl e \<Rightarrow>
          if e \<noteq> TokenFile PrivNotExist then (Inl e, fs)
          else if rand_fails env then (Inl TokenGenerate, fs)
          else
            let (r, fs') = publish_file env fs path (hex_encode (rand_bytes env) @ [CHR 0x0A])
            in case r of
                 Published \<Rightarrow> (Inr (rand_bytes env, True), fs')
               | PublishExists \<Rightarrow> (map_sum id (\<lambda>t. (t, False)) (LoadTokenFile env fs' path), fs')
               | _ \<Rightarrow> (Inl (TokenPublish r), fs'))"

section \<open>The exchange\<close>

datatype auth_error =
    AuthDeadline io_err | AuthSend io_err | AuthShortWrite | AuthReadAck io_err | AuthRejected
  | AuthRead io_err | AuthFailed | AuthAck io_err

datatype write_error = WriteFailed io_err | WriteShort

definition writeFull :: "conn_io \<Rightarrow> string \<Rightarrow> write_error option" where
  "writeFull conn payload =
     (case conn_write conn payload of
        (_, Some e) \<Rightarrow> Some (WriteFailed e)
      | (n, None) \<Rightarrow> if n \<noteq> length payload then Some WriteShort else None)"

text \<open>\<open>subtle.ConstantTimeCompare\<close> is equality, with every byte looked at.\<close>

definition ConstantTimeCompare :: "string \<Rightarrow> string \<Rightarrow> bool" where
  "ConstantTimeCompare xs ys \<longleftrightarrow> length xs = length ys \<and> list_all2 (=) xs ys"

definition Authenticate :: "conn_io \<Rightarrow> string \<Rightarrow> auth_error option \<times> string list" where
  "Authenticate conn token =
     (case set_deadline conn of
        Some e \<Rightarrow> (Some (AuthDeadline e), [])
      | None \<Rightarrow>
          let frame = authPrefix @ token in
          case writeFull conn frame of
            Some (WriteFailed e) \<Rightarrow> (Some (AuthSend e), [frame])
          | Some WriteShort \<Rightarrow> (Some AuthShortWrite, [frame])
          | None \<Rightarrow>
              (case conn_read conn (length authOK + 1) of
                 (_, Some e) \<Rightarrow> (Some (AuthReadAck e), [frame])
               | (response, None) \<Rightarrow>
                   if length response \<noteq> length authOK \<or> \<not> ConstantTimeCompare response authOK
                   then (Some AuthRejected, [frame]) else (None, [frame])))"

definition Verify :: "conn_io \<Rightarrow> string \<Rightarrow> auth_error option \<times> string list" where
  "Verify conn token =
     (case set_deadline conn of
        Some e \<Rightarrow> (Some (AuthDeadline e), [])
      | None \<Rightarrow>
          let expected = authPrefix @ token;
              (frame, readErr) = conn_read conn (length expected + 1);
              valid = (readErr = None \<and> length frame = length expected \<and> ConstantTimeCompare frame expected)
          in if \<not> valid then
               (case readErr of Some e \<Rightarrow> Some (AuthRead e) | None \<Rightarrow> Some AuthFailed, [authDenied])
             else (case writeFull conn authOK of
                     Some (WriteFailed e) \<Rightarrow> (Some (AuthAck e), [authOK])
                   | Some WriteShort \<Rightarrow> (Some AuthShortWrite, [authOK])
                   | None \<Rightarrow> (None, [authOK])))"

section \<open>Properties of the exchange\<close>

lemma ConstantTimeCompare_eq [simp]: "ConstantTimeCompare xs ys \<longleftrightarrow> xs = ys"
  by (auto simp: ConstantTimeCompare_def list_all2_eq [symmetric])

lemma writeFull_datagram [simp]: "writeFull (datagram_conn d) p = None"
  by (simp add: writeFull_def datagram_conn_def)

lemma auth_frames:
  "length authOK = 7" "length authDenied = 7" "length authPrefix = 5" "authDenied \<noteq> authOK"
  by (simp_all add: authOK_def authDenied_def authPrefix_def)

lemma Verify_accepts:
  "fst (Verify conn token) = None \<Longrightarrow>
     conn_read conn (length authPrefix + length token + 1) = (authPrefix @ token, None) \<and> snd (Verify conn token) = [authOK]"
  by (auto simp: Verify_def Let_def split: option.splits prod.splits write_error.splits)

text \<open>
  The server accepts a client only on the exact first datagram: if \<open>Verify\<close> succeeds, the
  client's first record was the protocol prefix followed by the server's token and nothing else,
  and the server answered OK; in every other case no OK is ever written.
\<close>

theorem verify_only_exact_frame:
  "(fst (Verify conn token) = None \<longrightarrow>
      conn_read conn (length authPrefix + length token + 1) = (authPrefix @ token, None) \<and>
      snd (Verify conn token) = [authOK]) \<and>
   (conn_read conn (length authPrefix + length token + 1) \<noteq> (authPrefix @ token, None) \<longrightarrow>
      authOK \<notin> set (snd (Verify conn token)) \<and> fst (Verify conn token) \<noteq> None)"
  using auth_frames(4)
  by (auto simp: Verify_def Let_def split: option.splits prod.splits write_error.splits)

theorem verify_only_exact_frame_witness:
  "fst (Verify (datagram_conn (authPrefix @ ''abc'')) ''abd'') \<noteq> None \<and>
   fst (Verify (datagram_conn (authPrefix @ ''abc'')) ''abc'') = None"
proof -
  have "conn_read (datagram_conn (authPrefix @ ''abc'')) (length authPrefix + length ''abd'' + 1) \<noteq> (authPrefix @ ''abd'', None)"
    by (simp add: datagram_conn_def authPrefix_def)
  with verify_only_exact_frame [of "datagram_conn (authPrefix @ ''abc'')" "''abd''"]
  have "fst (Verify (datagram_conn (authPrefix @ ''abc'')) ''abd'') \<noteq> None" by blast
  moreover have "fst (Verify (datagram_conn (authPrefix @ ''abc'')) ''abc'') = None" by code_simp
  ultimately show ?thesis by blast
qed

lemma Verify_datagram:
  assumes "length client = length server"
  shows "Verify (datagram_conn (authPrefix @ client)) server =
    (if client = server then (None, [authOK]) else (Some AuthFailed, [authDenied]))"
  using assms by (simp add: Verify_def datagram_conn_def Let_def writeFull_def)

lemma Authenticate_datagram:
  "Authenticate (datagram_conn authOK) token = (None, [authPrefix @ token])"
  "Authenticate (datagram_conn authDenied) token = (Some AuthRejected, [authPrefix @ token])"
  by (simp_all add: Authenticate_def datagram_conn_def writeFull_def auth_frames Let_def)

text \<open>
  Both ends agree: when the client's only frame reaches the server as one datagram and the
  server's answer reaches the client, the server admits the client and the client goes on exactly
  when the tokens are equal; otherwise the server fails the authentication and the client gets
  the explicit rejection.
\<close>

theorem token_exchange:
  assumes "length client = tokenBytes" "length server = tokenBytes"
    and "Authenticate (datagram_conn reply) client = (cerr, [frame])"
    and "Verify (datagram_conn frame) server = (serr, [reply])"
  shows "(serr = None \<longleftrightarrow> client = server) \<and> (cerr = None \<longleftrightarrow> client = server) \<and>
    (client \<noteq> server \<longrightarrow> serr = Some AuthFailed \<and> cerr = Some AuthRejected)"
proof -
  have frame: "frame = authPrefix @ client"
    using assms(3) by (simp add: Authenticate_def datagram_conn_def writeFull_def Let_def split: if_splits)
  have v: "Verify (datagram_conn frame) server =
      (if client = server then (None, [authOK]) else (Some AuthFailed, [authDenied]))"
    using assms(1,2) Verify_datagram unfolding frame by simp
  then have "reply = (if client = server then authOK else authDenied)"
    using assms(4) by (simp split: if_splits)
  then show ?thesis
    using assms(3,4) v Authenticate_datagram [of client] by (auto split: if_splits)
qed

theorem token_exchange_witness:
  "Verify (datagram_conn (authPrefix @ replicate 32 (CHR ''a''))) (replicate 32 (CHR ''b'')) = (Some AuthFailed, [authDenied])"
proof -
  let ?a = "replicate 32 (CHR ''a'')" and ?b = "replicate 32 (CHR ''b'')"
  have l: "length ?a = tokenBytes" "length ?b = tokenBytes" by (simp_all add: tokenBytes_def)
  have d: "Verify (datagram_conn (authPrefix @ ?a)) ?b = (fst (Verify (datagram_conn (authPrefix @ ?a)) ?b), [authDenied])"
    by code_simp
  have "?a \<noteq> ?b" by code_simp
  with token_exchange [OF l Authenticate_datagram(2) d] d show ?thesis by metis
qed

section \<open>Properties of the token file\<close>

text \<open>A token a process accepts was in a private regular file; loading does not depend on anything else.\<close>

lemma decode_token_sound:
  assumes "decode_token c = Inr t"
  shows "length t = tokenBytes" "t \<noteq> zero_token"
  using assms hex_decode_length [of "TrimSpace c" t]
  by (simp_all add: decode_token_def Let_def encodedTokenSize_def split: if_split_asm option.split_asm)

lemma LoadTokenFile_private:
  assumes "LoadTokenFile env fs path = Inr t"
  shows "\<exists>f. fs (TrimSpace path) = Some f \<and> file_kind f = RegularFile \<and>
    (on_windows env \<or> \<not> too_broad (file_perm f)) \<and> decode_token (file_content f) = Inr t"
  using assms check_private_sound
  by (fastforce simp: LoadTokenFile_def Let_def split: if_split_asm sum.split_asm)

lemma decode_encode_token:
  assumes "length t = tokenBytes" "t \<noteq> zero_token"
  shows "decode_token (hex_encode t @ [CHR 0x0A]) = Inr t"
proof -
  have g: "list_all graphic (hex_encode t)" by (rule hex_encode_graphic)
  have ne: "hex_encode t \<noteq> []" using assms(1) by (cases t) (simp_all add: tokenBytes_def)
  have "TrimSpace (hex_encode t @ [CHR 0x0A]) = hex_encode t"
    using g ne by (intro TrimSpace_newline) (simp_all add: list_all_iff)
  then show ?thesis
    using assms by (simp add: decode_token_def Let_def encodedTokenSize_def)
qed

lemma load_written_token:
  assumes "TrimSpace path = path" "path \<noteq> []" "\<not> lstat_fails env" "\<not> read_fails env"
    and "length t = tokenBytes" "t \<noteq> zero_token"
    and "fs path = Some (private_file (hex_encode t @ [CHR 0x0A]))"
  shows "LoadTokenFile env fs path = Inr t"
  using assms decode_encode_token check_private_file by (simp add: LoadTokenFile_def)

lemma load_missing:
  "LoadTokenFile env fs path = Inl (TokenFile PrivNotExist) \<Longrightarrow> \<not> lstat_fails env \<and> fs (TrimSpace path) = None"
  by (auto simp: LoadTokenFile_def decode_token_def Let_def check_private_missing
      split: if_split_asm option.split_asm sum.split_asm)

lemma load_empty_path [simp]: "LoadTokenFile env fs [] = Inl TokenPathRequired"
  by (simp add: LoadTokenFile_def TrimSpace_graphic)

lemma create_either:
  assumes "TrimSpace path = path" "LoadOrCreateTokenFile env fs path = (r, fs')"
  shows "(fs' = fs \<and> (\<forall>t c. r = Inr (t, c) \<longrightarrow> \<not> c \<and> LoadTokenFile env fs path = Inr t)) \<or>
    (LoadTokenFile env fs path = Inl (TokenFile PrivNotExist) \<and>
     (\<exists>res. publish_file env fs path (hex_encode (rand_bytes env) @ [CHR 0x0A]) = (res, fs') \<and>
        (\<forall>t c. r = Inr (t, c) \<longrightarrow> res = Published \<and> c \<and> t = rand_bytes env \<or>
           res = PublishExists \<and> \<not> c \<and> LoadTokenFile env fs' path = Inr t)))"
proof (cases "path = []")
  case True
  with assms show ?thesis by (simp add: LoadOrCreateTokenFile_def) auto
next
  case False
  show ?thesis
  proof (cases "LoadTokenFile env fs path")
    case (Inr t)
    with assms False show ?thesis by (auto simp: LoadOrCreateTokenFile_def)
  next
    case (Inl e)
    with assms False show ?thesis
      by (auto simp: LoadOrCreateTokenFile_def Let_def map_sum_def
          split: if_split_asm prod.split_asm publish_result.split_asm sum.split_asm)
  qed
qed

lemma token_file_once:
  assumes "TrimSpace path = path" "path \<noteq> []" "temp_name env \<noteq> path" "fs (temp_name env) = None"
    and "length (rand_bytes env) = tokenBytes" "rand_bytes env \<noteq> zero_token" "\<not> read_fails env"
    and "LoadOrCreateTokenFile env fs path = (r, fs')"
  shows "(\<forall>q. q \<noteq> path \<longrightarrow> fs' q = fs q) \<and>
    (\<forall>f. fs path = Some f \<longrightarrow> fs' path = Some f) \<and>
    (\<forall>f t c. rival env = Some f \<longrightarrow> r = Inr (t, c) \<longrightarrow> \<not> c) \<and>
    (\<forall>t. r = Inr (t, True) \<longrightarrow> fs path = None \<and> (\<exists>f. fs' path = Some f \<and> file_perm f = private_mode)) \<and>
    (\<forall>t c. r = Inr (t, c) \<longrightarrow> LoadTokenFile env fs' path = Inr t)"
  using create_either [OF assms(1,8)]
proof (elim disjE conjE exE)
  fix res
  assume missing: "LoadTokenFile env fs path = Inl (TokenFile PrivNotExist)"
    and pub: "publish_file env fs path (hex_encode (rand_bytes env) @ [CHR 0x0A]) = (res, fs')"
    and res: "\<forall>t c. r = Inr (t, c) \<longrightarrow> res = Published \<and> c \<and> t = rand_bytes env \<or>
           res = PublishExists \<and> \<not> c \<and> LoadTokenFile env fs' path = Inr t"
  have none: "\<not> lstat_fails env" "fs path = None" using load_missing [OF missing] assms(1) by simp_all
  note f = publish_file_cases [OF assms(3,4) pub]
  have load: "LoadTokenFile env fs' path = Inr t" if "r = Inr (t, c)" for t c
    using res that f(3) load_written_token [OF assms(1,2) none(1) assms(7,5,6), of fs'] by auto
  show ?thesis
    using f(1,3) none res load by (auto simp: private_file_def)
qed (use assms in auto)

text \<open>
  C33. The token file is created at most once and never overwritten. For a trimmed path and a
  fresh temporary name: a file that exists at the path, or that a rival process links there
  first, stays as it is; no other file changes and the temporary file is gone; a token is reported
  as created only if there was none, and the file then is private (mode 0600) and
  contains it; and every token returned is the one later calls of \<open>LoadTokenFile\<close> read, so that
  two racing servers agree.
\<close>

theorem token_file_created_once:
  assumes "TrimSpace path = path" "path \<noteq> []" "temp_name env \<noteq> path" "fs (temp_name env) = None"
    and "length (rand_bytes env) = tokenBytes" "rand_bytes env \<noteq> zero_token" "\<not> read_fails env"
    and "LoadOrCreateTokenFile env fs path = (r, fs')"
  shows "(\<forall>q. q \<noteq> path \<longrightarrow> fs' q = fs q) \<and>
    (\<forall>f. fs path = Some f \<longrightarrow> fs' path = Some f) \<and>
    (\<forall>f t c. rival env = Some f \<longrightarrow> r = Inr (t, c) \<longrightarrow> \<not> c) \<and>
    (\<forall>t. r = Inr (t, True) \<longrightarrow> fs path = None \<and> (\<exists>f. fs' path = Some f \<and> file_perm f = private_mode)) \<and>
    (\<forall>t c. r = Inr (t, c) \<longrightarrow> LoadTokenFile env fs' path = Inr t)"
  by (rule token_file_once [OF assms])

definition example_env :: os_env where
  "example_env = \<lparr>on_windows = False, lstat_fails = False, read_fails = False, rand_fails = False,
     rand_bytes = replicate 32 (CHR 0xAB), temp_fails = False, temp_name = ''.t.tmp-1'',
     chmod_fails = False, write_fails = False, sync_fails = False, close_fails = False,
     link_fails = False, rival = None\<rparr>"

theorem token_file_created_once_witness:
  "LoadTokenFile example_env (snd (LoadOrCreateTokenFile example_env Map.empty ''t'')) ''t'' =
     Inr (replicate 32 (CHR 0xAB))"
proof -
  have t: "TrimSpace ''t'' = ''t''" "''t'' \<noteq> []" "temp_name example_env \<noteq> ''t''"
      "length (rand_bytes example_env) = tokenBytes" "rand_bytes example_env \<noteq> zero_token" "\<not> read_fails example_env"
    by code_simp+
  have "fst (LoadOrCreateTokenFile example_env Map.empty ''t'') = Inr (replicate 32 (CHR 0xAB), True)"
    by code_simp
  then show ?thesis
    using token_file_created_once [OF t(1-3) _ t(4-6), of Map.empty _ "snd (LoadOrCreateTokenFile example_env Map.empty ''t'')"]
    by (metis prod.collapse)
qed

end
