(* ===== verification/Dtls_Auth.thy ===== *)
theory Dtls_Auth
  imports Go_Files
begin

text \<open>
  \<open>src/dtlsauth/auth.go\<close>, \<open>src/server/dtls_identity.go\<close> and \<open>src/client/dtls_config.go\<close>: the DTLS
  identity of the server and how the client checks it. The cryptographic libraries (digest, key
  pairs, certificates, PEM, key generation) are the record \<open>crypto\<close>, a parameter of every
  definition that calls them. A certificate is its DER bytes; of a parsed leaf the code looks
  only at the type of the public key. Paths name files by their cleaned form, as on Unix.
\<close>

section \<open>Fingerprints\<close>

definition fingerprintBytes :: nat where "fingerprintBytes = 32"

datatype authenticationMode = authenticationUnset | authenticationPinned | authenticationInsecure

type_synonym Fingerprint = string

record ClientAuthentication =
  auth_mode :: authenticationMode
  expected_pin :: Fingerprint

definition zero_fingerprint :: Fingerprint where
  "zero_fingerprint = replicate fingerprintBytes (CHR 0x00)"

definition unset_authentication :: ClientAuthentication where
  "unset_authentication = \<lparr>auth_mode = authenticationUnset, expected_pin = zero_fingerprint\<rparr>"

datatype dtls_error =
    FingerprintEmpty | FingerprintPairCount | FingerprintPairLength | FingerprintLength | FingerprintDecode
  | NoLeaf | PinAndInsecure | PinRequired | NotConfigured
  | IdentityFilesTogether | IdentityStat | IdentityGenerate | IdentityMarshal | IdentityPublish publish_result
  | IdentityFile private_error | IdentityLoad | IdentitySelfSign | IdentityParse | UnsupportedKey

definition ParseFingerprint :: "string \<Rightarrow> dtls_error + Fingerprint" where
  "ParseFingerprint raw =
     (let value = TrimSpace raw; parts = split_char (CHR '':'') value; colon = CHR '':'' \<in> set value;
          normalized = (if colon then concat parts else value)
      in if value = [] then Inl FingerprintEmpty
         else if colon \<and> length parts \<noteq> fingerprintBytes then Inl FingerprintPairCount
         else if colon \<and> list_ex (\<lambda>p. length p \<noteq> 2) parts then Inl FingerprintPairLength
         else if length normalized \<noteq> fingerprintBytes * 2 then Inl FingerprintLength
         else case hex_decode normalized of
           None \<Rightarrow> Inl FingerprintDecode
         | Some decoded \<Rightarrow> Inr decoded)"

text \<open>\<open>strings.ToUpper\<close> on ASCII text.\<close>

definition upper_byte :: "char \<Rightarrow> char" where
  "upper_byte c = (if 97 \<le> byte_val c \<and> byte_val c \<le> 122 then char_of (byte_val c - 32) else c)"

fun byte_pairs :: "string \<Rightarrow> string list" where
  "byte_pairs (c # d # s) = [c, d] # byte_pairs s"
| "byte_pairs s = []"

definition fingerprint_string :: "Fingerprint \<Rightarrow> string" where
  "fingerprint_string f = join_with '':'' (byte_pairs (map upper_byte (hex_encode f)))"

section \<open>The client's policy\<close>

datatype key_type = EcdsaKey | RsaKey | OtherKey

record tls_cert =
  cert_chain :: "string list"
  cert_key :: string
  cert_leaf :: "key_type option"

text \<open>The template of a generated certificate; \<open>NotAfter\<close> is \<open>now.AddDate(years, 0, 0)\<close>.\<close>

record cert_template =
  SerialNumber :: int
  CommonName :: string
  NotBefore :: int
  NotAfter :: "int \<times> nat"
  DigitalSignatureOnly :: bool
  ServerAuthOnly :: bool
  BasicConstraintsValid :: bool

record crypto =
  Sum256 :: "string \<Rightarrow> Fingerprint"
  X509KeyPair :: "string \<Rightarrow> string \<Rightarrow> tls_cert option"
  GenerateSelfSigned :: "tls_cert option"
  ParseCertificate :: "string \<Rightarrow> key_type option"
  GenerateKey :: "string option"
  RandInt :: "int \<Rightarrow> int option"
  CreateCertificate :: "cert_template \<Rightarrow> string \<Rightarrow> string option"
  MarshalPKCS8PrivateKey :: "string \<Rightarrow> string option"
  EncodeToMemory :: "string \<Rightarrow> string \<Rightarrow> string"
  time_now :: int

definition CertificateFingerprint :: "crypto \<Rightarrow> tls_cert \<Rightarrow> dtls_error + Fingerprint" where
  "CertificateFingerprint c cert =
     (case cert_chain cert of
        [] \<Rightarrow> Inl NoLeaf
      | leaf # _ \<Rightarrow> if leaf = [] then Inl NoLeaf else Inr (Sum256 c leaf))"

definition NewClientAuthentication :: "string \<Rightarrow> bool \<Rightarrow> dtls_error + ClientAuthentication" where
  "NewClientAuthentication rawFingerprint insecureSkipVerify =
     (let fingerprint = TrimSpace rawFingerprint in
      if insecureSkipVerify then
        if fingerprint \<noteq> [] then Inl PinAndInsecure
        else Inr \<lparr>auth_mode = authenticationInsecure, expected_pin = zero_fingerprint\<rparr>
      else if fingerprint = [] then Inl PinRequired
      else case ParseFingerprint fingerprint of
        Inl e \<Rightarrow> Inl e
      | Inr expected \<Rightarrow> Inr \<lparr>auth_mode = authenticationPinned, expected_pin = expected\<rparr>)"

datatype cipher_suite = TLS_ECDHE_ECDSA_WITH_AES_128_GCM_SHA256 | TLS_ECDHE_RSA_WITH_AES_128_GCM_SHA256

datatype client_option =
    WithInsecureSkipVerify bool
  | WithVerifyPeerCertificate Fingerprint
  | WithCertificates tls_cert
  | RequireExtendedMasterSecret
  | WithCipherSuites "cipher_suite list"
  | OnlySendCID

definition Options :: "ClientAuthentication \<Rightarrow> dtls_error + client_option list" where
  "Options authentication =
     (case auth_mode authentication of
        authenticationPinned \<Rightarrow>
          Inr [WithInsecureSkipVerify True, WithVerifyPeerCertificate (expected_pin authentication)]
      | authenticationInsecure \<Rightarrow> Inr [WithInsecureSkipVerify True]
      | authenticationUnset \<Rightarrow> Inl NotConfigured)"

definition Description :: "ClientAuthentication \<Rightarrow> string" where
  "Description authentication =
     (case auth_mode authentication of
        authenticationPinned \<Rightarrow> ''pinned SHA-256 certificate '' @ fingerprint_string (expected_pin authentication)
      | authenticationInsecure \<Rightarrow> ''disabled by explicit insecure override''
      | authenticationUnset \<Rightarrow> ''not configured'')"

definition Insecure :: "ClientAuthentication \<Rightarrow> bool" where
  "Insecure authentication \<longleftrightarrow> auth_mode authentication = authenticationInsecure"

text \<open>The error of the callback carries the digest that was seen.\<close>

datatype verify_error = NoCertificate | FingerprintMismatch string

definition verifyRawCertificateFingerprint :: "crypto \<Rightarrow> Fingerprint \<Rightarrow> string list \<Rightarrow> verify_error option" where
  "verifyRawCertificateFingerprint c expected rawCerts =
     (case rawCerts of
        [] \<Rightarrow> Some NoCertificate
      | leaf # _ \<Rightarrow>
          if leaf = [] then Some NoCertificate
          else let actual = Sum256 c leaf in
            if expected \<noteq> actual then Some (FingerprintMismatch (fingerprint_string actual)) else None)"

definition clientDTLSOptions :: "tls_cert \<Rightarrow> ClientAuthentication \<Rightarrow> dtls_error + client_option list" where
  "clientDTLSOptions certificate authentication =
     (case Options authentication of
        Inl e \<Rightarrow> Inl e
      | Inr authenticationOptions \<Rightarrow>
          Inr ([WithCertificates certificate, RequireExtendedMasterSecret,
                WithCipherSuites [TLS_ECDHE_ECDSA_WITH_AES_128_GCM_SHA256, TLS_ECDHE_RSA_WITH_AES_128_GCM_SHA256],
                OnlySendCID] @ authenticationOptions))"

text \<open>
  What the DTLS library does with the options: the chain is verified (\<open>chain_ok\<close>) unless that is
  switched off, and every verification callback has to return without an error.
\<close>

definition peer_accepted :: "crypto \<Rightarrow> (string list \<Rightarrow> bool) \<Rightarrow> client_option list \<Rightarrow> string list \<Rightarrow> bool" where
  "peer_accepted c chain_ok opts rawCerts \<longleftrightarrow>
     (WithInsecureSkipVerify True \<in> set opts \<or> chain_ok rawCerts) \<and>
     list_all (\<lambda>opt. case opt of
        WithVerifyPeerCertificate expected \<Rightarrow> verifyRawCertificateFingerprint c expected rawCerts = None
      | _ \<Rightarrow> True) opts"

section \<open>The server's identity\<close>

record serverDTLSIdentity =
  certificate :: tls_cert
  fingerprint :: Fingerprint
  cipherSuite :: cipher_suite
  ephemeral :: bool

definition certificateCipherSuite :: "crypto \<Rightarrow> tls_cert \<Rightarrow> dtls_error + cipher_suite" where
  "certificateCipherSuite c cert =
     (case cert_chain cert of
        [] \<Rightarrow> Inl NoLeaf
      | der # _ \<Rightarrow>
          (case (case cert_leaf cert of Some k \<Rightarrow> Some k | None \<Rightarrow> ParseCertificate c der) of
             None \<Rightarrow> Inl IdentityParse
           | Some EcdsaKey \<Rightarrow> Inr TLS_ECDHE_ECDSA_WITH_AES_128_GCM_SHA256
           | Some RsaKey \<Rightarrow> Inr TLS_ECDHE_RSA_WITH_AES_128_GCM_SHA256
           | Some OtherKey \<Rightarrow> Inl UnsupportedKey))"

definition validatePrivateIdentityFile :: "os_env \<Rightarrow> filesystem \<Rightarrow> string \<Rightarrow> private_error option" where
  "validatePrivateIdentityFile env fs path =
     (case check_private env fs (Clean path) of Inl e \<Rightarrow> Some e | Inr _ \<Rightarrow> None)"

definition sameIdentityPath :: "string \<Rightarrow> string \<Rightarrow> bool" where
  "sameIdentityPath certificateFile keyFile \<longleftrightarrow> Clean certificateFile = Clean keyFile"

definition identity_template :: "int \<Rightarrow> int \<Rightarrow> cert_template" where
  "identity_template serial now =
     \<lparr>SerialNumber = serial, CommonName = ''vk-turn-proxy'', NotBefore = now - 300000000000,
      NotAfter = (now, 10), DigitalSignatureOnly = True, ServerAuthOnly = True, BasicConstraintsValid = True\<rparr>"

definition generatePersistentDTLSCertificate :: "crypto \<Rightarrow> tls_cert option" where
  "generatePersistentDTLSCertificate c =
     (case GenerateKey c of
        None \<Rightarrow> None
      | Some privateKey \<Rightarrow>
          (case RandInt c (2 ^ 128) of
             None \<Rightarrow> None
           | Some serial \<Rightarrow>
               (case CreateCertificate c (identity_template serial (time_now c)) privateKey of
                  None \<Rightarrow> None
                | Some der \<Rightarrow>
                    (case ParseCertificate c der of
                       None \<Rightarrow> None
                     | Some leaf \<Rightarrow> Some \<lparr>cert_chain = [der], cert_key = privateKey, cert_leaf = Some leaf\<rparr>))))"

definition createPersistentDTLSIdentity ::
  "crypto \<Rightarrow> os_env \<Rightarrow> filesystem \<Rightarrow> string \<Rightarrow> dtls_error option \<times> filesystem" where
  "createPersistentDTLSIdentity c env fs path =
     (case generatePersistentDTLSCertificate c of
        None \<Rightarrow> (Some IdentityGenerate, fs)
      | Some cert \<Rightarrow>
          (case cert_chain cert of
             [] \<Rightarrow> (Some NoLeaf, fs)
           | der # _ \<Rightarrow>
               (case MarshalPKCS8PrivateKey c (cert_key cert) of
                  None \<Rightarrow> (Some IdentityMarshal, fs)
                | Some privateKey \<Rightarrow>
                    let encoded = EncodeToMemory c ''CERTIFICATE'' der @ EncodeToMemory c ''PRIVATE KEY'' privateKey;
                        (r, fs') = publish_file env fs (Clean path) encoded
                    in (if r = Published \<or> r = PublishExists then None else Some (IdentityPublish r), fs'))))"

text \<open>\<open>os.Stat\<close> follows a symbolic link, so a dangling one does not exist.\<close>

definition stat_exists :: "filesystem \<Rightarrow> string \<Rightarrow> bool" where
  "stat_exists fs path \<longleftrightarrow>
     (case fs (Clean path) of None \<Rightarrow> False | Some f \<Rightarrow> file_kind f \<noteq> SymbolicLink False)"

definition LoadX509KeyPair :: "crypto \<Rightarrow> os_env \<Rightarrow> filesystem \<Rightarrow> string \<Rightarrow> string \<Rightarrow> tls_cert option" where
  "LoadX509KeyPair c env fs certificateFile keyFile =
     (if read_fails env then None
      else case (fs (Clean certificateFile), fs (Clean keyFile)) of
        (Some cf, Some kf) \<Rightarrow> X509KeyPair c (file_content cf) (file_content kf)
      | _ \<Rightarrow> None)"

text \<open>The part of \<open>loadServerDTLSIdentity\<close> that makes sure a combined identity file exists.\<close>

definition ensure_identity ::
  "crypto \<Rightarrow> os_env \<Rightarrow> filesystem \<Rightarrow> string \<Rightarrow> string \<Rightarrow> dtls_error option \<times> filesystem" where
  "ensure_identity c env fs certificateFile keyFile =
     (if sameIdentityPath certificateFile keyFile then
        if lstat_fails env then (Some IdentityStat, fs)
        else if \<not> stat_exists fs certificateFile then createPersistentDTLSIdentity c env fs certificateFile
        else (None, fs)
      else (None, fs))"

definition finish_identity :: "crypto \<Rightarrow> tls_cert \<Rightarrow> bool \<Rightarrow> dtls_error + serverDTLSIdentity" where
  "finish_identity c cert eph =
     (case (case (cert_leaf cert, cert_chain cert) of
              (None, der # _) \<Rightarrow> (case ParseCertificate c der of None \<Rightarrow> None | Some k \<Rightarrow> Some (cert\<lparr>cert_leaf := Some k\<rparr>))
            | _ \<Rightarrow> Some cert) of
        None \<Rightarrow> Inl IdentityParse
      | Some cert' \<Rightarrow>
          (case CertificateFingerprint c cert' of
             Inl e \<Rightarrow> Inl e
           | Inr fp \<Rightarrow>
               (case certificateCipherSuite c cert' of
                  Inl e \<Rightarrow> Inl e
                | Inr suite \<Rightarrow> Inr \<lparr>certificate = cert', fingerprint = fp, cipherSuite = suite, ephemeral = eph\<rparr>)))"

definition loadServerDTLSIdentity ::
  "crypto \<Rightarrow> os_env \<Rightarrow> filesystem \<Rightarrow> string \<Rightarrow> string \<Rightarrow> (dtls_error + serverDTLSIdentity) \<times> filesystem" where
  "loadServerDTLSIdentity c env fs certificateFile keyFile =
     (let certificateSet = (TrimSpace certificateFile \<noteq> []); keySet = (TrimSpace keyFile \<noteq> []) in
      if certificateSet \<noteq> keySet then (Inl IdentityFilesTogether, fs)
      else if certificateSet then
        (case ensure_identity c env fs certificateFile keyFile of
           (Some e, fs') \<Rightarrow> (Inl e, fs')
         | (None, fs') \<Rightarrow>
             (case validatePrivateIdentityFile env fs' keyFile of
                Some e \<Rightarrow> (Inl (IdentityFile e), fs')
              | None \<Rightarrow>
                  (case LoadX509KeyPair c env fs' certificateFile keyFile of
                     None \<Rightarrow> (Inl IdentityLoad, fs')
                   | Some cert \<Rightarrow> (finish_identity c cert False, fs'))))
      else
        (case GenerateSelfSigned c of
           None \<Rightarrow> (Inl IdentitySelfSign, fs)
         | Some cert \<Rightarrow> (finish_identity c cert True, fs)))"

section \<open>Fingerprints as text\<close>

lemma hex_val_upper: "n < 16 \<Longrightarrow> hex_val (upper_byte (hex_char n)) = Some n"
  by (simp add: hex_val_def hex_char_def upper_byte_def)

lemma hex_decode_upper [simp]: "hex_decode (map upper_byte (hex_encode bs)) = Some bs"
  by (induction bs) (simp_all add: hex_val_upper)

lemma byte_pairs_props:
  assumes "even (length s)"
  shows "concat (byte_pairs s) = s" "length (byte_pairs s) = length s div 2"
    "list_all (\<lambda>p. length p = 2 \<and> set p \<subseteq> set s) (byte_pairs s)"
  using assms by (induction s rule: byte_pairs.induct) (auto simp: list_all_iff)

lemma upper_hex_chars:
  "c \<in> set (map upper_byte (hex_encode bs)) \<Longrightarrow> graphic c \<and> c \<noteq> CHR '':''"
proof (induction bs)
  case (Cons b bs)
  have "graphic (upper_byte (hex_char n)) \<and> upper_byte (hex_char n) \<noteq> CHR '':''" if "n < 16" for n
    using that hex_val_upper [OF that] by (auto simp: upper_byte_def hex_char_def graphic_def hex_val_def)
  with Cons show ?case by auto
qed simp

lemma set_join_with: "set (join_with d ws) \<subseteq> set d \<union> \<Union> (set ` set ws)"
  by (induction d ws rule: join_with.induct) auto

lemma colon_in_join: "2 \<le> length ws \<Longrightarrow> c \<in> set d \<Longrightarrow> c \<in> set (join_with d ws)"
  by (cases "(d, ws)" rule: join_with.cases) auto

lemma pairs_text:
  assumes "even (length h)" "\<forall>c\<in>set h. graphic c \<and> c \<noteq> CHR '':''" "4 \<le> length h"
  shows "list_all graphic (join_with '':'' (byte_pairs h))"
    "CHR '':'' \<in> set (join_with '':'' (byte_pairs h))"
    "split_char (CHR '':'') (join_with '':'' (byte_pairs h)) = byte_pairs h"
    "\<not> list_ex (\<lambda>p. length p \<noteq> 2) (byte_pairs h)"
proof -
  note bp = byte_pairs_props [OF assms(1)]
  have in_h: "set p \<subseteq> set h" if "p \<in> set (byte_pairs h)" for p
    using bp(3) that by (simp add: list_all_iff)
  have "graphic (CHR '':'')" by (simp add: graphic_def)
  moreover have "set (join_with '':'' (byte_pairs h)) \<subseteq> insert (CHR '':'') (set h)"
    using set_join_with [of "'':''" "byte_pairs h"] in_h by auto
  ultimately show "list_all graphic (join_with '':'' (byte_pairs h))"
    using assms(2) unfolding list_all_iff by blast
  have two: "2 \<le> length (byte_pairs h)" using bp(2) assms(3) by linarith
  then show "CHR '':'' \<in> set (join_with '':'' (byte_pairs h))"
    by (rule colon_in_join) simp
  show "split_char (CHR '':'') (join_with '':'' (byte_pairs h)) = byte_pairs h"
  proof (rule split_join)
    show "byte_pairs h \<noteq> []" using two by auto
    show "list_all (\<lambda>w. CHR '':'' \<notin> set w) (byte_pairs h)"
      unfolding list_all_iff using in_h assms(2) by blast
  qed
  show "\<not> list_ex (\<lambda>p. length p \<noteq> 2) (byte_pairs h)"
    using bp(3) by (auto simp: list_all_iff list_ex_iff)
qed

lemma ParseFingerprint_string:
  assumes "length f = fingerprintBytes"
  shows "ParseFingerprint (fingerprint_string f) = Inr f"
proof -
  define h where "h = map upper_byte (hex_encode f)"
  have l: "length h = 64" using assms by (simp add: fingerprintBytes_def h_def)
  have g: "\<forall>c\<in>set h. graphic c \<and> c \<noteq> CHR '':''"
    unfolding h_def using upper_hex_chars by blast
  have e: "even (length h)" using l by simp
  note t = pairs_text [OF e g]
  define s where "s = join_with '':'' (byte_pairs h)"
  have s: "fingerprint_string f = s" by (simp add: s_def h_def fingerprint_string_def)
  have p: "TrimSpace s = s" "CHR '':'' \<in> set s" "split_char (CHR '':'') s = byte_pairs h"
    using t l TrimSpace_graphic unfolding s_def by simp_all
  have "length (byte_pairs h) = 32" "concat (byte_pairs h) = h" "s \<noteq> []" "hex_decode h = Some f"
    using byte_pairs_props [OF e] l p(2) by (auto simp: h_def)
  then show ?thesis
    using t(4) l p unfolding s ParseFingerprint_def p(1) Let_def
    by (simp add: fingerprintBytes_def)
qed

lemma ParseFingerprint_length: "ParseFingerprint v = Inr f \<Longrightarrow> length f = fingerprintBytes"
  using hex_decode_length
  by (fastforce simp: ParseFingerprint_def Let_def split: if_split_asm option.split_asm)

lemma TrimSpace_fingerprint:
  assumes "length f = fingerprintBytes"
  shows "TrimSpace (fingerprint_string f) = fingerprint_string f" "fingerprint_string f \<noteq> []"
proof -
  let ?h = "map upper_byte (hex_encode f)"
  have "even (length ?h)" "4 \<le> length ?h" using assms by (simp_all add: fingerprintBytes_def)
  then have "list_all graphic (fingerprint_string f)" "CHR '':'' \<in> set (fingerprint_string f)"
    using pairs_text(1,2) [of ?h] upper_hex_chars unfolding fingerprint_string_def by blast+
  then show "TrimSpace (fingerprint_string f) = fingerprint_string f" "fingerprint_string f \<noteq> []"
    by (auto intro: TrimSpace_graphic)
qed

definition leaf_digest :: "crypto \<Rightarrow> string list \<Rightarrow> Fingerprint option" where
  "leaf_digest c raw = (case raw of [] \<Rightarrow> None | leaf # _ \<Rightarrow> if leaf = [] then None else Some (Sum256 c leaf))"

lemma finish_identity_sound:
  assumes "finish_identity c cert eph = Inr ident"
  shows "leaf_digest c (cert_chain (certificate ident)) = Some (fingerprint ident)" "ephemeral ident = eph"
  using assms
  by (auto simp: finish_identity_def CertificateFingerprint_def leaf_digest_def
      split: option.split_asm list.split_asm sum.split_asm if_split_asm)

lemma finish_identity_library:
  assumes "Sum256 c2 = Sum256 c" "ParseCertificate c2 = ParseCertificate c"
  shows "finish_identity c2 cert eph = finish_identity c cert eph"
proof -
  have "CertificateFingerprint c2 = CertificateFingerprint c" "certificateCipherSuite c2 = certificateCipherSuite c"
    using assms unfolding fun_eq_iff CertificateFingerprint_def certificateCipherSuite_def by (simp_all only:) simp_all
  then show ?thesis using assms unfolding finish_identity_def by (simp only:)
qed

section \<open>Properties\<close>

lemma leaf_digest_length: "leaf_digest c raw = Some f \<Longrightarrow> \<exists>x. f = Sum256 c x"
  by (auto simp: leaf_digest_def split: list.split_asm if_split_asm)

lemma verify_leaf: "verifyRawCertificateFingerprint c f raw = None \<longleftrightarrow> leaf_digest c raw = Some f"
  by (auto simp: verifyRawCertificateFingerprint_def leaf_digest_def Let_def split: list.split)

lemma accepted_pinned:
  "clientDTLSOptions cert \<lparr>auth_mode = authenticationPinned, expected_pin = f\<rparr> = Inr opts \<Longrightarrow>
     peer_accepted c chain_ok opts raw \<longleftrightarrow> leaf_digest c raw = Some f"
  by (auto simp: clientDTLSOptions_def Options_def peer_accepted_def verify_leaf)

text \<open>A toy library for the witnesses: the digest pads or cuts to 32 bytes, PEM marks each block.\<close>

definition example_crypto :: crypto where
  "example_crypto =
     \<lparr>Sum256 = (\<lambda>x. take 32 (x @ replicate 32 (CHR 0x00))),
      X509KeyPair = (\<lambda>cert key. Some \<lparr>cert_chain = [cert], cert_key = key, cert_leaf = None\<rparr>),
      GenerateSelfSigned = None, ParseCertificate = (\<lambda>_. Some EcdsaKey), GenerateKey = Some ''key'',
      RandInt = (\<lambda>_. Some 7), CreateCertificate = (\<lambda>t k. Some ''der''), MarshalPKCS8PrivateKey = Some,
      EncodeToMemory = (\<lambda>t b. t @ b), time_now = 0\<rparr>"

definition example_id_env :: os_env where
  "example_id_env = \<lparr>on_windows = False, lstat_fails = False, read_fails = False, rand_fails = False,
     rand_bytes = [], temp_fails = False, temp_name = ''.id.tmp-1'', chmod_fails = False, write_fails = False,
     sync_fails = False, close_fails = False, link_fails = False, rival = None\<rparr>"

definition example_identity :: "(dtls_error + serverDTLSIdentity) \<times> filesystem" where
  "example_identity = loadServerDTLSIdentity example_crypto example_id_env Map.empty ''id.pem'' ''./id.pem''"

lemma example_identity_loads:
  "fst example_identity = Inr \<lparr>certificate = \<lparr>cert_chain = [''CERTIFICATEderPRIVATE KEYkey''],
      cert_key = ''CERTIFICATEderPRIVATE KEYkey'', cert_leaf = Some EcdsaKey\<rparr>,
    fingerprint = ''CERTIFICATEderPRIVATE KEYkey'' @ replicate 4 (CHR 0x00),
    cipherSuite = TLS_ECDHE_ECDSA_WITH_AES_128_GCM_SHA256, ephemeral = False\<rparr>"
  by code_simp

text \<open>
  C36. The client's authentication fails closed. A configuration is accepted only with a valid pin or with the
  explicit insecure switch, never with both; the options always require the extended master secret;
  and with the DTLS library calling the installed callback, a peer is
  accepted exactly when the switch was given or its leaf certificate has the pinned SHA-256
  digest, whatever the chain looks like. A configuration left at its zero value opens nothing.
\<close>

theorem dtls_client_fails_closed:
  assumes "NewClientAuthentication fp insecure = Inr a"
  shows "(Insecure a \<longleftrightarrow> insecure) \<and> (insecure \<longrightarrow> TrimSpace fp = []) \<and>
    clientDTLSOptions cert unset_authentication = Inl NotConfigured \<and>
    (\<exists>opts. clientDTLSOptions cert a = Inr opts \<and> RequireExtendedMasterSecret \<in> set opts \<and>
       (\<forall>raw. peer_accepted c chain_ok opts raw \<longleftrightarrow>
          insecure \<or> (\<exists>f. ParseFingerprint (TrimSpace fp) = Inr f \<and> leaf_digest c raw = Some f)))"
proof (cases insecure)
  case True
  with assms have "TrimSpace fp = []" "a = \<lparr>auth_mode = authenticationInsecure, expected_pin = zero_fingerprint\<rparr>"
    by (auto simp: NewClientAuthentication_def Let_def split: if_splits)
  with True show ?thesis
    by (auto simp: Insecure_def clientDTLSOptions_def Options_def unset_authentication_def peer_accepted_def)
next
  case False
  with assms obtain f where f: "ParseFingerprint (TrimSpace fp) = Inr f"
    and a: "a = \<lparr>auth_mode = authenticationPinned, expected_pin = f\<rparr>"
    by (auto simp: NewClientAuthentication_def Let_def split: if_splits sum.splits)
  obtain opts where opts: "clientDTLSOptions cert a = Inr opts" "RequireExtendedMasterSecret \<in> set opts"
    by (simp add: a clientDTLSOptions_def Options_def)
  have "\<forall>raw. peer_accepted c chain_ok opts raw \<longleftrightarrow> leaf_digest c raw = Some f"
    using accepted_pinned opts(1) a by blast
  with False f a opts show ?thesis
    by (simp add: Insecure_def clientDTLSOptions_def Options_def unset_authentication_def)
qed

theorem dtls_client_fails_closed_witness:
  "NewClientAuthentication [] True = Inr \<lparr>auth_mode = authenticationInsecure, expected_pin = zero_fingerprint\<rparr> \<and>
   clientDTLSOptions \<lparr>cert_chain = [], cert_key = [], cert_leaf = None\<rparr> unset_authentication = Inl NotConfigured"
proof -
  have "NewClientAuthentication [] True = Inr \<lparr>auth_mode = authenticationInsecure, expected_pin = zero_fingerprint\<rparr>"
    by code_simp
  with dtls_client_fails_closed [OF this] show ?thesis by blast
qed

lemma printed_pin_accepted:
  assumes "\<And>x. length (Sum256 c x) = fingerprintBytes"
    and "loadServerDTLSIdentity c env fs certificateFile keyFile = (Inr ident, fs')"
  shows "\<exists>a opts. NewClientAuthentication (fingerprint_string (fingerprint ident)) False = Inr a \<and>
    clientDTLSOptions cert a = Inr opts \<and>
    (\<forall>raw. peer_accepted c chain_ok opts raw \<longleftrightarrow> leaf_digest c raw = Some (fingerprint ident)) \<and>
    peer_accepted c chain_ok opts (cert_chain (certificate ident))"
proof -
  let ?f = "fingerprint ident"
  obtain crt eph where "finish_identity c crt eph = Inr ident"
    using assms(2) by (auto simp: loadServerDTLSIdentity_def Let_def split: if_split_asm option.split_asm prod.split_asm)
  then have leaf: "leaf_digest c (cert_chain (certificate ident)) = Some ?f" by (rule finish_identity_sound)
  then have len: "length ?f = fingerprintBytes"
    using assms(1) by (metis leaf_digest_length)
  define a where "a = \<lparr>auth_mode = authenticationPinned, expected_pin = ?f\<rparr>"
  have "NewClientAuthentication (fingerprint_string ?f) False = Inr a"
    using TrimSpace_fingerprint [OF len] ParseFingerprint_string [OF len]
    by (simp add: NewClientAuthentication_def a_def)
  moreover obtain opts where "clientDTLSOptions cert a = Inr opts"
    by (simp add: a_def clientDTLSOptions_def Options_def)
  ultimately show ?thesis using accepted_pinned leaf unfolding a_def by blast
qed

text \<open>
  The pin the server prints is the pin the client needs. Whatever identity the server has
  loaded, generated or created, the fingerprint text it logs is accepted by the client's
  configuration, and the client then accepts exactly the peers whose leaf has that SHA-256 digest,
  the server's own certificate among them.
\<close>

theorem server_pin_accepted:
  assumes "\<And>x. length (Sum256 c x) = fingerprintBytes"
    and "loadServerDTLSIdentity c env fs certificateFile keyFile = (Inr ident, fs')"
  shows "\<exists>a opts. NewClientAuthentication (fingerprint_string (fingerprint ident)) False = Inr a \<and>
    clientDTLSOptions cert a = Inr opts \<and>
    (\<forall>raw. peer_accepted c chain_ok opts raw \<longleftrightarrow> leaf_digest c raw = Some (fingerprint ident)) \<and>
    peer_accepted c chain_ok opts (cert_chain (certificate ident))"
  by (rule printed_pin_accepted [OF assms])

theorem server_pin_accepted_witness:
  "\<exists>a opts. NewClientAuthentication (fingerprint_string (''CERTIFICATEderPRIVATE KEYkey'' @ replicate 4 (CHR 0x00))) False = Inr a \<and>
     clientDTLSOptions \<lparr>cert_chain = [], cert_key = [], cert_leaf = None\<rparr> a = Inr opts \<and>
     peer_accepted example_crypto (\<lambda>_. False) opts [''CERTIFICATEderPRIVATE KEYkey'']"
proof -
  have "length (Sum256 example_crypto x) = fingerprintBytes" for x
    by (simp add: example_crypto_def fingerprintBytes_def)
  from server_pin_accepted [OF this, of example_id_env Map.empty "''id.pem''" "''./id.pem''" _ "snd example_identity"]
    example_identity_loads
  show ?thesis unfolding example_identity_def
    by (metis (no_types, lifting) prod.collapse serverDTLSIdentity.select_convs(1,2) tls_cert.select_convs(1))
qed

lemma ensure_existing:
  assumes "\<not> lstat_fails env" "check_private env fs (Clean keyFile) = Inr f"
  shows "ensure_identity c env fs certificateFile keyFile = (None, fs)"
  using assms check_private_sound [OF assms(2)]
  by (auto simp: ensure_identity_def sameIdentityPath_def stat_exists_def)

text \<open>
  C37. A persistent identity survives a restart. After a start that loaded an identity from files, creating the
  combined file if it was missing, a later start on the file system so left, with a library that
  parses and digests alike but with any other random source and any other clock, gets the same
  identity and changes nothing; the key file was a private regular file. A file that was there
  is never replaced.
\<close>

theorem identity_survives_restart:
  assumes "loadServerDTLSIdentity c env fs certificateFile keyFile = (Inr ident, fs')" "\<not> ephemeral ident"
    and "X509KeyPair c2 = X509KeyPair c" "Sum256 c2 = Sum256 c" "ParseCertificate c2 = ParseCertificate c"
    and "\<not> lstat_fails env2" "\<not> read_fails env2" "on_windows env2 = on_windows env"
    and "temp_name env \<noteq> Clean certificateFile" "fs (temp_name env) = None"
  shows "loadServerDTLSIdentity c2 env2 fs' certificateFile keyFile = (Inr ident, fs') \<and>
    (\<exists>f. fs' (Clean keyFile) = Some f \<and> file_kind f = RegularFile \<and> (on_windows env \<or> \<not> too_broad (file_perm f))) \<and>
    (\<forall>path f. fs path = Some f \<longrightarrow> fs' path = Some f)"
proof -
  have set: "TrimSpace certificateFile \<noteq> []" "TrimSpace keyFile \<noteq> []"
    using assms(1,2) finish_identity_sound(2)
    by (auto simp: loadServerDTLSIdentity_def Let_def split: if_split_asm option.split_asm)
  with assms(1) obtain f crt where ens: "ensure_identity c env fs certificateFile keyFile = (None, fs')"
    and f: "check_private env fs' (Clean keyFile) = Inr f"
    and crt: "LoadX509KeyPair c env fs' certificateFile keyFile = Some crt" and fin: "finish_identity c crt False = Inr ident"
    by (auto simp: loadServerDTLSIdentity_def Let_def validatePrivateIdentityFile_def
        split: if_split_asm option.split_asm prod.split_asm sum.split_asm)
  have f2: "check_private env2 fs' (Clean keyFile) = Inr f"
    using f assms(6,8) by (auto simp: check_private_def split: if_split_asm option.split_asm)
  have crt2: "LoadX509KeyPair c2 env2 fs' certificateFile keyFile = Some crt"
    using crt assms(7) unfolding LoadX509KeyPair_def assms(3) by (simp split: if_split_asm)
  have "loadServerDTLSIdentity c2 env2 fs' certificateFile keyFile = (Inr ident, fs')"
    using set ensure_existing [OF assms(6) f2] f2 crt2 fin finish_identity_library [OF assms(4,5)]
    by (simp add: loadServerDTLSIdentity_def validatePrivateIdentityFile_def)
  moreover have "fs' path = Some g" if "fs path = Some g" for path g
    using ens that publish_file_cases(1,2) [where env = env and fs = fs and path = "Clean certificateFile", OF assms(9,10)]
    by (cases "path = Clean certificateFile")
      (auto simp: ensure_identity_def createPersistentDTLSIdentity_def Let_def split: if_split_asm option.split_asm list.split_asm prod.split_asm)
  ultimately show ?thesis using check_private_sound [OF f] by blast
qed

theorem identity_survives_restart_witness:
  "fst (loadServerDTLSIdentity (example_crypto\<lparr>GenerateKey := None, time_now := 5\<rparr>) example_id_env
     (snd example_identity) ''id.pem'' ''./id.pem'') = fst example_identity"
proof -
  define ident where "ident = projr (fst example_identity)"
  have i: "fst example_identity = Inr ident" "\<not> ephemeral ident"
    using example_identity_loads by (simp_all add: ident_def)
  have l: "loadServerDTLSIdentity example_crypto example_id_env Map.empty ''id.pem'' ''./id.pem'' = (Inr ident, snd example_identity)"
    using i(1) unfolding example_identity_def by (metis prod.collapse)
  have t: "temp_name example_id_env \<noteq> Clean ''id.pem''" by code_simp
  show ?thesis
    using identity_survives_restart [OF l i(2), of "example_crypto\<lparr>GenerateKey := None, time_now := 5\<rparr>" example_id_env] t i(1)
    by (simp add: example_id_env_def)
qed

end
