(* ===== verification/Go_Net.thy ===== *)
theory Go_Net
  imports Go_Prelude
begin

text \<open>
  What the program uses of Go's \<open>net\<close> package: \<open>net.SplitHostPort\<close>, \<open>net.JoinHostPort\<close>,
  \<open>net.ParseIP\<close>, and \<open>To4\<close>, \<open>To16\<close>, \<open>IsLoopback\<close> and \<open>String\<close> of \<open>net.IP\<close>. An IP is its list of
  bytes, 4 or 16 of them for a valid one.
\<close>

type_synonym ip = "nat list"

section \<open>Host and port\<close>

definition last_index :: "char \<Rightarrow> string \<Rightarrow> nat option" where
  "last_index c s =
     (if c \<in> set s then Some (length s - 1 - length (takeWhile (\<lambda>d. d \<noteq> c) (rev s))) else None)"

definition first_index :: "char \<Rightarrow> string \<Rightarrow> nat option" where
  "first_index c s = (if c \<in> set s then Some (length (takeWhile (\<lambda>d. d \<noteq> c) s)) else None)"

definition SplitHostPort :: "string \<Rightarrow> (string \<times> string) option" where
  "SplitHostPort hp =
     (case last_index (CHR '':'') hp of
        None \<Rightarrow> None
      | Some i \<Rightarrow>
          if hd hp = CHR ''['' then
            case first_index (CHR '']'') hp of
              None \<Rightarrow> None
            | Some end_ \<Rightarrow>
                if end_ + 1 \<noteq> i then None
                else if CHR ''['' \<in> set (drop 1 hp) \<or> CHR '']'' \<in> set (drop (end_ + 1) hp) then None
                else Some (take (end_ - 1) (drop 1 hp), drop (i + 1) hp)
          else if CHR '':'' \<in> set (take i hp) then None
          else if CHR ''['' \<in> set hp \<or> CHR '']'' \<in> set hp then None
          else Some (take i hp, drop (i + 1) hp))"

definition JoinHostPort :: "string \<Rightarrow> string \<Rightarrow> string" where
  "JoinHostPort host port =
     (if CHR '':'' \<in> set host then ''['' @ host @ '']:'' @ port else host @ '':'' @ port)"

section \<open>Addresses\<close>

definition v4_mapped :: "nat list" where
  "v4_mapped = replicate 10 0 @ [255, 255]"

definition To4 :: "ip \<Rightarrow> ip option" where
  "To4 a =
     (if length a = 4 then Some a
      else if length a = 16 \<and> take 12 a = v4_mapped then Some (drop 12 a)
      else None)"

definition To16 :: "ip \<Rightarrow> ip option" where
  "To16 a = (if length a = 4 then Some (v4_mapped @ a) else if length a = 16 then Some a else None)"

definition IsLoopback :: "ip \<Rightarrow> bool" where
  "IsLoopback a = (case To4 a of Some b \<Rightarrow> b ! 0 = 127 | None \<Rightarrow> a = replicate 15 0 @ [1])"

definition parse_octet :: "string \<Rightarrow> nat option" where
  "parse_octet s =
     (if s = [] \<or> \<not> list_all is_digit s \<or> (length s > 1 \<and> hd s = CHR ''0'') \<or> dec_value s > 255
      then None else Some (dec_value s))"

fun option_all :: "'a option list \<Rightarrow> 'a list option" where
  "option_all [] = Some []"
| "option_all (None # xs) = None"
| "option_all (Some x # xs) = map_option (Cons x) (option_all xs)"

definition parse_ipv4 :: "string \<Rightarrow> ip option" where
  "parse_ipv4 s =
     (let parts = split_char (CHR ''.'') s
      in if length parts = 4 then option_all (map parse_octet parts) else None)"

text \<open>
  \<open>netip.parseIPv6\<close>. The state is the rest of the text, the bytes read so far and the position
  of the ellipsis; each round reads one hexadecimal group. The first argument bounds the rounds:
  a round that goes on adds two bytes, and the loop stops at 16.
\<close>

definition hex_word :: "string \<Rightarrow> nat" where
  "hex_word ds = foldl (\<lambda>acc c. 16 * acc + the (hex_val c)) 0 ds"

definition expand_ellipsis :: "ip \<Rightarrow> nat option \<Rightarrow> ip option" where
  "expand_ellipsis bytes ell =
     (if length bytes < 16 then
        case ell of
          None \<Rightarrow> None
        | Some e \<Rightarrow> Some (take e bytes @ replicate (16 - length bytes) 0 @ drop e bytes)
      else if ell \<noteq> None then None else Some bytes)"

fun parse_groups :: "nat \<Rightarrow> string \<Rightarrow> ip \<Rightarrow> nat option \<Rightarrow> ip option" where
  "parse_groups 0 s bytes ell = (if s \<noteq> [] then None else expand_ellipsis bytes ell)"
| "parse_groups (Suc k) s bytes ell =
     (let ds = takeWhile (\<lambda>c. hex_val c \<noteq> None) s; rest = drop (length ds) s in
      if ds = [] \<or> length ds > 4 then None
      else if rest \<noteq> [] \<and> hd rest = CHR ''.'' then
        (if (ell = None \<and> length bytes \<noteq> 12) \<or> length bytes + 4 > 16 then None
         else case parse_ipv4 s of
                None \<Rightarrow> None
              | Some b4 \<Rightarrow> expand_ellipsis (bytes @ b4) ell)
      else
        let bytes' = bytes @ [hex_word ds div 256, hex_word ds mod 256] in
        if rest = [] then expand_ellipsis bytes' ell
        else if hd rest \<noteq> CHR '':'' \<or> length rest = 1 then None
        else if hd (tl rest) = CHR '':'' then
          (if ell \<noteq> None then None
           else if length rest = 2 then expand_ellipsis bytes' (Some (length bytes'))
           else parse_groups k (drop 2 rest) bytes' (Some (length bytes')))
        else parse_groups k (tl rest) bytes' ell)"

definition parse_ipv6 :: "string \<Rightarrow> ip option" where
  "parse_ipv6 s =
     (if take 2 s = ''::'' then
        if length s = 2 then Some (replicate 16 0) else parse_groups 8 (drop 2 s) [] (Some 0)
      else parse_groups 8 s [] None)"

text \<open>\<open>net.ParseIP\<close> gives the 16-byte form and refuses a zone.\<close>

definition ParseIP :: "string \<Rightarrow> ip option" where
  "ParseIP s =
     (case filter (\<lambda>c. c \<in> {CHR ''.'', CHR '':'', CHR ''%''}) s of
        [] \<Rightarrow> None
      | c # _ \<Rightarrow>
          if c = CHR ''.'' then Option.bind (parse_ipv4 s) To16
          else if c = CHR '':'' then (if CHR ''%'' \<in> set s then None else parse_ipv6 s)
          else None)"

section \<open>Printing\<close>

definition ipv4_string :: "ip \<Rightarrow> string" where
  "ipv4_string a = join_with ''.'' (map (\<lambda>n. dec_digits n) a)"

fun hex_digits :: "nat \<Rightarrow> string" where
  "hex_digits n = (if n < 16 then [hex_char n] else hex_digits (n div 16) @ [hex_char (n mod 16)])"

declare hex_digits.simps [simp del]

fun groups16 :: "ip \<Rightarrow> nat list" where
  "groups16 (a # b # r) = (256 * a + b) # groups16 r"
| "groups16 _ = []"

definition zero_run :: "nat list \<Rightarrow> nat \<Rightarrow> nat" where
  "zero_run gs i = length (takeWhile (\<lambda>g. g = 0) (drop i gs))"

definition longest_zero_run :: "nat list \<Rightarrow> nat \<times> nat" where
  "longest_zero_run gs =
     fold (\<lambda>i (s, l). if zero_run gs i \<ge> 2 \<and> zero_run gs i > l then (i, zero_run gs i) else (s, l))
       [0..<length gs] (0, 0)"

definition ipv6_string :: "ip \<Rightarrow> string" where
  "ipv6_string a =
     (let gs = groups16 a; (s, l) = longest_zero_run gs
      in if l = 0 then join_with '':'' (map hex_digits gs)
         else join_with '':'' (map hex_digits (take s gs)) @ ''::'' @
              join_with '':'' (map hex_digits (drop (s + l) gs)))"

text \<open>\<open>IP.String\<close> of a 4-byte and of a 16-byte address.\<close>

definition ip_string :: "ip \<Rightarrow> string" where
  "ip_string a = (case To4 a of Some b \<Rightarrow> ipv4_string b | None \<Rightarrow> ipv6_string a)"

section \<open>Lemmas\<close>

lemma digit_char_nonzero: "0 < n \<Longrightarrow> n < 10 \<Longrightarrow> digit_char n \<noteq> CHR ''0''"
proof -
  assume n: "0 < n" "n < 10"
  have "byte_val (digit_char n) = 48 + n" using n by (simp add: digit_char_def)
  moreover have "byte_val (CHR ''0'') = (48 :: nat)" by simp
  ultimately show ?thesis using n by (metis add_cancel_left_right less_numeral_extra(3))
qed

lemma hd_dec_digits_nonzero: "0 < n \<Longrightarrow> hd (dec_digits n) \<noteq> CHR ''0''"
proof (induction n rule: dec_digits.induct)
  case (1 n)
  show ?case
  proof (cases "n < 10")
    case True
    then show ?thesis using 1 digit_char_nonzero by (subst dec_digits.simps) simp
  next
    case False
    then have "hd (dec_digits n) = hd (dec_digits (n div 10))" by (subst dec_digits.simps) simp
    then show ?thesis using 1(1) [OF False] False by simp
  qed
qed

lemma parse_octet_print: "n < 256 \<Longrightarrow> parse_octet (dec_digits n) = Some n"
  using hd_dec_digits_nonzero [of n] dec_digits_all_digits [of n] length_dec_digits [of 0 0]
  by (cases "n = 0") (auto simp: parse_octet_def)

lemma option_all_map: "(\<And>x. x \<in> set xs \<Longrightarrow> f (g x) = Some x) \<Longrightarrow> option_all (map f (map g xs)) = Some xs"
  by (induction xs) auto

lemma dec_digits_no_char: "\<not> is_digit c \<Longrightarrow> c \<notin> set (dec_digits n)"
  using dec_digits_all_digits [of n] by (auto simp: list_all_iff)

definition is_ipv4 :: "ip \<Rightarrow> bool" where
  "is_ipv4 a \<longleftrightarrow> length a = 4 \<and> list_all (\<lambda>n. n < 256) a"

lemma parse_ipv4_print [go_text]:
  assumes "is_ipv4 a"
  shows "parse_ipv4 (ipv4_string a) = Some a"
proof -
  have "a \<noteq> []" using assms by (auto simp: is_ipv4_def)
  then have "split_char (CHR ''.'') (ipv4_string a) = map dec_digits a"
    using dec_digits_no_char [of "CHR ''.''"] unfolding ipv4_string_def
    by (intro split_join) (auto simp: list_all_iff is_digit_def)
  then show ?thesis
    using assms option_all_map [of a parse_octet dec_digits] parse_octet_print
    by (simp add: parse_ipv4_def is_ipv4_def list_all_iff)
qed

lemma ipv4_string_inj: "is_ipv4 a \<Longrightarrow> is_ipv4 b \<Longrightarrow> ipv4_string a = ipv4_string b \<longleftrightarrow> a = b"
  using parse_ipv4_print by (metis option.inject)

lemma takeWhile_absent: "c \<notin> set s \<Longrightarrow> takeWhile (\<lambda>d. d \<noteq> c) s = s"
  by (rule takeWhile_eq_all_conv [THEN iffD2]) auto

lemma last_index_snoc: "c \<notin> set t \<Longrightarrow> last_index c (s @ c # t) = Some (length s)"
proof -
  assume "c \<notin> set t"
  then have "takeWhile (\<lambda>d. d \<noteq> c) (rev (s @ c # t)) = rev t"
    using takeWhile_absent [of c "rev t"] by (simp add: takeWhile_tail)
  then show ?thesis by (simp add: last_index_def)
qed

lemma first_index_snoc: "c \<notin> set s \<Longrightarrow> first_index c (s @ c # t) = Some (length s)"
  by (simp add: first_index_def takeWhile_tail takeWhile_absent)

lemma SplitHostPort_Join [go_text]:
  assumes "set host \<inter> {CHR ''['', CHR '']''} = {}" "set port \<inter> {CHR '':'', CHR ''['', CHR '']''} = {}"
  shows "SplitHostPort (JoinHostPort host port) = Some (host, port)"
proof (cases "CHR '':'' \<in> set host")
  case True
  let ?hp = "''['' @ host @ '']:'' @ port"
  have "last_index (CHR '':'') ?hp = Some (Suc (Suc (length host)))"
    using last_index_snoc [of "CHR '':''" port "''['' @ host @ '']''"] assms(2) by simp
  moreover have "first_index (CHR '']'') ?hp = Some (Suc (length host))"
    using first_index_snoc [of "CHR '']''" "''['' @ host" "'':'' @ port"] assms(1) by simp
  ultimately show ?thesis
    using True assms by (auto simp: SplitHostPort_def JoinHostPort_def)
next
  case False
  have "last_index (CHR '':'') (host @ '':'' @ port) = Some (length host)"
    using last_index_snoc [of "CHR '':''" port host] assms(2) by simp
  moreover have "hd (host @ '':'' @ port) \<noteq> CHR ''[''"
    using assms by (cases host) auto
  ultimately show ?thesis
    using False assms by (auto simp: SplitHostPort_def JoinHostPort_def)
qed

end
