(* ===== verification/Diagnostics.thy ===== *)
theory Diagnostics
  imports Go_Files Go_Net Metrics_Registry
begin

text \<open>
  \<open>src/diagnostics/flags.go\<close> and \<open>src/diagnostics/server.go\<close>: the options, the checks before the
  listener is opened, the life of the server, and the HTTP handlers as functions from a request to
  a response. A request path is the escaped path without percent escapes. Of a response the model
  keeps the status, the headers the program sets itself, and what the body is made from. The
  routing of \<open>http.ServeMux\<close> is modelled as far as the two muxes use it.
\<close>

section \<open>Options\<close>

definition diagnosticsTokenHexLength :: nat where "diagnosticsTokenHexLength = 64"

definition maxTokenFileBytes :: nat where "maxTokenFileBytes = 4096"

record diag_options =
  opt_ListenAddress :: string
  opt_TokenFile :: string
  opt_EnablePprof :: bool

record diag_config =
  ListenAddress :: string
  BearerToken :: string
  EnablePprof :: bool

datatype diag_error =
    PprofNeedsListen | TokenFileNeedsListen | TokenOpen | TokenIrregular | TokenMode | TokenIO | TokenTooLarge
  | TokenFormat | OptionsNeedListen | ListenAddressInvalid | ListenNotLoopback | ListenPort
  | NilContext | NilRegistry | ListenFailed | ListenerOutside

definition decodeToken :: "string \<Rightarrow> diag_error + string" where
  "decodeToken token =
     (if length token \<noteq> diagnosticsTokenHexLength then Inl TokenFormat
      else case hex_decode token of None \<Rightarrow> Inl TokenFormat | Some decoded \<Rightarrow> Inr decoded)"

text \<open>\<open>opened\<close> gives the file that opening a path reaches, links followed.\<close>

definition readTokenFile :: "os_env \<Rightarrow> filesystem \<Rightarrow> string \<Rightarrow> diag_error + string" where
  "readTokenFile env opened path =
     (case opened path of
        None \<Rightarrow> Inl TokenOpen
      | Some f \<Rightarrow>
          if file_kind f \<noteq> RegularFile then Inl TokenIrregular
          else if \<not> on_windows env \<and> too_broad (file_perm f) then Inl TokenMode
          else if read_fails env then Inl TokenIO
          else
            let data = take (maxTokenFileBytes + 1) (file_content f) in
            if length data > maxTokenFileBytes then Inl TokenTooLarge
            else
              let token = TrimSpace data in
              (case decodeToken token of Inl e \<Rightarrow> Inl e | Inr _ \<Rightarrow> Inr token))"

definition validateLoopbackAddress :: "string \<Rightarrow> diag_error option" where
  "validateLoopbackAddress address =
     (case SplitHostPort address of
        None \<Rightarrow> Some ListenAddressInvalid
      | Some (host, port) \<Rightarrow>
          if (case ParseIP host of None \<Rightarrow> True | Some ip \<Rightarrow> \<not> IsLoopback ip) then Some ListenNotLoopback
          else if (case Atoi port of None \<Rightarrow> True | Some portNumber \<Rightarrow> portNumber < 0 \<or> portNumber > 65535)
          then Some ListenPort
          else None)"

definition diag_Validate :: "diag_config \<Rightarrow> diag_error option" where
  "diag_Validate c =
     (let listenAddress = TrimSpace (ListenAddress c) in
      if listenAddress = [] then
        (if EnablePprof c \<or> BearerToken c \<noteq> [] then Some OptionsNeedListen else None)
      else case validateLoopbackAddress listenAddress of
        Some e \<Rightarrow> Some e
      | None \<Rightarrow> (case decodeToken (TrimSpace (BearerToken c)) of Inl e \<Rightarrow> Some e | Inr _ \<Rightarrow> None))"

definition empty_diag_config :: diag_config where
  "empty_diag_config = \<lparr>ListenAddress = [], BearerToken = [], EnablePprof = False\<rparr>"

definition diag_Config :: "os_env \<Rightarrow> filesystem \<Rightarrow> string \<Rightarrow> diag_options \<Rightarrow> diag_error + diag_config" where
  "diag_Config env opened envToken opts =
     (let listenAddress = TrimSpace (opt_ListenAddress opts); tokenFile = TrimSpace (opt_TokenFile opts) in
      if listenAddress = [] then
        if opt_EnablePprof opts then Inl PprofNeedsListen
        else if tokenFile \<noteq> [] then Inl TokenFileNeedsListen
        else Inr empty_diag_config
      else case (if tokenFile \<noteq> [] then readTokenFile env opened tokenFile else Inr (TrimSpace envToken)) of
        Inl e \<Rightarrow> Inl e
      | Inr token \<Rightarrow>
          let config = \<lparr>ListenAddress = listenAddress, BearerToken = token, EnablePprof = opt_EnablePprof opts\<rparr>
          in (case diag_Validate config of Some e \<Rightarrow> Inl e | None \<Rightarrow> Inr config))"

section \<open>Handlers\<close>

record request =
  Method :: string
  req_Path :: string
  Authorization :: string
  query_seconds :: string

datatype body = TextBody string | HealthBody | SnapshotBody Snapshot | PprofBody string | RedirectBody string

record response =
  status :: nat
  resp_headers :: "(string \<times> string) list"
  resp_body :: body

type_synonym handler = "request \<Rightarrow> response"

definition http_error :: "nat \<Rightarrow> string \<Rightarrow> (string \<times> string) list \<Rightarrow> response" where
  "http_error code text hs = \<lparr>status = code, resp_headers = hs, resp_body = TextBody text\<rparr>"

definition readOnlyJSON :: "body \<Rightarrow> handler" where
  "readOnlyJSON snapshot r =
     (if Method r \<noteq> ''GET'' \<and> Method r \<noteq> ''HEAD''
      then http_error 405 ''method not allowed'' [(''Allow'', ''GET, HEAD'')]
      else \<lparr>status = 200, resp_headers = [(''Content-Type'', ''application/json; charset=utf-8'')],
            resp_body = snapshot\<rparr>)"

definition requireBearerToken :: "string \<Rightarrow> handler \<Rightarrow> handler" where
  "requireBearerToken token next r =
     (let (scheme, rawToken, ok) = cut_char (CHR '' '') (TrimSpace (Authorization r));
          supplied = decodeToken (TrimSpace rawToken)
      in if \<not> ok \<or> \<not> EqualFold scheme ''Bearer'' \<or> supplied \<noteq> Inr token
         then http_error 401 ''unauthorized'' [(''WWW-Authenticate'', ''Bearer realm=\"vk-turn-proxy diagnostics\"'')]
         else next r)"

definition securityHeaders :: "handler \<Rightarrow> handler" where
  "securityHeaders next r =
     (let resp = next r in
      resp\<lparr>resp_headers := [(''Cache-Control'', ''no-store''), (''X-Content-Type-Options'', ''nosniff'')] @ resp_headers resp\<rparr>)"

definition limitPprofDuration :: "handler \<Rightarrow> handler" where
  "limitPprofDuration next r =
     (let limit = (if req_Path r = ''/debug/pprof/trace'' then 15 else 60); raw = query_seconds r in
      if raw \<noteq> [] \<and> (case Atoi raw of None \<Rightarrow> True | Some seconds \<Rightarrow> seconds < 1 \<or> seconds > limit)
      then http_error 400 (''seconds must be in 1..'' @ Itoa limit) []
      else next r)"

subsection \<open>Routing\<close>

text \<open>A route is an optional method, a path (a subtree if it ends in a slash) and a handler.\<close>

type_synonym route = "string option \<times> string \<times> handler"

definition method_matches :: "string option \<Rightarrow> string \<Rightarrow> bool" where
  "method_matches pm m \<longleftrightarrow> (case pm of None \<Rightarrow> True | Some g \<Rightarrow> m = g \<or> g = ''GET'' \<and> m = ''HEAD'')"

definition path_matches :: "string \<Rightarrow> string \<Rightarrow> bool" where
  "path_matches pat path \<longleftrightarrow> (if has_suffix pat ''/'' then has_prefix path pat else path = pat)"

text \<open>The most specific matching route; the routes used are ordered by inclusion.\<close>

fun best_route :: "route list \<Rightarrow> string \<Rightarrow> string \<Rightarrow> (string \<times> handler) option" where
  "best_route [] m path = None"
| "best_route ((pm, pat, h) # rs) m path =
     (if method_matches pm m \<and> path_matches pat path then
        case best_route rs m path of
          Some (pat', h') \<Rightarrow> if length pat < length pat' then Some (pat', h') else Some (pat, h)
        | None \<Rightarrow> Some (pat, h)
      else best_route rs m path)"

definition http_clean :: "string \<Rightarrow> string" where
  "http_clean p =
     (if p = [] then ''/''
      else let p' = (if hd p = CHR ''/'' then p else CHR ''/'' # p); np = Clean p'
           in if has_suffix p' ''/'' \<and> np \<noteq> ''/'' then np @ ''/'' else np)"

definition redirect_to :: "string \<Rightarrow> response" where
  "redirect_to target = \<lparr>status = 301, resp_headers = [(''Location'', target)], resp_body = RedirectBody target\<rparr>"

definition serve_mux :: "route list \<Rightarrow> handler" where
  "serve_mux rs r =
     (let path = (if Method r = ''CONNECT'' then req_Path r else http_clean (req_Path r));
          found = best_route rs (Method r) path
      in if Option.is_none found \<and> \<not> has_suffix path ''/'' \<and>
            list_ex (\<lambda>(pm, pat, _). method_matches pm (Method r) \<and> pat = path @ ''/'') rs
         then redirect_to (path @ ''/'')
         else if path \<noteq> req_Path r then redirect_to path
         else case found of
           Some (_, h) \<Rightarrow> h r
         | None \<Rightarrow>
             if list_ex (\<lambda>(_, pat, _). path_matches pat path) rs
             then http_error 405 ''Method Not Allowed'' [(''Allow'', ''GET, HEAD'')]
             else http_error 404 ''404 page not found'' [])"

definition pprof_handler :: "string \<Rightarrow> handler" where
  "pprof_handler name r = \<lparr>status = 200, resp_headers = [], resp_body = PprofBody name\<rparr>"

definition pprof_routes :: "route list" where
  "pprof_routes =
     [(Some ''GET'', ''/debug/pprof/'', pprof_handler ''index''),
      (Some ''GET'', ''/debug/pprof/cmdline'', pprof_handler ''cmdline''),
      (Some ''GET'', ''/debug/pprof/profile'', pprof_handler ''profile''),
      (Some ''GET'', ''/debug/pprof/symbol'', pprof_handler ''symbol''),
      (Some ''GET'', ''/debug/pprof/trace'', pprof_handler ''trace'')]"

definition main_routes :: "registry \<Rightarrow> bool \<Rightarrow> route list" where
  "main_routes reg enablePprof =
     [(None, ''/healthz'', readOnlyJSON HealthBody),
      (None, ''/metrics'', readOnlyJSON (SnapshotBody (take_snapshot reg)))] @
     (if enablePprof then [(None, ''/debug/pprof/'', limitPprofDuration (serve_mux pprof_routes))] else [])"

definition newHandler :: "registry \<Rightarrow> string \<Rightarrow> bool \<Rightarrow> handler" where
  "newHandler reg token enablePprof = securityHeaders (requireBearerToken token (serve_mux (main_routes reg enablePprof)))"

section \<open>The server\<close>

record diag_server =
  srv_token :: string
  srv_pprof :: bool
  srv_ip :: ip
  srv_done :: bool
  srv_serveErr :: "io_err option"
  srv_closed :: bool
  srv_closeErr :: "io_err list"
  shutdowns :: nat

datatype listen_outcome = ListenError | ListenTCP "ip option" | ListenNotTCP

datatype start_outcome = StartDisabled | StartRefused diag_error | Started diag_server

text \<open>\<open>Start\<close> and whether it closed a listener it had opened.\<close>

definition diag_Start ::
  "bool \<Rightarrow> registry option \<Rightarrow> (string \<Rightarrow> listen_outcome) \<Rightarrow> diag_config \<Rightarrow> start_outcome \<times> bool" where
  "diag_Start ctx_nil reg listen config0 =
     (let config = config0\<lparr>ListenAddress := TrimSpace (ListenAddress config0), BearerToken := TrimSpace (BearerToken config0)\<rparr>
      in case diag_Validate config of
        Some e \<Rightarrow> (StartRefused e, False)
      | None \<Rightarrow>
          if ListenAddress config = [] then (StartDisabled, False)
          else if ctx_nil then (StartRefused NilContext, False)
          else if reg = None then (StartRefused NilRegistry, False)
          else (case listen (ListenAddress config) of
                  ListenError \<Rightarrow> (StartRefused ListenFailed, False)
                | ListenTCP (Some addr) \<Rightarrow>
                    if \<not> IsLoopback addr then (StartRefused ListenerOutside, True)
                    else (Started \<lparr>srv_token = projr (decodeToken (BearerToken config)), srv_pprof = EnablePprof config,
                            srv_ip = addr, srv_done = False, srv_serveErr = None, srv_closed = False,
                            srv_closeErr = [], shutdowns = 0\<rparr>, False)
                | _ \<Rightarrow> (StartRefused ListenerOutside, True)))"

text \<open>The serving goroutine ends with the error of \<open>http.Server.Serve\<close>, \<open>None\<close> for \<open>ErrServerClosed\<close>.\<close>

definition srv_serve :: "io_err option \<Rightarrow> diag_server \<Rightarrow> diag_server" where
  "srv_serve err s = s\<lparr>srv_serveErr := err, srv_done := True\<rparr>"

text \<open>\<open>Close\<close> with the errors that shutdown and close return, \<open>ErrServerClosed\<close> already dropped.\<close>

definition srv_Close :: "io_err option \<Rightarrow> io_err option \<Rightarrow> diag_server option \<Rightarrow> io_err list \<times> diag_server option" where
  "srv_Close shutdownErr closeErr srv =
     (case srv of
        None \<Rightarrow> ([], None)
      | Some s \<Rightarrow>
          let s' = (if srv_closed s then s
                    else s\<lparr>srv_closed := True, shutdowns := shutdowns s + 1,
                           srv_closeErr := (case shutdownErr of Some e \<Rightarrow> [e] | None \<Rightarrow> []) @
                                           (case closeErr of Some e \<Rightarrow> [e] | None \<Rightarrow> [])\<rparr>)
          in (srv_closeErr s', Some s'))"

definition srv_Err :: "diag_server option \<Rightarrow> io_err option" where
  "srv_Err srv = (case srv of None \<Rightarrow> None | Some s \<Rightarrow> srv_serveErr s)"

definition srv_Done :: "diag_server option \<Rightarrow> bool" where
  "srv_Done srv = (case srv of None \<Rightarrow> True | Some s \<Rightarrow> srv_done s)"

definition srv_Addr :: "diag_server option \<Rightarrow> ip option" where
  "srv_Addr srv = map_option srv_ip srv"

section \<open>Access\<close>

definition bearer :: "string \<Rightarrow> request \<Rightarrow> bool" where
  "bearer token r \<longleftrightarrow>
     (let (scheme, rawToken, ok) = cut_char (CHR '' '') (TrimSpace (Authorization r))
      in ok \<and> EqualFold scheme ''Bearer'' \<and> decodeToken (TrimSpace rawToken) = Inr token)"

lemma requireBearerToken_cases:
  "bearer token r \<Longrightarrow> requireBearerToken token next r = next r"
  "\<not> bearer token r \<Longrightarrow> requireBearerToken token next r =
     http_error 401 ''unauthorized'' [(''WWW-Authenticate'', ''Bearer realm=\"vk-turn-proxy diagnostics\"'')]"
  by (auto simp: requireBearerToken_def bearer_def Let_def split: prod.splits)

lemma best_route_in:
  "best_route rs m path = Some (pat, h) \<Longrightarrow> \<exists>pm. (pm, pat, h) \<in> set rs \<and> method_matches pm m \<and> path_matches pat path"
  by (induction rs m path rule: best_route.induct) (auto split: if_splits option.splits prod.splits)

definition plain_body :: "body \<Rightarrow> bool" where
  "plain_body b = (case b of SnapshotBody _ \<Rightarrow> False | PprofBody _ \<Rightarrow> False | _ \<Rightarrow> True)"

lemma plain_errors [simp]:
  "plain_body (resp_body (http_error c t hs))" "plain_body (resp_body (redirect_to p))"
  by (simp_all add: plain_body_def http_error_def redirect_to_def)

lemma serve_mux_cases:
  "plain_body (resp_body (serve_mux rs r)) \<or>
   (\<exists>pm pat h. (pm, pat, h) \<in> set rs \<and> method_matches pm (Method r) \<and> path_matches pat (req_Path r) \<and> serve_mux rs r = h r)"
proof (cases "plain_body (resp_body (serve_mux rs r))")
  case False
  define path where "path = (if Method r = ''CONNECT'' then req_Path r else http_clean (req_Path r))"
  from False have "path = req_Path r" "\<exists>p h. best_route rs (Method r) path = Some (p, h) \<and> serve_mux rs r = h r"
    unfolding serve_mux_def Let_def path_def [symmetric]
    by (auto split: if_split_asm option.split_asm)
  then show ?thesis using best_route_in by metis
qed simp

lemma readOnlyJSON_body:
  "plain_body (resp_body (readOnlyJSON b r)) \<or>
   resp_body (readOnlyJSON b r) = b \<and> (Method r = ''GET'' \<or> Method r = ''HEAD'')"
  by (simp add: readOnlyJSON_def)

definition seconds_allowed :: "request \<Rightarrow> bool" where
  "seconds_allowed r \<longleftrightarrow> query_seconds r = [] \<or>
     (\<exists>n. Atoi (query_seconds r) = Some n \<and> 1 \<le> n \<and> n \<le> (if req_Path r = ''/debug/pprof/trace'' then 15 else 60))"

lemma limitPprofDuration_body:
  "plain_body (resp_body (limitPprofDuration next r)) \<or> limitPprofDuration next r = next r \<and> seconds_allowed r"
  by (auto simp: limitPprofDuration_def seconds_allowed_def Let_def split: option.split if_split)

lemma pprof_serve_body:
  "plain_body (resp_body (serve_mux pprof_routes r)) \<or> (\<exists>n. resp_body (serve_mux pprof_routes r) = PprofBody n)"
  using serve_mux_cases [of pprof_routes r] by (auto simp: pprof_routes_def pprof_handler_def)

lemma main_routes_body:
  assumes "\<not> plain_body (resp_body (serve_mux (main_routes reg p) r))"
  shows "(resp_body (serve_mux (main_routes reg p) r) = HealthBody) \<or>
    (resp_body (serve_mux (main_routes reg p) r) = SnapshotBody (take_snapshot reg) \<and> req_Path r = ''/metrics'' \<and>
       (Method r = ''GET'' \<or> Method r = ''HEAD'')) \<or>
    (\<exists>n. resp_body (serve_mux (main_routes reg p) r) = PprofBody n \<and> p \<and> seconds_allowed r \<and>
       has_prefix (req_Path r) ''/debug/pprof/'')"
proof -
  from assms serve_mux_cases [of "main_routes reg p" r] obtain pm pat h where
    h: "(pm, pat, h) \<in> set (main_routes reg p)" "path_matches pat (req_Path r)" "serve_mux (main_routes reg p) r = h r"
    by blast
  from h(1) consider "h = readOnlyJSON HealthBody"
    | "pat = ''/metrics''" "h = readOnlyJSON (SnapshotBody (take_snapshot reg))"
    | "p" "pat = ''/debug/pprof/''" "h = limitPprofDuration (serve_mux pprof_routes)"
    by (auto simp: main_routes_def split: if_split_asm)
  then show ?thesis
  proof cases
    case 1
    then show ?thesis using readOnlyJSON_body [of HealthBody r] assms h(3) by auto
  next
    case 2
    then show ?thesis
      using readOnlyJSON_body [of "SnapshotBody (take_snapshot reg)" r] assms h by (auto simp: path_matches_def has_suffix_def)
  next
    case 3
    then show ?thesis
      using limitPprofDuration_body [of "serve_mux pprof_routes" r] pprof_serve_body [of r] assms h
      by (auto simp: path_matches_def has_suffix_def)
  qed
qed

lemma newHandler_body: "resp_body (newHandler reg token p r) = resp_body (requireBearerToken token (serve_mux (main_routes reg p)) r)"
  and newHandler_status: "status (newHandler reg token p r) = status (requireBearerToken token (serve_mux (main_routes reg p)) r)"
  by (simp_all add: newHandler_def securityHeaders_def Let_def)

lemma cut_char_first: "c \<notin> set s \<Longrightarrow> cut_char c (s @ c # t) = (s, t, True)"
  by (simp add: cut_char_def takeWhile_append dropWhile_append)

lemma bearer_header:
  assumes "length token = 32" "Authorization r = ''Bearer '' @ hex_encode token"
  shows "bearer token r"
proof -
  have g: "list_all graphic (hex_encode token)" by (rule hex_encode_graphic)
  have ne: "hex_encode token \<noteq> []" using assms(1) by (cases token) simp_all
  have "TrimSpace (Authorization r) = Authorization r"
    using g ne assms(2) by (intro TrimSpace_graphic_ends) (auto simp: graphic_def list_all_iff)
  moreover have "cut_char (CHR '' '') (''Bearer'' @ CHR '' '' # hex_encode token) = (''Bearer'', hex_encode token, True)"
    by (rule cut_char_first) simp
  moreover have "decodeToken (TrimSpace (hex_encode token)) = Inr token"
    using TrimSpace_graphic [OF g] assms(1) by (simp add: decodeToken_def diagnosticsTokenHexLength_def)
  ultimately show ?thesis using assms(2) by (simp add: bearer_def EqualFold_def)
qed

text \<open>
  C38. Nothing is served without the token. Whatever the method and path, a request without the
  bearer token gets the same 401 answer, independent of the registry and the routes; the metrics snapshot
  goes out only to a token holder asking for \<open>/metrics\<close> by GET or HEAD; a profile only to one, only
  when profiling is enabled, and only for at most 60 seconds (15 for a trace); and a request
  with the token in the usual header is never answered 401. Every answer forbids caching.
\<close>

theorem diagnostics_access:
  assumes "length token = 32" and "resp = newHandler reg token enablePprof r"
  shows "(\<forall>s. resp_body resp = SnapshotBody s \<longrightarrow> bearer token r \<and> s = take_snapshot reg \<and>
            req_Path r = ''/metrics'' \<and> Method r \<in> {''GET'', ''HEAD''}) \<and>
    (\<forall>n. resp_body resp = PprofBody n \<longrightarrow> bearer token r \<and> enablePprof \<and> seconds_allowed r) \<and>
    (\<not> bearer token r \<longrightarrow> status resp = 401 \<and> (\<forall>reg' p'. resp = newHandler reg' token p' r)) \<and>
    (Authorization r = ''Bearer '' @ hex_encode token \<longrightarrow> resp_body resp = resp_body (serve_mux (main_routes reg enablePprof) r)) \<and>
    (''Cache-Control'', ''no-store'') \<in> set (resp_headers resp)"
proof (cases "bearer token r")
  case True
  have b: "resp_body resp = resp_body (serve_mux (main_routes reg enablePprof) r)"
    unfolding assms(2) newHandler_body requireBearerToken_cases(1) [OF True] ..
  have "(''Cache-Control'', ''no-store'') \<in> set (resp_headers resp)"
    by (simp add: assms(2) newHandler_def securityHeaders_def Let_def)
  moreover have "plain_body (resp_body resp) \<or> \<not> plain_body (resp_body resp)" by blast
  ultimately show ?thesis
    using True b main_routes_body [of reg enablePprof r] by (auto simp: plain_body_def)
next
  case False
  then have "resp = newHandler reg' token p' r" for reg' p'
    by (simp add: assms(2) newHandler_def securityHeaders_def requireBearerToken_cases(2))
  moreover have "(''Cache-Control'', ''no-store'') \<in> set (resp_headers resp)"
    by (simp add: assms(2) newHandler_def securityHeaders_def Let_def)
  moreover have "status resp = 401" "plain_body (resp_body resp)"
    using False by (simp_all add: assms(2) newHandler_body newHandler_status requireBearerToken_cases(2))
      (simp add: http_error_def)
  ultimately show ?thesis
    using False bearer_header [OF assms(1), of r] by (auto simp: plain_body_def)
qed

theorem diagnostics_access_witness:
  "status (newHandler (empty_registry None) (replicate 32 (CHR 0x41)) True
      \<lparr>Method = ''GET'', req_Path = ''/metrics'', Authorization = ''Bearer 00'', query_seconds = []\<rparr>) = 401 \<and>
   resp_body (newHandler (empty_registry None) (replicate 32 (CHR 0x41)) True
      \<lparr>Method = ''GET'', req_Path = ''/healthz'', Authorization = ''Bearer '' @ hex_encode (replicate 32 (CHR 0x41)),
       query_seconds = []\<rparr>) = HealthBody"
proof -
  let ?t = "replicate 32 (CHR 0x41)"
  let ?r1 = "\<lparr>Method = ''GET'', req_Path = ''/metrics'', Authorization = ''Bearer 00'', query_seconds = []\<rparr>"
  let ?r2 = "\<lparr>Method = ''GET'', req_Path = ''/healthz'', Authorization = ''Bearer '' @ hex_encode ?t, query_seconds = []\<rparr>"
  have l: "length ?t = 32" by simp
  have "\<not> bearer ?t ?r1" by code_simp
  then have one: "status (newHandler (empty_registry None) ?t True ?r1) = 401"
    using diagnostics_access [OF l refl, of "empty_registry None" True ?r1] by blast
  have "http_clean ''/healthz'' = ''/healthz''" by code_simp
  then have "resp_body (serve_mux (main_routes (empty_registry None) True) ?r2) = HealthBody"
    by (simp add: serve_mux_def main_routes_def path_matches_def has_suffix_def has_prefix_def method_matches_def readOnlyJSON_def)
  moreover have "Authorization ?r2 = ''Bearer '' @ hex_encode ?t" by (simp only: request.simps)
  ultimately have "resp_body (newHandler (empty_registry None) ?t True ?r2) = HealthBody"
    using diagnostics_access [OF l refl, of "empty_registry None" True ?r2] by metis
  with one show ?thesis by blast
qed

section \<open>Exposure\<close>

lemma decodeToken_length: "decodeToken t = Inr d \<Longrightarrow> length d = 32"
  using hex_decode_length by (fastforce simp: decodeToken_def diagnosticsTokenHexLength_def split: if_split_asm option.split_asm)

lemma Config_validates:
  "diag_Config env opened envToken opts = Inr config \<Longrightarrow>
     diag_Validate config = None \<and> TrimSpace (ListenAddress config) = ListenAddress config \<and>
     TrimSpace (BearerToken config) = BearerToken config"
  by (auto simp: diag_Config_def readTokenFile_def empty_diag_config_def diag_Validate_def Let_def
      split: if_split_asm option.split_asm sum.split_asm)

text \<open>
  C39. Diagnostics are never exposed. A server that starts has a listener on a loopback address,
  a listen address that is a literal loopback IP with a port in range, and a 256-bit token; a listener that turns out to
  be elsewhere is closed and refused; and a configuration that the options accepted is only
  refused later by the listener itself.
\<close>

theorem diagnostics_loopback_only:
  assumes "diag_Start ctx_nil reg listen config = (outcome, listener_closed)"
  shows "(\<forall>s. outcome = Started s \<longrightarrow> IsLoopback (srv_ip s) \<and> length (srv_token s) = 32 \<and> reg \<noteq> None \<and> \<not> listener_closed \<and>
            (\<exists>host port ip n. SplitHostPort (TrimSpace (ListenAddress config)) = Some (host, port) \<and>
               ParseIP host = Some ip \<and> IsLoopback ip \<and> Atoi port = Some n \<and> 0 \<le> n \<and> n \<le> 65535)) \<and>
    (outcome = StartRefused ListenerOutside \<longrightarrow> listener_closed) \<and>
    (\<forall>env opened envToken opts e. diag_Config env opened envToken opts = Inr config \<longrightarrow> \<not> ctx_nil \<longrightarrow> reg \<noteq> None \<longrightarrow>
       outcome = StartRefused e \<longrightarrow> e = ListenFailed \<or> e = ListenerOutside)"
proof -
  let ?c = "config\<lparr>ListenAddress := TrimSpace (ListenAddress config), BearerToken := TrimSpace (BearerToken config)\<rparr>"
  have refused: "e \<noteq> ListenerOutside" if "diag_Validate ?c = Some e" for e
    using that by (auto simp: diag_Validate_def validateLoopbackAddress_def decodeToken_def Let_def
        split: if_split_asm option.split_asm sum.split_asm)
  have started: "IsLoopback (srv_ip s) \<and> length (srv_token s) = 32 \<and> reg \<noteq> None \<and> \<not> listener_closed \<and> diag_Validate ?c = None \<and>
      TrimSpace (ListenAddress config) \<noteq> []" if "outcome = Started s" for s
    using assms that decodeToken_length
    by (auto simp: diag_Start_def diag_Validate_def Let_def split: if_split_asm option.split_asm listen_outcome.split_asm sum.split_asm)
  have loopback: "\<exists>host port ip n. SplitHostPort (TrimSpace (ListenAddress config)) = Some (host, port) \<and>
      ParseIP host = Some ip \<and> IsLoopback ip \<and> Atoi port = Some n \<and> 0 \<le> n \<and> n \<le> 65535"
    if "diag_Validate ?c = None" "TrimSpace (ListenAddress config) \<noteq> []"
    using that
    by (auto simp: diag_Validate_def validateLoopbackAddress_def Let_def split: if_split_asm option.split_asm)
  have cfg: "?c = config" if "diag_Config env opened envToken opts = Inr config" for env opened envToken opts
    using Config_validates [OF that] by simp
  have outside: "outcome = StartRefused ListenerOutside \<longrightarrow> listener_closed"
    using assms refused by (auto simp: diag_Start_def Let_def split: if_split_asm option.split_asm listen_outcome.split_asm)
  have config: "e = ListenFailed \<or> e = ListenerOutside"
    if "diag_Config env opened envToken opts = Inr config" "\<not> ctx_nil" "reg \<noteq> None" "outcome = StartRefused e"
    for env opened envToken opts e
    using assms that(2-4) Config_validates [OF that(1)] cfg [OF that(1)]
    by (auto simp: diag_Start_def Let_def split: if_split_asm option.split_asm listen_outcome.split_asm)
  show ?thesis
  proof (intro conjI allI impI)
    fix s
    assume s: "outcome = Started s"
    note st = started [OF s]
    show "IsLoopback (srv_ip s)" "length (srv_token s) = 32" "reg \<noteq> None" "\<not> listener_closed" using st by auto
    show "\<exists>host port ip n. SplitHostPort (TrimSpace (ListenAddress config)) = Some (host, port) \<and>
      ParseIP host = Some ip \<and> IsLoopback ip \<and> Atoi port = Some n \<and> 0 \<le> n \<and> n \<le> 65535"
      using st by (intro loopback) auto
  next
    assume "outcome = StartRefused ListenerOutside"
    with outside show listener_closed by blast
  next
    fix env opened envToken opts e
    assume "diag_Config env opened envToken opts = Inr config" "\<not> ctx_nil" "reg \<noteq> None" "outcome = StartRefused e"
    then show "e = ListenFailed \<or> e = ListenerOutside" by (rule config)
  qed
qed

definition example_diag_config :: diag_config where
  "example_diag_config = \<lparr>ListenAddress = ''127.0.0.1:9000'', BearerToken = hex_encode (replicate 32 (CHR 0x41)), EnablePprof = False\<rparr>"

theorem diagnostics_loopback_only_witness:
  "diag_Start False (Some (empty_registry None)) (\<lambda>_. ListenTCP (Some [127, 0, 0, 1])) example_diag_config \<noteq> (StartRefused ListenerOutside, False) \<and>
   snd (diag_Start False (Some (empty_registry None)) (\<lambda>_. ListenTCP (Some [10, 0, 0, 1])) example_diag_config)"
proof -
  have "fst (diag_Start False (Some (empty_registry None)) (\<lambda>_. ListenTCP (Some [10, 0, 0, 1])) example_diag_config) = StartRefused ListenerOutside"
    by code_simp
  then show ?thesis
    using diagnostics_loopback_only [OF prod.collapse [symmetric], of False "Some (empty_registry None)" "\<lambda>_. ListenTCP (Some [10, 0, 0, 1])" example_diag_config]
      diagnostics_loopback_only [of False "Some (empty_registry None)" "\<lambda>_. ListenTCP (Some [127, 0, 0, 1])" example_diag_config "StartRefused ListenerOutside" False]
    by blast
qed

end
