(* ===== verification/Server_Limits.thy ===== *)
theory Server_Limits
  imports Go_Net Metrics_Registry Transitions
begin

text \<open>
  \<open>src/server/connection_limiter.go\<close>, \<open>src/server/backend_limiter.go\<close> and
  \<open>src/server/udp_idle.go\<close>: admission control of the server. A lease is an index into a list of
  leases whose flag is the lease's \<open>sync.Once\<close>. What every limiter promises to the code that
  holds its leases is the locale \<open>slot_limiter\<close>; the connection limiter (slots keyed by IP), the
  concurrency limiter and the backend gate (slots keyed by session) are its interpretations.
  The lock-free \<open>Acquire\<close> of the concurrency limiter is also given at the granularity of its
  atomic instructions.
\<close>

section \<open>Connection limiter\<close>

definition defaultMaxTransportConnections :: int where "defaultMaxTransportConnections = 256"

definition defaultMaxTransportConnectionsPerIP :: int where "defaultMaxTransportConnectionsPerIP = 64"

definition maximumConfiguredConnectionLimit :: int where "maximumConfiguredConnectionLimit = 65535"

datatype connectionRejection =
  connectionAccepted | connectionRejectedInvalidIP | connectionRejectedGlobal | connectionRejectedPerIP

record connectionLimiter =
  maxTotal :: int
  maxPerIP :: int
  total :: int
  perIP :: "string \<rightharpoonup> int"

datatype limit_error = TotalOutOfRange | PerIPOutOfRange int

definition newConnectionLimiter :: "int \<Rightarrow> int \<Rightarrow> limit_error + connectionLimiter" where
  "newConnectionLimiter mt mp =
     (if mt < 1 \<or> mt > maximumConfiguredConnectionLimit then Inl TotalOutOfRange
      else if mp < 1 \<or> mp > mt then Inl (PerIPOutOfRange mt)
      else Inr \<lparr>maxTotal = mt, maxPerIP = mp, total = 0, perIP = Map.empty\<rparr>)"

text \<open>A remote address: nil, a UDP or TCP address with its IP bytes, or another one with its text.\<close>

datatype net_addr = NilAddr | UDPAddr ip | TCPAddr ip | OtherAddr string

definition ip_key :: "ip \<Rightarrow> string option" where
  "ip_key a =
     (case To4 a of
        Some b \<Rightarrow> Some (ip_string b)
      | None \<Rightarrow> (case To16 a of Some b \<Rightarrow> Some (ip_string b) | None \<Rightarrow> None))"

definition remoteIPKey :: "net_addr \<Rightarrow> string option" where
  "remoteIPKey remote =
     (case remote of
        NilAddr \<Rightarrow> None
      | UDPAddr a \<Rightarrow> ip_key a
      | TCPAddr a \<Rightarrow> ip_key a
      | OtherAddr s \<Rightarrow>
          (case SplitHostPort s of
             None \<Rightarrow> None
           | Some (host, _) \<Rightarrow> (case ParseIP host of None \<Rightarrow> None | Some a \<Rightarrow> ip_key a)))"

definition ip_count :: "connectionLimiter \<Rightarrow> string \<Rightarrow> int" where
  "ip_count l ip = (case perIP l ip of None \<Rightarrow> 0 | Some n \<Rightarrow> n)"

text \<open>The locked part of \<open>Acquire\<close>, on the key of the remote address.\<close>

definition acquire_key :: "connectionLimiter \<Rightarrow> string \<Rightarrow> connectionRejection + connectionLimiter" where
  "acquire_key l ip =
     (if total l \<ge> maxTotal l then Inl connectionRejectedGlobal
      else if ip_count l ip \<ge> maxPerIP l then Inl connectionRejectedPerIP
      else Inr (l\<lparr>total := total l + 1, perIP := (perIP l)(ip \<mapsto> ip_count l ip + 1)\<rparr>))"

definition AcquireConnection :: "connectionLimiter \<Rightarrow> net_addr \<Rightarrow> connectionRejection + connectionLimiter" where
  "AcquireConnection l remote =
     (case remoteIPKey remote of
        None \<Rightarrow> Inl connectionRejectedInvalidIP
      | Some ip \<Rightarrow> acquire_key l ip)"

definition release_ip :: "connectionLimiter \<Rightarrow> string \<Rightarrow> connectionLimiter" where
  "release_ip l ip =
     (let l1 = (if ip_count l ip \<le> 1 then l\<lparr>perIP := (perIP l)(ip := None)\<rparr>
                else l\<lparr>perIP := (perIP l)(ip \<mapsto> ip_count l ip - 1)\<rparr>)
      in if total l1 > 0 then l1\<lparr>total := total l1 - 1\<rparr> else l1)"

definition counts :: "connectionLimiter \<Rightarrow> string \<Rightarrow> int \<times> int" where
  "counts l ip = (total l, ip_count l ip)"

definition shouldLogResourceRejection :: "u64 \<Rightarrow> bool" where
  "shouldLogResourceRejection n \<longleftrightarrow> n \<noteq> 0 \<and> and n (n - 1) = 0"

section \<open>Concurrency limiter\<close>

definition defaultMaxBackendConnections :: int where "defaultMaxBackendConnections = 1024"

definition defaultMaxStreamsPerSession :: int where "defaultMaxStreamsPerSession = 256"

definition maximumConfiguredBackendLimit :: int where "maximumConfiguredBackendLimit = 65535"

datatype backendRejection = backendAccepted | backendRejectedGlobal | backendRejectedPerSession

record concurrencyLimiter =
  maximum :: int
  active :: int

definition newConcurrencyLimiter :: "int \<Rightarrow> concurrencyLimiter option" where
  "newConcurrencyLimiter mx =
     (if mx < 1 \<or> mx > maximumConfiguredBackendLimit then None else Some \<lparr>maximum = mx, active = 0\<rparr>)"

text \<open>\<open>Acquire\<close> and \<open>Release\<close> when no other goroutine runs in between.\<close>

definition AcquireSlot :: "concurrencyLimiter \<Rightarrow> concurrencyLimiter option" where
  "AcquireSlot l = (if active l \<ge> maximum l then None else Some (l\<lparr>active := active l + 1\<rparr>))"

definition release_slot :: "concurrencyLimiter \<Rightarrow> concurrencyLimiter" where
  "release_slot l = l\<lparr>active := active l - 1\<rparr>"

section \<open>Backend gate\<close>

text \<open>The gate together with the session limiters that \<open>NewSessionLimiter\<close> has handed out.\<close>

record backendGate =
  global :: concurrencyLimiter
  maxStreamsPerSession :: int
  gate_registry :: registry
  rejections :: u64
  sessions :: "concurrencyLimiter list"

datatype gate_error = GlobalLimitBad | PerSessionLimitBad int

definition newBackendGate :: "int \<Rightarrow> int \<Rightarrow> registry \<Rightarrow> gate_error + backendGate" where
  "newBackendGate mg ms reg =
     (case newConcurrencyLimiter mg of
        None \<Rightarrow> Inl GlobalLimitBad
      | Some g \<Rightarrow>
          if ms < 1 \<or> ms > mg then Inl (PerSessionLimitBad mg)
          else Inr \<lparr>global = g, maxStreamsPerSession = ms, gate_registry = reg, rejections = 0, sessions = []\<rparr>)"

text \<open>\<open>None\<close> is the panic of \<open>NewSessionLimiter\<close>.\<close>

definition NewSessionLimiter :: "backendGate \<Rightarrow> (nat \<times> backendGate) option" where
  "NewSessionLimiter g =
     (case newConcurrencyLimiter (maxStreamsPerSession g) of
        None \<Rightarrow> None
      | Some l \<Rightarrow> Some (length (sessions g), g\<lparr>sessions := sessions g @ [l]\<rparr>))"

definition recordRejection :: "backendGate \<Rightarrow> u64 \<times> backendGate" where
  "recordRejection g =
     (rejections g + 1,
      g\<lparr>gate_registry := gauge BackendLimitRejected (gate_registry g), rejections := rejections g + 1\<rparr>)"

definition AcquireBackend :: "backendGate \<Rightarrow> nat \<Rightarrow> (backendRejection \<times> u64) \<times> backendGate" where
  "AcquireBackend g s =
     (case AcquireSlot (sessions g ! s) of
        None \<Rightarrow> (let (n, g') = recordRejection g in ((backendRejectedPerSession, n), g'))
      | Some sl \<Rightarrow>
          let g1 = g\<lparr>sessions := (sessions g)[s := sl]\<rparr> in
          case AcquireSlot (global g1) of
            None \<Rightarrow>
              let g2 = g1\<lparr>sessions := (sessions g1)[s := release_slot (sessions g1 ! s)]\<rparr>;
                  (n, g') = recordRejection g2
              in ((backendRejectedGlobal, n), g')
          | Some gl \<Rightarrow>
              ((backendAccepted, 0),
               g1\<lparr>global := gl, gate_registry := gauge BackendStreamOpened (gate_registry g1)\<rparr>))"

definition release_backend :: "backendGate \<Rightarrow> nat \<Rightarrow> backendGate" where
  "release_backend g s =
     g\<lparr>sessions := (sessions g)[s := release_slot (sessions g ! s)],
       global := release_slot (global g),
       gate_registry := gauge BackendStreamClosed (gate_registry g)\<rparr>"

text \<open>One session limiter per smux session, for \<open>n\<close> sessions.\<close>

fun open_sessions :: "nat \<Rightarrow> backendGate \<Rightarrow> backendGate option" where
  "open_sessions 0 g = Some g"
| "open_sessions (Suc n) g = (case NewSessionLimiter g of None \<Rightarrow> None | Some (_, g') \<Rightarrow> open_sessions n g')"

section \<open>Leases\<close>

text \<open>
  A limiter with the leases it has handed out: the key of each and whether its \<open>once\<close> has run.
  \<open>LeaseRelease i\<close> is a call of \<open>Release\<close> on lease \<open>i\<close>; the second one does nothing.
\<close>

datatype 'k lease_op = LeaseAcquire 'k | LeaseRelease nat

type_synonym ('s, 'k) leased = "'s \<times> ('k \<times> bool) list"

fun lease_step ::
  "('s \<Rightarrow> 'k \<Rightarrow> bool \<times> 's) \<Rightarrow> ('s \<Rightarrow> 'k \<Rightarrow> 's) \<Rightarrow> 'k lease_op \<Rightarrow> ('s, 'k) leased \<Rightarrow> ('s, 'k) leased" where
  "lease_step acq rel (LeaseAcquire k) (s, ls) =
     (case acq s k of (granted, t) \<Rightarrow> (t, if granted then ls @ [(k, False)] else ls))"
| "lease_step acq rel (LeaseRelease i) (s, ls) =
     (if i < length ls \<and> \<not> snd (ls ! i)
      then (rel s (fst (ls ! i)), ls[i := (fst (ls ! i), True)]) else (s, ls))"

definition lease_run ::
  "('s \<Rightarrow> 'k \<Rightarrow> bool \<times> 's) \<Rightarrow> ('s \<Rightarrow> 'k \<Rightarrow> 's) \<Rightarrow> 'k lease_op list \<Rightarrow> 's \<Rightarrow> ('s, 'k) leased" where
  "lease_run acq rel ops s = fold (lease_step acq rel) ops (s, [])"

definition live_keys :: "('k \<times> bool) list \<Rightarrow> 'k multiset" where
  "live_keys ls = mset (map fst (filter (\<lambda>l. \<not> snd l) ls))"

text \<open>The limiters as clients see them: whether a lease was granted, and the new state.\<close>

definition conn_acquire :: "connectionLimiter \<Rightarrow> string \<Rightarrow> bool \<times> connectionLimiter" where
  "conn_acquire l ip = (case acquire_key l ip of Inl _ \<Rightarrow> (False, l) | Inr l' \<Rightarrow> (True, l'))"

definition slot_acquire :: "concurrencyLimiter \<Rightarrow> unit \<Rightarrow> bool \<times> concurrencyLimiter" where
  "slot_acquire l k = (case AcquireSlot l of None \<Rightarrow> (False, l) | Some l' \<Rightarrow> (True, l'))"

definition slot_release :: "concurrencyLimiter \<Rightarrow> unit \<Rightarrow> concurrencyLimiter" where
  "slot_release l k = release_slot l"

definition gate_acquire :: "backendGate \<Rightarrow> nat \<Rightarrow> bool \<times> backendGate" where
  "gate_acquire g s =
     (if s < length (sessions g)
      then (fst (fst (AcquireBackend g s)) = backendAccepted, snd (AcquireBackend g s))
      else (False, g))"

text \<open>The multiset of keys a limiter accounts for, and what its limits admit on top of it.\<close>

definition conn_held :: "int \<Rightarrow> int \<Rightarrow> connectionLimiter \<Rightarrow> string multiset \<Rightarrow> bool" where
  "conn_held mt mp l m \<longleftrightarrow> maxTotal l = mt \<and> maxPerIP l = mp \<and> total l = int (size m) \<and> int (size m) \<le> maxTotal l \<and>
     (\<forall>ip. perIP l ip = (if ip \<in># m then Some (int (count m ip)) else None) \<and>
           int (count m ip) \<le> maxPerIP l) \<and> 0 < maxPerIP l"

definition conn_admits :: "connectionLimiter \<Rightarrow> string multiset \<Rightarrow> string \<Rightarrow> bool" where
  "conn_admits l m ip \<longleftrightarrow> int (size m) < maxTotal l \<and> int (count m ip) < maxPerIP l"

definition slot_held :: "int \<Rightarrow> concurrencyLimiter \<Rightarrow> unit multiset \<Rightarrow> bool" where
  "slot_held mx l m \<longleftrightarrow> maximum l = mx \<and> active l = int (size m) \<and> int (size m) \<le> maximum l"

definition slot_admits :: "concurrencyLimiter \<Rightarrow> unit multiset \<Rightarrow> unit \<Rightarrow> bool" where
  "slot_admits l m k \<longleftrightarrow> int (size m) < maximum l"

definition gate_held :: "int \<Rightarrow> int \<Rightarrow> nat \<Rightarrow> backendGate \<Rightarrow> nat multiset \<Rightarrow> bool" where
  "gate_held mg ms k g m \<longleftrightarrow> maximum (global g) = mg \<and> length (sessions g) = k \<and>
     (\<forall>s < k. maximum (sessions g ! s) = ms) \<and> active (global g) = int (size m) \<and> int (size m) \<le> maximum (global g) \<and>
     (\<forall>s < length (sessions g). active (sessions g ! s) = int (count m s) \<and>
        int (count m s) \<le> maximum (sessions g ! s)) \<and>
     set_mset m \<subseteq> {..<length (sessions g)} \<and>
     activeBackendStreams (gate_registry g) = of_nat (size m)"

definition gate_admits :: "backendGate \<Rightarrow> nat multiset \<Rightarrow> nat \<Rightarrow> bool" where
  "gate_admits g m s \<longleftrightarrow> s < length (sessions g) \<and> int (count m s) < maximum (sessions g ! s) \<and>
     int (size m) < maximum (global g)"

section \<open>The lock-free acquire, instruction by instruction\<close>

text \<open>
  Goroutines running \<open>concurrencyLimiter.Acquire\<close> and releasing their lease: before the loop's
  \<open>Load\<close>, after it with the loaded value, holding a lease, refused, or done. The \<open>Load\<close>, the
  comparison with its return, a failing and a succeeding \<open>CompareAndSwap\<close> and the \<open>Add(-1)\<close> of the
  lease are one step each.
\<close>

datatype acquirer = Looping | Loaded int | Holding | Refused | Returned

record cas_state =
  cas_limiter :: concurrencyLimiter
  threads :: "acquirer list"

inductive cas_step :: "cas_state \<Rightarrow> cas_state \<Rightarrow> bool" where
  cas_load: "i < length (threads c) \<Longrightarrow> threads c ! i = Looping \<Longrightarrow>
    cas_step c (c\<lparr>threads := (threads c)[i := Loaded (active (cas_limiter c))]\<rparr>)"
| cas_refuse: "i < length (threads c) \<Longrightarrow> threads c ! i = Loaded v \<Longrightarrow> v \<ge> maximum (cas_limiter c) \<Longrightarrow>
    cas_step c (c\<lparr>threads := (threads c)[i := Refused]\<rparr>)"
| cas_retry: "i < length (threads c) \<Longrightarrow> threads c ! i = Loaded v \<Longrightarrow> v < maximum (cas_limiter c) \<Longrightarrow>
    active (cas_limiter c) \<noteq> v \<Longrightarrow> cas_step c (c\<lparr>threads := (threads c)[i := Looping]\<rparr>)"
| cas_swap: "i < length (threads c) \<Longrightarrow> threads c ! i = Loaded v \<Longrightarrow> v < maximum (cas_limiter c) \<Longrightarrow>
    active (cas_limiter c) = v \<Longrightarrow>
    cas_step c (c\<lparr>cas_limiter := (cas_limiter c)\<lparr>active := v + 1\<rparr>, threads := (threads c)[i := Holding]\<rparr>)"
| cas_release: "i < length (threads c) \<Longrightarrow> threads c ! i = Holding \<Longrightarrow>
    cas_step c (c\<lparr>cas_limiter := release_slot (cas_limiter c), threads := (threads c)[i := Returned]\<rparr>)"

definition cas_init :: "int \<Rightarrow> cas_state \<Rightarrow> bool" where
  "cas_init mx c \<longleftrightarrow> newConcurrencyLimiter mx = Some (cas_limiter c) \<and> set (threads c) \<subseteq> {Looping}"

definition cas_inv :: "int \<Rightarrow> cas_state \<Rightarrow> bool" where
  "cas_inv mx c \<longleftrightarrow> maximum (cas_limiter c) = mx \<and> 1 \<le> mx \<and> mx \<le> 65535 \<and>
     active (cas_limiter c) = int (count_list (threads c) Holding) \<and> active (cas_limiter c) \<le> mx"

section \<open>Idle watchdog\<close>

definition udpIdleTimeout :: int where "udpIdleTimeout = 30 * 60 * 1000000000"

definition udpPacketBufferSize :: nat where "udpPacketBufferSize = 2048"

text \<open>
  \<open>udpActivity\<close>, in nanoseconds since \<open>started\<close>: \<open>ts\<close> are the times at which \<open>touch\<close> was called
  besides the initial one at 0. The loop of \<open>waitUntilIdle\<close> reads the last one, arms a timer for
  the remaining time and waits; \<open>late k\<close> is how late the timer of a round fires, \<open>cancel\<close> the time
  at which the context is done, if ever. The first argument bounds the rounds.
\<close>

definition last_touch :: "int list \<Rightarrow> int \<Rightarrow> int" where
  "last_touch ts now = foldr max (filter (\<lambda>t. t \<le> now) ts) 0"

fun waitUntilIdle :: "nat \<Rightarrow> (nat \<Rightarrow> int) \<Rightarrow> int option \<Rightarrow> int \<Rightarrow> int list \<Rightarrow> int \<Rightarrow> (bool \<times> int) option" where
  "waitUntilIdle 0 late cancel timeout ts now = None"
| "waitUntilIdle (Suc k) late cancel timeout ts now =
     (let idleFor = now - last_touch ts now; remaining = timeout - idleFor in
      if remaining \<le> 0 then Some (True, now)
      else let fires = now + remaining + late k in
        case cancel of
          Some c \<Rightarrow> if c \<le> fires then Some (False, max c now)
                    else waitUntilIdle k late cancel timeout ts fires
        | None \<Rightarrow> waitUntilIdle k late cancel timeout ts fires)"

section \<open>The contract of a limiter\<close>

text \<open>Lemmas on the bookkeeping of leases, independent of the limiter.\<close>

lemma live_keys_snoc [simp]: "live_keys (ls @ [(k, False)]) = add_mset k (live_keys ls)"
  by (simp add: live_keys_def)

lemma live_keys_release:
  "i < length ls \<Longrightarrow> \<not> snd (ls ! i) \<Longrightarrow>
     fst (ls ! i) \<in># live_keys ls \<and> live_keys (ls[i := (fst (ls ! i), True)]) = live_keys ls - {#fst (ls ! i)#}"
proof (induction ls arbitrary: i)
  case (Cons l ls)
  show ?case
  proof (cases i)
    case 0
    then show ?thesis using Cons.prems by (simp add: live_keys_def)
  next
    case (Suc j)
    then have "fst (ls ! j) \<in># live_keys ls"
      "live_keys (ls[j := (fst (ls ! j), True)]) = live_keys ls - {#fst (ls ! j)#}"
      using Cons.IH [of j] Cons.prems by simp_all
    moreover have "live_keys (l # xs) = (if snd l then live_keys xs else add_mset (fst l) (live_keys xs))" for xs
      by (simp add: live_keys_def)
    ultimately show ?thesis using Suc by simp
  qed
qed simp

lemma size_remove: "k \<in># m \<Longrightarrow> 0 < size m \<and> size (m - {#k#}) = size m - 1"
  by (auto dest: multi_member_split)

lemma int_size_remove: "k \<in># m \<Longrightarrow> int (size (m - {#k#})) = int (size m) - 1"
  using size_remove [of k m] by simp

locale slot_limiter =
  fixes acquire :: "'s \<Rightarrow> 'k \<Rightarrow> bool \<times> 's"
    and release :: "'s \<Rightarrow> 'k \<Rightarrow> 's"
    and held :: "'s \<Rightarrow> 'k multiset \<Rightarrow> bool"
    and admits :: "'s \<Rightarrow> 'k multiset \<Rightarrow> 'k \<Rightarrow> bool"
  assumes acquire_granted: "held s m \<Longrightarrow> acquire s k = (True, t) \<Longrightarrow> admits s m k \<and> held t (add_mset k m)"
    and acquire_refused: "held s m \<Longrightarrow> acquire s k = (False, t) \<Longrightarrow> \<not> admits s m k \<and> held t m"
    and release_held: "held s m \<Longrightarrow> k \<in># m \<Longrightarrow> held (release s k) (m - {#k#})"
begin

lemma granted_iff: "held s m \<Longrightarrow> fst (acquire s k) \<longleftrightarrow> admits s m k"
  using acquire_granted [of s m k] acquire_refused [of s m k]
  by (cases "acquire s k"; cases "fst (acquire s k)") auto

lemma lease_step_held:
  assumes "held (fst st) (live_keys (snd st))"
  shows "held (fst (lease_step acquire release oper st)) (live_keys (snd (lease_step acquire release oper st)))"
proof (cases st)
  case (Pair s ls)
  show ?thesis
  proof (cases oper)
    case (LeaseAcquire k)
    obtain ok t where "acquire s k = (ok, t)" by fastforce
    then show ?thesis
      using assms Pair LeaseAcquire acquire_granted [of s "live_keys ls" k t] acquire_refused [of s "live_keys ls" k t]
      by (cases ok) simp_all
  next
    case (LeaseRelease i)
    then show ?thesis
      using assms Pair release_held live_keys_release [of i ls] by simp
  qed
qed

lemma lease_run_held:
  assumes "held s {#}" "lease_run acquire release ops s = (t, ls)"
  shows "held t (live_keys ls)"
proof -
  have "held (fst st) (live_keys (snd st)) \<Longrightarrow>
      held (fst (fold (lease_step acquire release) ops st)) (live_keys (snd (fold (lease_step acquire release) ops st)))" for st
    using lease_step_held by (induction ops arbitrary: st) simp_all
  from this [of "(s, [])"] show ?thesis
    using assms by (simp add: lease_run_def live_keys_def)
qed

end

interpretation conn_limiter: slot_limiter conn_acquire release_ip "conn_held mt mp" conn_admits for mt mp
proof (unfold_locales, goal_cases)
  case (1 s m k t)
  then have cnt: "ip_count s k = int (count m k)"
    by (auto simp: conn_held_def ip_count_def not_in_iff)
  with 1 show ?case
    by (auto simp: conn_acquire_def acquire_key_def conn_held_def conn_admits_def split: if_splits)
next
  case (2 s m k t)
  then have cnt: "ip_count s k = int (count m k)"
    by (auto simp: conn_held_def ip_count_def not_in_iff)
  with 2 show ?case
    by (auto simp: conn_acquire_def acquire_key_def conn_admits_def conn_held_def split: if_splits)
next
  case (3 s m k)
  then have cnt: "ip_count s k = int (count m k)" and pos: "0 < count m k"
    by (auto simp: conn_held_def ip_count_def)
  have "int (count m k) \<le> maxPerIP s" using 3(1) by (auto simp: conn_held_def)
  then have "int (count m k) - 1 \<le> maxPerIP s" by linarith
  with 3 cnt pos size_remove [of k m] int_size_remove [of k m] show ?case
    by (auto simp: release_ip_def conn_held_def Let_def in_diff_count not_in_iff)
qed

interpretation slot_limiter_conc: slot_limiter slot_acquire slot_release "slot_held mx" slot_admits for mx
  by unfold_locales
    (auto simp: slot_acquire_def slot_release_def AcquireSlot_def release_slot_def slot_held_def slot_admits_def
      int_size_remove simp del: size_Diff_singleton split: if_splits)

lemma AcquireBackend_cases:
  assumes held: "gate_held mg ms k g m" and s: "s < length (sessions g)"
  shows "gate_admits g m s \<Longrightarrow> AcquireBackend g s =
      ((backendAccepted, 0),
       g\<lparr>sessions := (sessions g)[s := (sessions g ! s)\<lparr>active := int (count m s) + 1\<rparr>],
         global := (global g)\<lparr>active := int (size m) + 1\<rparr>,
         gate_registry := gauge BackendStreamOpened (gate_registry g)\<rparr>)"
    and "\<not> gate_admits g m s \<Longrightarrow> fst (fst (AcquireBackend g s)) \<noteq> backendAccepted \<and>
      snd (AcquireBackend g s) = snd (recordRejection g)"
proof -
  have sess: "active (sessions g ! s) = int (count m s)" and gl: "active (global g) = int (size m)"
    using held s by (simp_all add: gate_held_def)
  show "gate_admits g m s \<Longrightarrow> AcquireBackend g s =
      ((backendAccepted, 0),
       g\<lparr>sessions := (sessions g)[s := (sessions g ! s)\<lparr>active := int (count m s) + 1\<rparr>],
         global := (global g)\<lparr>active := int (size m) + 1\<rparr>,
         gate_registry := gauge BackendStreamOpened (gate_registry g)\<rparr>)"
    by (simp add: AcquireBackend_def AcquireSlot_def gate_admits_def sess gl Let_def)
  have restored: "(sessions g ! s)\<lparr>active := int (count m s)\<rparr> = sessions g ! s"
    using sess by (cases "sessions g ! s") simp
  have same: "g\<lparr>sessions := (sessions g)[s := (sessions g ! s)\<lparr>active := int (count m s)\<rparr>]\<rparr> = g"
    unfolding restored by (cases g) simp
  show "\<not> gate_admits g m s \<Longrightarrow> fst (fst (AcquireBackend g s)) \<noteq> backendAccepted \<and>
      snd (AcquireBackend g s) = snd (recordRejection g)"
    using s
    by (auto simp: same AcquireBackend_def AcquireSlot_def release_slot_def gate_admits_def sess gl Let_def
        split: if_splits prod.splits)
qed

interpretation gate_limiter: slot_limiter gate_acquire release_backend "gate_held mg ms k" gate_admits for mg ms k
proof (unfold_locales, goal_cases)
  case (1 g m s g')
  then have s: "s < length (sessions g)" by (simp add: gate_acquire_def split: if_splits)
  have adm: "gate_admits g m s"
    using 1(2) s AcquireBackend_cases(2) [OF 1(1) s] by (auto simp: gate_acquire_def)
  then have "g' = g\<lparr>sessions := (sessions g)[s := (sessions g ! s)\<lparr>active := int (count m s) + 1\<rparr>],
         global := (global g)\<lparr>active := int (size m) + 1\<rparr>,
         gate_registry := gauge BackendStreamOpened (gate_registry g)\<rparr>"
    using 1(2) s AcquireBackend_cases(1) [OF 1(1) s] by (simp add: gate_acquire_def)
  with 1(1) s adm show ?case
    by (auto simp: gate_held_def gate_admits_def nth_list_update)
next
  case (2 g m s g')
  show ?case
  proof (cases "s < length (sessions g)")
    case True
    then have "\<not> gate_admits g m s" using 2(2) AcquireBackend_cases(1) [OF 2(1) True] by (auto simp: gate_acquire_def)
    with 2 True AcquireBackend_cases(2) [OF 2(1) True] show ?thesis
      by (auto simp: gate_acquire_def recordRejection_def gate_held_def)
  qed (use 2 in \<open>auto simp: gate_acquire_def gate_admits_def\<close>)
next
  case (3 g m s)
  then have s: "s < length (sessions g)" and pos: "0 < count m s" by (auto simp: gate_held_def)
  have le: "int (count m q) \<le> maximum (sessions g ! q)" if "q < length (sessions g)" for q
    using 3(1) that by (auto simp: gate_held_def)
  have le': "int (count m s - 1) \<le> maximum (sessions g ! s)" using le [OF s] by linarith
  obtain n where m: "m = add_mset s n" using 3(2) by (auto dest: multi_member_split)
  from 3(1) s pos le le' show ?case
    unfolding m by (auto simp: gate_held_def release_backend_def release_slot_def nth_list_update)
qed

section \<open>Connection limits\<close>

lemma new_conn_held:
  "newConnectionLimiter mt mp = Inr l \<Longrightarrow> conn_held mt mp l {#}"
  by (auto simp: newConnectionLimiter_def conn_held_def split: if_splits)

text \<open>
  After any sequence of connections arriving and leases being released (each as often as
  competing clean-up paths like): the limiter's total is the number of leases not yet released
  and never exceeds the configured maximum, the count of an address is the number of its
  unreleased leases and never exceeds the per-address maximum, and addresses without a lease
  leave no entry behind.
\<close>

theorem connection_limits:
  assumes "newConnectionLimiter mt mp = Inr l"
    and "lease_run conn_acquire release_ip ops l = (t, ls)"
  shows "counts t ip = (int (size (live_keys ls)), int (count (live_keys ls) ip)) \<and>
    int (size (live_keys ls)) \<le> mt \<and> int (count (live_keys ls) ip) \<le> mp \<and>
    (perIP t ip = None \<longleftrightarrow> ip \<notin># live_keys ls)"
  using conn_limiter.lease_run_held [OF new_conn_held [OF assms(1)] assms(2)]
  by (auto simp: conn_held_def counts_def ip_count_def not_in_iff)

theorem connection_limits_witness:
  "\<exists>l t ls. newConnectionLimiter 2 1 = Inr l \<and>
     lease_run conn_acquire release_ip
       [LeaseAcquire ''1.2.3.4'', LeaseAcquire ''1.2.3.4'', LeaseRelease 0, LeaseRelease 0] l = (t, ls) \<and>
     counts t ''1.2.3.4'' = (0, 0) \<and> perIP t ''1.2.3.4'' = None"
proof -
  let ?l = "\<lparr>maxTotal = 2, maxPerIP = 1, total = 0, perIP = Map.empty\<rparr>"
  let ?ops = "[LeaseAcquire ''1.2.3.4'', LeaseAcquire ''1.2.3.4'', LeaseRelease 0, LeaseRelease 0]"
  have n: "newConnectionLimiter 2 1 = Inr ?l"
    by (simp add: newConnectionLimiter_def maximumConfiguredConnectionLimit_def)
  obtain t ls where r: "lease_run conn_acquire release_ip ?ops ?l = (t, ls)" by fastforce
  then have "live_keys ls = {#}"
    by (auto simp: lease_run_def conn_acquire_def acquire_key_def ip_count_def release_ip_def live_keys_def)
  with connection_limits [OF n r, of "''1.2.3.4''"] n r show ?thesis by auto
qed

text \<open>
  The limiter refuses exactly when a limit is reached, and says which: with \<open>n\<close> leases held,
  \<open>k\<close> of them by the caller's address, \<open>Acquire\<close> reports the global limit if \<open>n\<close> is the maximum,
  else the per-address limit if \<open>k\<close> is, and otherwise grants a lease. An address without a valid
  IP is refused before any limit is looked at.
\<close>

theorem connection_refusals_exact:
  assumes "newConnectionLimiter mt mp = Inr l"
    and "lease_run conn_acquire release_ip ops l = (t, ls)"
  shows "(case remoteIPKey remote of
      None \<Rightarrow> AcquireConnection t remote = Inl connectionRejectedInvalidIP
    | Some ip \<Rightarrow>
        (if int (size (live_keys ls)) = mt then AcquireConnection t remote = Inl connectionRejectedGlobal
         else if int (count (live_keys ls) ip) = mp then AcquireConnection t remote = Inl connectionRejectedPerIP
         else \<exists>t'. AcquireConnection t remote = Inr t'))"
proof (cases "remoteIPKey remote")
  case (Some ip)
  have h: "conn_held mt mp t (live_keys ls)"
    by (rule conn_limiter.lease_run_held [OF new_conn_held [OF assms(1)] assms(2)])
  then have "ip_count t ip = int (count (live_keys ls) ip)" "int (count (live_keys ls) ip) \<le> mp"
    by (auto simp: conn_held_def ip_count_def not_in_iff)
  with h Some show ?thesis
    by (auto simp: AcquireConnection_def acquire_key_def conn_held_def)
qed (simp add: AcquireConnection_def)

theorem connection_refusals_exact_witness:
  "\<exists>l t ls. newConnectionLimiter 2 1 = Inr l \<and>
     lease_run conn_acquire release_ip [LeaseAcquire ''1.2.3.4''] l = (t, ls) \<and>
     AcquireConnection t (UDPAddr [1, 2, 3, 4]) = Inl connectionRejectedPerIP \<and>
     AcquireConnection t NilAddr = Inl connectionRejectedInvalidIP"
proof -
  let ?l = "\<lparr>maxTotal = 2, maxPerIP = 1, total = 0, perIP = Map.empty\<rparr>"
  have n: "newConnectionLimiter 2 1 = Inr ?l"
    by (simp add: newConnectionLimiter_def maximumConfiguredConnectionLimit_def)
  obtain t ls where r: "lease_run conn_acquire release_ip [LeaseAcquire ''1.2.3.4''] ?l = (t, ls)" by fastforce
  then have "live_keys ls = {#''1.2.3.4''#}"
    by (auto simp: lease_run_def conn_acquire_def acquire_key_def ip_count_def live_keys_def)
  moreover have "remoteIPKey (UDPAddr [1, 2, 3, 4]) = Some ''1.2.3.4''" "remoteIPKey NilAddr = None"
    by code_simp+
  ultimately show ?thesis
    using connection_refusals_exact [OF n r, of "UDPAddr [1, 2, 3, 4]"]
      connection_refusals_exact [OF n r, of NilAddr] n r by auto
qed

section \<open>Address keys\<close>

text \<open>
  The limiter's key identifies an IPv4 source: two IPv4 addresses have the same key exactly
  when they are equal, however they are represented (4 bytes, or the 16-byte mapped form that a
  dual-stack socket reports), so no client gets a second allowance through its representation.
\<close>

theorem ipv4_key_injective:
  assumes "is_ipv4 a" "is_ipv4 b"
  shows "(remoteIPKey (UDPAddr a) = remoteIPKey (UDPAddr b) \<longleftrightarrow> a = b) \<and>
    remoteIPKey (UDPAddr (v4_mapped @ a)) = remoteIPKey (UDPAddr a) \<and>
    remoteIPKey (TCPAddr a) = remoteIPKey (UDPAddr a) \<and>
    remoteIPKey (UDPAddr a) = Some (ipv4_string a)"
  using assms ipv4_string_inj [OF assms]
  by (simp add: remoteIPKey_def ip_key_def To4_def ip_string_def is_ipv4_def v4_mapped_def)

theorem ipv4_key_injective_witness:
  "remoteIPKey (UDPAddr [10, 0, 0, 1]) \<noteq> remoteIPKey (UDPAddr [10, 0, 0, 2]) \<and>
   remoteIPKey (UDPAddr (v4_mapped @ [10, 0, 0, 1])) = remoteIPKey (UDPAddr [10, 0, 0, 1])"
proof -
  have "is_ipv4 [10, 0, 0, 1]" "is_ipv4 [10, 0, 0, 2]" by (simp_all add: is_ipv4_def)
  note t = ipv4_key_injective [OF this]
  have "(remoteIPKey (UDPAddr [10, 0, 0, 1]) = remoteIPKey (UDPAddr [10, 0, 0, 2])) = ([10, 0, 0, 1] = [10, 0, 0, 2 :: nat])"
    using t by blast
  then have "remoteIPKey (UDPAddr [10, 0, 0, 1]) \<noteq> remoteIPKey (UDPAddr [10, 0, 0, 2])" by simp
  with t show ?thesis by blast
qed

section \<open>Log throttling\<close>

lemma and_pred_power_of_two:
  fixes n :: nat
  assumes "0 < n"
  shows "and (int n) (int n - 1) = 0 \<longleftrightarrow> (\<exists>k. n = 2 ^ k)"
  using assms
proof (induction n rule: less_induct)
  case (less n)
  show ?case
  proof (cases "even n")
    case True
    then obtain m where m: "n = 2 * m" by blast
    with less.prems have "0 < m" "m < n" by simp_all
    have "(2 * int m - 1) div 2 = int m - 1" by presburger
    then have "and (int n) (int n - 1) = 2 * and (int m) (int m - 1)"
      unfolding m by (subst and_rec) simp
    moreover have "(\<exists>k. n = 2 ^ k) \<longleftrightarrow> (\<exists>k. m = 2 ^ k)"
    proof
      assume "\<exists>k. n = 2 ^ k"
      then obtain k where "n = 2 ^ k" by blast
      with m \<open>0 < m\<close> show "\<exists>k. m = 2 ^ k" by (cases k) auto
    next
      assume "\<exists>k. m = 2 ^ k"
      with m show "\<exists>k. n = 2 ^ k" by (metis power_Suc)
    qed
    ultimately show ?thesis using less.IH [OF \<open>m < n\<close> \<open>0 < m\<close>] by simp
  next
    case False
    then obtain m where m: "n = 2 * m + 1" by (blast elim: oddE)
    have "and (int n) (int n - 1) = 2 * int m"
      unfolding m by (subst and_rec) simp
    moreover have "(\<exists>k. n = 2 ^ k) \<longleftrightarrow> m = 0"
    proof
      assume "\<exists>k. n = 2 ^ k"
      then obtain k where "n = 2 ^ k" by blast
      with False have "k = 0" by (cases k) auto
      with m \<open>n = 2 ^ k\<close> show "m = 0" by simp
    qed (use m in \<open>auto intro: exI [of _ 0]\<close>)
    ultimately show ?thesis by simp
  qed
qed

lemma uint_pred: "n \<noteq> 0 \<Longrightarrow> uint (n - 1) = uint n - 1"
  for n :: u64
proof -
  assume "n \<noteq> 0"
  then have "0 < unat n" "unat (n - 1) = unat n - 1" by (simp_all add: unat_gt_0 unat_minus_one)
  then have "int (unat (n - 1)) = int (unat n) - 1" by linarith
  then show ?thesis by (simp only: of_nat_unat)
qed

text \<open>
  Rejections are logged at the 1st, 2nd, 4th, 8th, ... only: the bit test of
  \<open>shouldLogResourceRejection\<close> holds exactly for the powers of two.
\<close>

theorem log_at_powers_of_two:
  "shouldLogResourceRejection n \<longleftrightarrow> (\<exists>k. unat n = 2 ^ k)"
proof (cases "n = 0")
  case False
  then have pos: "0 < unat n" by (simp add: unat_gt_0)
  have "and n (n - 1) = 0 \<longleftrightarrow> uint (and n (n - 1)) = 0" by (rule uint_0_iff [symmetric])
  also have "\<dots> \<longleftrightarrow> and (int (unat n)) (int (unat n) - 1) = 0"
    using uint_pred [OF False] by (simp only: unsigned_and_eq of_nat_unat)
  also have "\<dots> \<longleftrightarrow> (\<exists>k. unat n = 2 ^ k)" by (rule and_pred_power_of_two [OF pos])
  finally show ?thesis using False by (simp add: shouldLogResourceRejection_def)
qed (simp add: shouldLogResourceRejection_def)

section \<open>Backend limits\<close>

lemma open_sessions_fresh:
  assumes "1 \<le> ms" "ms \<le> 65535" "maxStreamsPerSession g = ms"
  shows "open_sessions n g = Some (g\<lparr>sessions := sessions g @ replicate n \<lparr>maximum = ms, active = 0\<rparr>\<rparr>)"
  using assms(3)
proof (induction n arbitrary: g)
  case (Suc n)
  have "NewSessionLimiter g = Some (length (sessions g), g\<lparr>sessions := sessions g @ [\<lparr>maximum = ms, active = 0\<rparr>]\<rparr>)"
    using Suc.prems assms(1,2)
    by (simp add: NewSessionLimiter_def newConcurrencyLimiter_def maximumConfiguredBackendLimit_def)
  with Suc.IH [of "g\<lparr>sessions := sessions g @ [\<lparr>maximum = ms, active = 0\<rparr>]\<rparr>"] Suc.prems show ?case
    by simp
qed simp

lemma new_gate:
  assumes "newBackendGate mg ms reg = Inr g"
  shows "g = \<lparr>global = \<lparr>maximum = mg, active = 0\<rparr>, maxStreamsPerSession = ms, gate_registry = reg,
      rejections = 0, sessions = []\<rparr>" "1 \<le> ms" "ms \<le> mg" "mg \<le> 65535"
  using assms
  by (auto simp: newBackendGate_def newConcurrencyLimiter_def maximumConfiguredBackendLimit_def
      split: option.splits if_splits)

lemma new_gate_held:
  assumes "newBackendGate mg ms reg = Inr g" "activeBackendStreams reg = 0"
  shows "\<exists>g1. open_sessions n g = Some g1 \<and> gate_held mg ms n g1 {#}"
proof -
  note g = new_gate [OF assms(1)]
  have "open_sessions n g = Some (g\<lparr>sessions := sessions g @ replicate n \<lparr>maximum = ms, active = 0\<rparr>\<rparr>)"
    using g by (intro open_sessions_fresh) simp_all
  then show ?thesis using g assms(2) by (simp add: gate_held_def)
qed

lemma size_gate_held: "gate_held mg ms n g m \<Longrightarrow> mg \<le> 65535 \<Longrightarrow> sint (activeBackendStreams (gate_registry g)) = int (size m)"
  using sint_of_nat_small [of "size m"] by (auto simp: gate_held_def)

text \<open>
  Backend streams. For a gate the configuration accepts, opening sessions never panics. After any
  sequence of streams being opened and leases being released, the global count is the number of
  unreleased leases and at most the global limit, each session's count is the number of its
  unreleased leases and at most the per-session limit, and the \<open>active_backend_streams\<close> gauge
  agrees. A stream is refused exactly when one of the two limits is reached; a refusal by the
  global limit gives the session slot back.
\<close>

theorem backend_limits:
  assumes "newBackendGate mg ms reg = Inr g0" "activeBackendStreams reg = 0"
  shows "\<exists>g1. open_sessions n g0 = Some g1 \<and>
    (\<forall>ops g ls. lease_run gate_acquire release_backend ops g1 = (g, ls) \<longrightarrow>
       active (global g) = int (size (live_keys ls)) \<and> int (size (live_keys ls)) \<le> mg \<and>
       sint (activeBackendStreams (gate_registry g)) = int (size (live_keys ls)) \<and>
       (\<forall>s < n. active (sessions g ! s) = int (count (live_keys ls) s) \<and> int (count (live_keys ls) s) \<le> ms \<and>
          (fst (fst (AcquireBackend g s)) = backendAccepted \<longleftrightarrow>
             int (count (live_keys ls) s) < ms \<and> int (size (live_keys ls)) < mg)))"
proof -
  obtain g1 where g1: "open_sessions n g0 = Some g1" "gate_held mg ms n g1 {#}"
    using new_gate_held [OF assms] by blast
  have mg: "mg \<le> 65535" by (rule new_gate(4) [OF assms(1)])
  have "active (global g) = int (size (live_keys ls)) \<and> int (size (live_keys ls)) \<le> mg \<and>
       sint (activeBackendStreams (gate_registry g)) = int (size (live_keys ls)) \<and>
       (\<forall>s < n. active (sessions g ! s) = int (count (live_keys ls) s) \<and> int (count (live_keys ls) s) \<le> ms \<and>
          (fst (fst (AcquireBackend g s)) = backendAccepted \<longleftrightarrow>
             int (count (live_keys ls) s) < ms \<and> int (size (live_keys ls)) < mg))"
    if r: "lease_run gate_acquire release_backend ops g1 = (g, ls)" for ops g ls
  proof -
    have h: "gate_held mg ms n g (live_keys ls)" by (rule gate_limiter.lease_run_held [OF g1(2) r])
    have "fst (fst (AcquireBackend g s)) = backendAccepted \<longleftrightarrow> gate_admits g (live_keys ls) s" if "s < n" for s
      using gate_limiter.granted_iff [OF h, of s] h that by (simp add: gate_acquire_def gate_held_def)
    with h size_gate_held [OF h mg] show ?thesis by (auto simp: gate_held_def gate_admits_def)
  qed
  with g1(1) show ?thesis by blast
qed

theorem backend_limits_witness:
  "\<exists>g0 g1. newBackendGate 2 1 (empty_registry None) = Inr g0 \<and> open_sessions 3 g0 = Some g1 \<and>
     fst (fst (AcquireBackend (fst (lease_run gate_acquire release_backend [LeaseAcquire 0] g1)) 0)) \<noteq> backendAccepted"
proof -
  let ?g0 = "\<lparr>global = \<lparr>maximum = 2, active = 0\<rparr>, maxStreamsPerSession = 1, gate_registry = empty_registry None,
      rejections = 0, sessions = []\<rparr>"
  have n: "newBackendGate 2 1 (empty_registry None) = Inr ?g0"
    by (simp add: newBackendGate_def newConcurrencyLimiter_def maximumConfiguredBackendLimit_def)
  have z: "activeBackendStreams (empty_registry None) = 0" by (simp add: empty_registry_def)
  from backend_limits [OF n z, of 3] obtain g1 where g1: "open_sessions 3 ?g0 = Some g1" and
    lim: "\<And>ops g ls s. lease_run gate_acquire release_backend ops g1 = (g, ls) \<Longrightarrow> s < 3 \<Longrightarrow>
      fst (fst (AcquireBackend g s)) = backendAccepted \<longleftrightarrow>
             int (count (live_keys ls) s) < 1 \<and> int (size (live_keys ls)) < 2"
    by blast
  obtain g ls where r: "lease_run gate_acquire release_backend [LeaseAcquire 0] g1 = (g, ls)" by fastforce
  have "fst (gate_acquire g1 0)"
    using lim [of "[]" g1 "[]" 0] g1 n open_sessions_fresh [of 1 ?g0 3]
    by (auto simp: lease_run_def live_keys_def gate_acquire_def)
  then have "live_keys ls = {#0#}"
    using r by (cases "gate_acquire g1 0") (auto simp: lease_run_def live_keys_def)
  with lim [OF r, of 0] n g1 r show ?thesis by auto
qed

section \<open>Lock-free acquire\<close>

lemma count_list_update:
  "i < length xs \<Longrightarrow> int (count_list (xs[i := y]) x) =
     int (count_list xs x) - (if xs ! i = x then 1 else 0) + (if y = x then 1 else 0)"
proof (induction xs arbitrary: i)
  case (Cons z zs)
  show ?case
  proof (cases i)
    case (Suc j)
    with Cons.IH [of j] Cons.prems show ?thesis by (auto split: if_splits)
  qed simp
qed simp

interpretation cas_system: invariant_system "cas_init mx" cas_step "cas_inv mx" for mx
proof
  show "cas_init mx c \<Longrightarrow> cas_inv mx c" for c
  proof -
    assume a: "cas_init mx c"
    then have "Holding \<notin> set (threads c)" "cas_limiter c = \<lparr>maximum = mx, active = 0\<rparr>" "1 \<le> mx" "mx \<le> 65535"
      by (auto simp: cas_init_def newConcurrencyLimiter_def maximumConfiguredBackendLimit_def split: if_splits)
    then show ?thesis by (simp add: cas_inv_def)
  qed
  show "cas_inv mx c \<Longrightarrow> cas_step c d \<Longrightarrow> cas_inv mx d" for c d
    by (erule cas_step.cases) (auto simp: cas_inv_def count_list_update release_slot_def)
qed



section \<open>Idle watchdog\<close>

lemma foldr_max_ge: "t \<in> set ts \<Longrightarrow> t \<le> foldr max ts (z :: int)"
  by (induction ts) auto

lemma foldr_max_in: "foldr max ts (z :: int) = z \<or> foldr max ts z \<in> set ts"
  by (induction ts) (auto simp: max_def)

lemma last_touch_ge: "t \<in> set ts \<Longrightarrow> t \<le> now \<Longrightarrow> t \<le> last_touch ts now"
  by (simp add: last_touch_def foldr_max_ge)

lemma last_touch_in: "last_touch ts now = 0 \<or> last_touch ts now \<in> set ts"
  using foldr_max_in [of "filter (\<lambda>t. t \<le> now) ts" 0] by (auto simp: last_touch_def)

lemma last_touch_nonneg: "0 \<le> last_touch ts now"
  unfolding last_touch_def by (induction ts) auto

definition later :: "int list \<Rightarrow> int \<Rightarrow> int set" where
  "later ts now = {t \<in> set ts. last_touch ts now < t}"

lemma later_decreases:
  assumes "last_touch ts now < last_touch ts now'"
  shows "card (later ts now') < card (later ts now)"
proof (rule psubset_card_mono)
  have "last_touch ts now' \<in> set ts" using assms last_touch_in [of ts now'] last_touch_nonneg [of ts now] by linarith
  then show "later ts now' \<subset> later ts now" using assms by (auto simp: later_def)
qed (simp add: later_def)

lemma waitUntilIdle_returns:
  assumes "\<And>k. 0 \<le> late k" "card (later ts now) < k"
  shows "\<exists>r. waitUntilIdle (Suc k) late cancel timeout ts now = Some r"
  using assms(2)
proof (induction k arbitrary: now)
  case (Suc k)
  let ?fires = "now + (timeout - (now - last_touch ts now)) + late (Suc k)"
  have "\<exists>r. waitUntilIdle (Suc k) late cancel timeout ts ?fires = Some r"
  proof (cases "timeout - (?fires - last_touch ts ?fires) \<le> 0")
    case True
    then have "waitUntilIdle (Suc k) late cancel timeout ts ?fires = Some (True, ?fires)" by (simp add: Let_def)
    then show ?thesis by blast
  next
    case False
    then have "last_touch ts now < last_touch ts ?fires" using assms(1) [of "Suc k"] by linarith
    from later_decreases [OF this] Suc.prems have "card (later ts ?fires) < k" by linarith
    then show ?thesis by (rule Suc.IH)
  qed
  then show ?case by (auto simp: Let_def split: option.splits)
qed simp

lemma waitUntilIdle_result:
  "waitUntilIdle k late cancel timeout ts now = Some (r, T) \<Longrightarrow>
     (r \<longrightarrow> T - last_touch ts T \<ge> timeout) \<and> (\<not> r \<longrightarrow> (\<exists>c. cancel = Some c \<and> c \<le> T))"
  by (induction k arbitrary: now) (auto simp: Let_def split: if_splits option.splits)

text \<open>
  C20. The idle watchdog of a UDP session terminates: with one round more than there are packets
  plus one it has returned, however late its timers fire. When it reports idleness, no packet
  was recorded during the whole timeout before that moment; when it reports otherwise, the
  session's context was done. Without cancellation it therefore always reports idleness.
\<close>

theorem idle_watchdog:
  assumes "\<And>k. 0 \<le> late k" "length ts + 1 < fuel"
  shows "\<exists>r T. waitUntilIdle fuel late cancel timeout ts now = Some (r, T) \<and>
    (if r then \<forall>t \<in> set ts. t \<le> T \<longrightarrow> t \<le> T - timeout else \<exists>c. cancel = Some c \<and> c \<le> T)"
proof -
  have "card (later ts now) \<le> card (set ts)" by (rule card_mono) (auto simp: later_def)
  also have "\<dots> \<le> length ts" by (rule card_length)
  finally have "card (later ts now) < fuel - 1" using assms(2) by linarith
  with assms(1) have "\<exists>r. waitUntilIdle (Suc (fuel - 1)) late cancel timeout ts now = Some r"
    by (rule waitUntilIdle_returns)
  then obtain r T where w: "waitUntilIdle fuel late cancel timeout ts now = Some (r, T)"
    using assms(2) by auto
  from waitUntilIdle_result [OF w] last_touch_ge [of _ ts T] w show ?thesis by force
qed

theorem idle_watchdog_witness:
  "waitUntilIdle 5 (\<lambda>_. 1) None 10 [4, 12] 0 = Some (True, 23) \<and> (12 :: int) \<le> 23 - 10"
proof -
  have "waitUntilIdle 5 (\<lambda>_. 1) None 10 [4, 12] 0 = Some (True, 23)" by code_simp
  with idle_watchdog [of "\<lambda>_. 1" "[4, 12]" 5 None 10 0] show ?thesis by simp
qed

end
