(* ===== verification/Client_Config.thy ===== *)
theory Client_Config
  imports Bond_Supervisor Session_Auth Dtls_Auth Diagnostics Server_Limits
begin

text \<open>
  \<open>src/client/main.go\<close> and \<open>src/server/main.go\<close>, the command lines: the checks and normalisations of the flags and
  the order in which \<open>main\<close> applies them before anything is opened. A flag set is a record; a
  start that exits, by \<open>log.Fatalf\<close> or a panic, is an error value.
\<close>

section \<open>Client flags\<close>

datatype flag_error =
    NoDTLSUnsupported | DohUnsupported | DnsModeUnsupported | WrapUnsupported | BondNeedsVLESS
  | NegativeSessions | TooManyBondSessions | ListenAddress_bad | ListenNonLoopback
  | BadResolver string | ResolverEmptyHost string | ResolverPort string | NoResolvers
  | BadFingerprint dtls_error | TokenAndDisable | BadToken token_error | BadTuning | BadDiagnostics diag_error
  | BadBondProtocol | NeedPeer | PeerUnresolved | ListenUnresolved | NeedLink | BadIdentity dtls_error
  | BadConnectionLimits | BadBackendLimits | NeedConnect

definition defaultStreamsPerCache :: int where "defaultStreamsPerCache = 10"

definition validateClientVLESSFlags :: "bool \<Rightarrow> bool \<Rightarrow> int \<Rightarrow> flag_error option" where
  "validateClientVLESSFlags vlessMode vlessBond streamCount =
     (if vlessBond \<and> \<not> vlessMode then Some BondNeedsVLESS
      else if vlessMode \<and> streamCount < 0 then Some NegativeSessions
      else if vlessMode \<and> vlessBond \<and> streamCount > MaxBondPaths then Some TooManyBondSessions
      else None)"

definition normalizeVLESSSessionCount :: "int \<Rightarrow> int" where
  "normalizeVLESSSessionCount streamCount = (if streamCount \<le> 0 then 1 else streamCount)"

definition normalizeUDPPathCount :: "bool \<Rightarrow> int \<Rightarrow> bool \<Rightarrow> int" where
  "normalizeUDPPathCount vlessMode pathCount unsafeMultipath =
     (if \<not> vlessMode \<and> pathCount > 1 \<and> \<not> unsafeMultipath then 1 else pathCount)"

definition normalizeStreamsPerCredential :: "int \<Rightarrow> int" where
  "normalizeStreamsPerCredential streams = (if streams \<le> 0 then defaultStreamsPerCache else streams)"

definition validateClientListenAddress :: "string \<Rightarrow> bool \<Rightarrow> flag_error option" where
  "validateClientListenAddress address unsafeNonLoopback =
     (case SplitHostPort (TrimSpace address) of
        None \<Rightarrow> Some ListenAddress_bad
      | Some (host, _) \<Rightarrow>
          if (case ParseIP host of Some ip \<Rightarrow> IsLoopback ip | None \<Rightarrow> False) then None
          else if unsafeNonLoopback then None
          else Some ListenNonLoopback)"

definition validateClientCompatibilityFlags :: "bool \<Rightarrow> string \<Rightarrow> bool \<Rightarrow> string \<Rightarrow> bool \<Rightarrow> flag_error option" where
  "validateClientCompatibilityFlags noDTLS dnsMode wrap wrapKey generateWrapKey =
     (if noDTLS then Some NoDTLSUnsupported
      else let mode = ToLower (TrimSpace dnsMode) in
        if mode = ''doh'' then Some DohUnsupported
        else if mode \<notin> {[], ''auto'', ''udp''} then Some DnsModeUnsupported
        else if wrap \<or> wrapKey \<noteq> [] \<or> generateWrapKey then Some WrapUnsupported
        else None)"

subsection \<open>Resolvers\<close>

definition dns_separator :: "char \<Rightarrow> bool" where
  "dns_separator c \<longleftrightarrow> c \<in> {CHR '','', CHR '';'', CHR '' '', CHR 0x09, CHR 0x0A, CHR 0x0D}"

text \<open>\<open>strings.FieldsFunc\<close> with a predicate on bytes.\<close>

fun fields_func :: "(char \<Rightarrow> bool) \<Rightarrow> string \<Rightarrow> string \<Rightarrow> string list" where
  "fields_func f cur [] = (if cur = [] then [] else [rev cur])"
| "fields_func f cur (c # s) =
     (if f c then (if cur = [] then [] else [rev cur]) @ fields_func f [] s else fields_func f (c # cur) s)"

definition parse_resolver :: "string \<Rightarrow> flag_error + string" where
  "parse_resolver addr =
     (let normalized = (case SplitHostPort addr of None \<Rightarrow> JoinHostPort addr ''53'' | Some _ \<Rightarrow> addr) in
      case SplitHostPort normalized of
        None \<Rightarrow> Inl (BadResolver addr)
      | Some (host, port) \<Rightarrow>
          if host = [] then Inl (ResolverEmptyHost addr)
          else if (case Atoi port of None \<Rightarrow> True | Some portNumber \<Rightarrow> portNumber < 1 \<or> portNumber > 65535)
          then Inl (ResolverPort addr)
          else Inr normalized)"

fun parse_resolvers :: "string list \<Rightarrow> flag_error + string list" where
  "parse_resolvers [] = Inr []"
| "parse_resolvers (part # parts) =
     (let addr = TrimSpace part in
      if addr = [] then parse_resolvers parts
      else case parse_resolver addr of
        Inl e \<Rightarrow> Inl e
      | Inr server \<Rightarrow> (case parse_resolvers parts of Inl e \<Rightarrow> Inl e | Inr servers \<Rightarrow> Inr (server # servers)))"

definition parseDNSServers :: "string \<Rightarrow> flag_error + string list" where
  "parseDNSServers raw =
     (case parse_resolvers (fields_func dns_separator [] raw) of
        Inl e \<Rightarrow> Inl e
      | Inr servers \<Rightarrow> if servers = [] then Inl NoResolvers else Inr servers)"

definition defaultDNSResolvers :: "string list" where
  "defaultDNSResolvers =
     [''77.88.8.8:53'', ''77.88.8.1:53'', ''8.8.8.8:53'', ''8.8.4.4:53'', ''1.1.1.1:53'', ''1.0.0.1:53'']"

subsection \<open>The call link\<close>

text \<open>The last part of \<open>strings.Split(link, "join/")\<close>, up to the first \<open>/\<close>, \<open>?\<close> or \<open>#\<close>.\<close>

fun after_join :: "string \<Rightarrow> string \<Rightarrow> string" where
  "after_join cur [] = rev cur"
| "after_join cur (c # s) =
     (if take 5 (c # s) = ''join/'' then after_join [] (drop 4 s) else after_join (c # cur) s)"

definition call_link :: "string \<Rightarrow> string" where
  "call_link vklink = takeWhile (\<lambda>c. c \<notin> {CHR ''/'', CHR ''?'', CHR ''#''}) (after_join [] vklink)"

section \<open>Starting the client\<close>

record client_flags =
  cf_listen :: string
  cf_unsafeListen :: bool
  cf_vklink :: string
  cf_peer :: string
  cf_n :: int
  cf_streamsPerCred :: int
  cf_unsafeMultipath :: bool
  cf_noDTLS :: bool
  cf_vless :: bool
  cf_vlessBond :: bool
  cf_bondProtocol :: string
  cf_dns :: string
  cf_dnsServers :: string
  cf_wrap :: bool
  cf_wrapKey :: string
  cf_genWrapKey :: bool
  cf_fingerprint :: string
  cf_insecure :: bool
  cf_tokenFile :: string
  cf_disableAuth :: bool
  cf_diagnostics :: diag_options

record client_config =
  cc_authentication :: ClientAuthentication
  cc_token :: "string option"
  cc_diagnostics :: "diag_server option"
  cc_bondMode :: vlessBondProtocolMode
  cc_streamsPerCache :: int
  cc_resolvers :: "string list"
  cc_link :: string
  cc_paths :: int

text \<open>What the process finds outside: files, the diagnostics token variable, the tuning with the errors
  of its environment, which addresses resolve, the listener the diagnostics server gets, and the metrics of the process.\<close>

record process_env =
  pe_os :: os_env
  pe_files :: filesystem
  pe_opened :: filesystem
  pe_diagToken :: string
  pe_tuning :: tuning_state
  pe_resolves :: "string \<Rightarrow> bool"
  pe_listen :: "string \<Rightarrow> listen_outcome"
  pe_registry :: registry

definition start_diagnostics :: "process_env \<Rightarrow> diag_config \<Rightarrow> flag_error + diag_server option" where
  "start_diagnostics env diag =
     (case fst (diag_Start False (Some (pe_registry env)) (pe_listen env) diag) of
        StartRefused e \<Rightarrow> Inl (BadDiagnostics e)
      | StartDisabled \<Rightarrow> Inr None
      | Started server \<Rightarrow> Inr (Some server))"

definition client_token :: "process_env \<Rightarrow> client_flags \<Rightarrow> flag_error + string option" where
  "client_token env f =
     (if cf_disableAuth f then
        if cf_tokenFile f \<noteq> [] then Inl TokenAndDisable else Inr None
      else case LoadTokenFile (pe_os env) (pe_files env) (cf_tokenFile f) of
        Inl e \<Rightarrow> Inl (BadToken e)
      | Inr token \<Rightarrow> Inr (Some token))"

definition client_resolvers :: "client_flags \<Rightarrow> flag_error + string list" where
  "client_resolvers f =
     (if TrimSpace (cf_dnsServers f) \<noteq> [] then parseDNSServers (cf_dnsServers f) else Inr defaultDNSResolvers)"

definition client_paths :: "client_flags \<Rightarrow> int" where
  "client_paths f =
     (let n = (if cf_n f \<le> 0 \<and> cf_vless f then 10 else if cf_n f \<le> 0 then 1 else cf_n f)
      in normalizeUDPPathCount (cf_vless f) n (cf_unsafeMultipath f))"

definition client_main :: "process_env \<Rightarrow> client_flags \<Rightarrow> flag_error + client_config" where
  "client_main env f =
     (case validateClientCompatibilityFlags (cf_noDTLS f) (cf_dns f) (cf_wrap f) (cf_wrapKey f) (cf_genWrapKey f) of
        Some e \<Rightarrow> Inl e
      | None \<Rightarrow>
     (case validateClientListenAddress (cf_listen f) (cf_unsafeListen f) of
        Some e \<Rightarrow> Inl e
      | None \<Rightarrow>
     (case NewClientAuthentication (cf_fingerprint f) (cf_insecure f) of
        Inl e \<Rightarrow> Inl (BadFingerprint e)
      | Inr authentication \<Rightarrow>
     (case client_token env f of
        Inl e \<Rightarrow> Inl e
      | Inr token \<Rightarrow>
     (if ValidateTuning (pe_tuning env) \<noteq> [] then Inl BadTuning
      else case diag_Config (pe_os env) (pe_opened env) (pe_diagToken env) (cf_diagnostics f) of
        Inl e \<Rightarrow> Inl (BadDiagnostics e)
      | Inr diag \<Rightarrow>
     (case parseVLESSBondProtocolMode (cf_bondProtocol f) of
        None \<Rightarrow> Inl BadBondProtocol
      | Some mode \<Rightarrow>
     (case validateClientVLESSFlags (cf_vless f) (cf_vlessBond f) (cf_n f) of
        Some e \<Rightarrow> Inl e
      | None \<Rightarrow>
     (case client_resolvers f of
        Inl e \<Rightarrow> Inl e
      | Inr resolvers \<Rightarrow>
          if cf_peer f = [] then Inl NeedPeer
          else if \<not> pe_resolves env (cf_peer f) then Inl PeerUnresolved
          else if cf_vklink f = [] then Inl NeedLink
          else (case start_diagnostics env diag of
            Inl e \<Rightarrow> Inl e
          | Inr server \<Rightarrow>
              Inr \<lparr>cc_authentication = authentication, cc_token = token, cc_diagnostics = server, cc_bondMode = mode,
                cc_streamsPerCache = normalizeStreamsPerCredential (cf_streamsPerCred f), cc_resolvers = resolvers,
                cc_link = call_link (cf_vklink f), cc_paths = client_paths f\<rparr>)))))))))"

section \<open>Starting the server\<close>

definition validateServerVLESSFlags :: "bool \<Rightarrow> bool \<Rightarrow> flag_error option" where
  "validateServerVLESSFlags vlessMode vlessBond = (if vlessBond \<and> \<not> vlessMode then Some BondNeedsVLESS else None)"

definition validateServerCompatibilityFlags :: "bool \<Rightarrow> string \<Rightarrow> bool \<Rightarrow> flag_error option" where
  "validateServerCompatibilityFlags wrap wrapKey generateWrapKey =
     (if wrap \<or> wrapKey \<noteq> [] \<or> generateWrapKey then Some WrapUnsupported else None)"

definition enabledText :: "bool \<Rightarrow> string" where
  "enabledText enabled = (if enabled then ''enabled'' else ''disabled'')"

record server_flags =
  sf_connect :: string
  sf_listen :: string
  sf_vless :: bool
  sf_vlessBond :: bool
  sf_wrap :: bool
  sf_wrapKey :: string
  sf_genWrapKey :: bool
  sf_maxConnections :: int
  sf_maxConnectionsPerIP :: int
  sf_maxBackend :: int
  sf_maxStreams :: int
  sf_certFile :: string
  sf_keyFile :: string
  sf_tokenFile :: string
  sf_unsafeClients :: bool
  sf_diagnostics :: diag_options

record server_config =
  sc_limiter :: connectionLimiter
  sc_gate :: backendGate
  sc_diagnostics :: "diag_server option"
  sc_identity :: serverDTLSIdentity
  sc_token :: "string option"

text \<open>The token, and the files after it was created or loaded.\<close>

definition server_token :: "os_env \<Rightarrow> filesystem \<Rightarrow> server_flags \<Rightarrow> (flag_error + string option) \<times> filesystem" where
  "server_token os fs f =
     (if sf_unsafeClients f then
        (if sf_tokenFile f \<noteq> [] then Inl TokenAndDisable else Inr None, fs)
      else case LoadOrCreateTokenFile os fs (sf_tokenFile f) of
        (Inl e, fs') \<Rightarrow> (Inl (BadToken e), fs')
      | (Inr (token, _), fs') \<Rightarrow> (Inr (Some token), fs'))"

definition server_main ::
  "crypto \<Rightarrow> process_env \<Rightarrow> server_flags \<Rightarrow> (flag_error + server_config) \<times> filesystem" where
  "server_main c env f =
     (let fs = pe_files env; os = pe_os env in
      case validateServerCompatibilityFlags (sf_wrap f) (sf_wrapKey f) (sf_genWrapKey f) of
        Some e \<Rightarrow> (Inl e, fs)
      | None \<Rightarrow>
     (case newConnectionLimiter (sf_maxConnections f) (sf_maxConnectionsPerIP f) of
        Inl _ \<Rightarrow> (Inl BadConnectionLimits, fs)
      | Inr limiter \<Rightarrow>
     (case newBackendGate (sf_maxBackend f) (sf_maxStreams f) (pe_registry env) of
        Inl _ \<Rightarrow> (Inl BadBackendLimits, fs)
      | Inr gate \<Rightarrow>
     (if ValidateTuning (pe_tuning env) \<noteq> [] then (Inl BadTuning, fs)
      else case diag_Config os (pe_opened env) (pe_diagToken env) (sf_diagnostics f) of
        Inl e \<Rightarrow> (Inl (BadDiagnostics e), fs)
      | Inr diag \<Rightarrow>
     (case validateServerVLESSFlags (sf_vless f) (sf_vlessBond f) of
        Some e \<Rightarrow> (Inl e, fs)
      | None \<Rightarrow>
     (case loadServerDTLSIdentity c os fs (sf_certFile f) (sf_keyFile f) of
        (Inl e, fs1) \<Rightarrow> (Inl (BadIdentity e), fs1)
      | (Inr ident, fs1) \<Rightarrow>
     (case server_token os fs1 f of
        (Inl e, fs2) \<Rightarrow> (Inl e, fs2)
      | (Inr token, fs2) \<Rightarrow>
     (case start_diagnostics env diag of
        Inl e \<Rightarrow> (Inl e, fs2)
      | Inr server \<Rightarrow>
          if \<not> pe_resolves env (sf_listen f) then (Inl ListenUnresolved, fs2)
          else if sf_connect f = [] then (Inl NeedConnect, fs2)
          else (Inr \<lparr>sc_limiter = limiter, sc_gate = gate, sc_diagnostics = server, sc_identity = ident, sc_token = token\<rparr>, fs2)))))))))"

section \<open>What a started client is\<close>

lemma hex_char_is_hex: "n < 16 \<Longrightarrow> is_hex_byte (hex_char n)"
  by (auto simp: is_hex_byte_def hex_char_def is_digit_def)

lemma hex_encode_is_hex: "list_all is_hex_byte (hex_encode bs)"
  by (induction bs) (auto intro: hex_char_is_hex)

lemma generated_id_valid: "length b = 16 \<Longrightarrow> isValidBondID (hex_encode b)"
  by (simp add: isValidBondID_def hex_encode_is_hex)

lemma client_main_parts:
  assumes "client_main env f = Inr cfg"
  shows "validateClientListenAddress (cf_listen f) (cf_unsafeListen f) = None"
    and "NewClientAuthentication (cf_fingerprint f) (cf_insecure f) = Inr (cc_authentication cfg)"
    and "client_token env f = Inr (cc_token cfg)" and "ValidateTuning (pe_tuning env) = []"
    and "validateClientVLESSFlags (cf_vless f) (cf_vlessBond f) (cf_n f) = None"
    and "client_resolvers f = Inr (cc_resolvers cfg)" and "cc_paths cfg = client_paths f"
    and "cc_streamsPerCache cfg = normalizeStreamsPerCredential (cf_streamsPerCred f)"
  using assms by (auto simp: client_main_def split: option.split_asm sum.split_asm if_split_asm)

lemma client_paths_bounds:
  assumes "validateClientVLESSFlags (cf_vless f) (cf_vlessBond f) (cf_n f) = None"
  shows "1 \<le> client_paths f" and "cf_vlessBond f \<Longrightarrow> client_paths f \<le> 64"
    and "\<not> cf_vless f \<Longrightarrow> \<not> cf_unsafeMultipath f \<Longrightarrow> client_paths f = 1"
  using assms
  by (auto simp: client_paths_def normalizeUDPPathCount_def validateClientVLESSFlags_def MaxBondPaths_def Let_def split: if_split_asm)

lemma NewClientAuthentication_mode:
  "NewClientAuthentication fp ins = Inr a \<Longrightarrow>
     (Insecure a \<longleftrightarrow> ins) \<and> auth_mode a \<noteq> authenticationUnset"
  by (auto simp: NewClientAuthentication_def Insecure_def Let_def split: if_split_asm sum.split_asm)

lemma client_token_cases:
  assumes "client_token env f = Inr t"
  shows "t = None \<longleftrightarrow> cf_disableAuth f"
    and "t = Some k \<Longrightarrow> LoadTokenFile (pe_os env) (pe_files env) (cf_tokenFile f) = Inr k"
  using assms by (auto simp: client_token_def split: if_split_asm sum.split_asm)

lemma client_resolvers_nonempty: "client_resolvers f = Inr rs \<Longrightarrow> rs \<noteq> []"
  by (auto simp: client_resolvers_def parseDNSServers_def defaultDNSResolvers_def split: if_split_asm sum.split_asm)

lemma listen_checked:
  assumes "validateClientListenAddress a unsafe = None" "\<not> unsafe"
  shows "\<exists>host port ip. SplitHostPort (TrimSpace a) = Some (host, port) \<and> ParseIP host = Some ip \<and> IsLoopback ip"
  using assms by (auto simp: validateClientListenAddress_def split: option.split_asm if_split_asm)

text \<open>
  C8. A client that starts is safe by default. Whatever the flags, if start-up succeeds then: the server is authenticated
  by a pin unless the insecure switch was given; a 256-bit token is sent unless that was switched
  off; the proxy listens on a literal loopback address unless that was overridden; plain UDP
  forwarding uses one path unless multipath was forced; there is at least one
  path, credential group size and resolver; and in bond mode every hello it will send, with
  whatever random identifier, is valid for the tuning.
\<close>

theorem client_startup_safe:
  assumes "client_main env f = Inr cfg"
  shows "(Insecure (cc_authentication cfg) \<longleftrightarrow> cf_insecure f) \<and> auth_mode (cc_authentication cfg) \<noteq> authenticationUnset \<and>
    (cc_token cfg = None \<longleftrightarrow> cf_disableAuth f) \<and> (\<forall>t. cc_token cfg = Some t \<longrightarrow> length t = tokenBytes \<and> t \<noteq> zero_token) \<and>
    (\<not> cf_unsafeListen f \<longrightarrow> (\<exists>host port ip. SplitHostPort (TrimSpace (cf_listen f)) = Some (host, port) \<and>
       ParseIP host = Some ip \<and> IsLoopback ip)) \<and>
    (\<not> cf_vless f \<and> \<not> cf_unsafeMultipath f \<longrightarrow> cc_paths cfg = 1) \<and>
    1 \<le> cc_paths cfg \<and> 1 \<le> cc_streamsPerCache cfg \<and> cc_resolvers cfg \<noteq> [] \<and>
    (\<forall>b. cf_vlessBond f \<and> length b = 16 \<longrightarrow>
       validateBondHello (CurrentBondHello (current (pe_tuning env)) (hex_encode b) (normalizeVLESSSessionCount (cc_paths cfg))) = None)"
proof -
  note p = client_main_parts [OF assms]
  note b = client_paths_bounds [OF p(5)]
  have tun: "validateTuning (current (pe_tuning env)) = []" using p(4) by (simp add: ValidateTuning_def)
  have hello: "validateBondHello (CurrentBondHello (current (pe_tuning env)) (hex_encode b) (normalizeVLESSSessionCount (cc_paths cfg))) = None"
    if "cf_vlessBond f" "length b = 16" for b
    using tun generated_id_valid [OF that(2)] b(1) b(2) [OF that(1)] p(7)
    by (intro current_hello_valid) (simp_all add: normalizeVLESSSessionCount_def)
  have tok: "length t = tokenBytes \<and> t \<noteq> zero_token" if "cc_token cfg = Some t" for t
    using LoadTokenFile_private [OF client_token_cases(2) [OF p(3) that]] decode_token_sound by blast
  show ?thesis
    using NewClientAuthentication_mode [OF p(2)] client_token_cases(1) [OF p(3)] tok listen_checked [OF p(1)]
      b(1,3) p(7,8) client_resolvers_nonempty [OF p(6)] hello
    by (auto simp: normalizeStreamsPerCredential_def defaultStreamsPerCache_def)
qed

definition example_flags :: client_flags where
  "example_flags = \<lparr>cf_listen = ''127.0.0.1:9000'', cf_unsafeListen = False, cf_vklink = ''https://vk.com/call/join/abc?x=1'',
     cf_peer = ''198.51.100.7:56000'', cf_n = 4, cf_streamsPerCred = 10, cf_unsafeMultipath = False, cf_noDTLS = False,
     cf_vless = True, cf_vlessBond = True, cf_bondProtocol = ''auto'', cf_dns = ''auto'', cf_dnsServers = ''1.1.1.1, 8.8.8.8:5353'',
     cf_wrap = False, cf_wrapKey = [], cf_genWrapKey = False, cf_fingerprint = [], cf_insecure = True,
     cf_tokenFile = ''t'', cf_disableAuth = False,
     cf_diagnostics = \<lparr>opt_ListenAddress = [], opt_TokenFile = [], opt_EnablePprof = False\<rparr>\<rparr>"

definition example_process :: process_env where
  "example_process = \<lparr>pe_os = example_env,
     pe_files = [''t'' \<mapsto> private_file (hex_encode (replicate 32 (CHR 0x11)))], pe_opened = Map.empty, pe_diagToken = [],
     pe_tuning = init_tuning (\<lambda>_. None), pe_resolves = (\<lambda>_. True), pe_listen = (\<lambda>_. ListenError),
     pe_registry = empty_registry None\<rparr>"

theorem client_startup_safe_witness:
  "\<exists>cfg. client_main example_process example_flags = Inr cfg \<and> cc_link cfg = ''abc'' \<and>
     cc_resolvers cfg = [''1.1.1.1:53'', ''8.8.8.8:5353''] \<and> cc_token cfg \<noteq> None"
proof -
  have "(case client_main example_process example_flags of
      Inr cfg \<Rightarrow> cc_link cfg = ''abc'' \<and> cc_resolvers cfg = [''1.1.1.1:53'', ''8.8.8.8:5353''] | Inl _ \<Rightarrow> False)"
    by code_simp
  then obtain cfg where cfg: "client_main example_process example_flags = Inr cfg" "cc_link cfg = ''abc''"
      "cc_resolvers cfg = [''1.1.1.1:53'', ''8.8.8.8:5353'']"
    by (auto split: sum.split_asm)
  moreover have "\<not> cf_disableAuth example_flags" by (simp add: example_flags_def)
  ultimately show ?thesis using client_startup_safe [OF cfg(1)] by blast
qed

section \<open>What a started server is\<close>

lemma server_main_parts:
  assumes "server_main c env f = (Inr cfg, fs')"
  shows "newConnectionLimiter (sf_maxConnections f) (sf_maxConnectionsPerIP f) = Inr (sc_limiter cfg)"
    and "newBackendGate (sf_maxBackend f) (sf_maxStreams f) (pe_registry env) = Inr (sc_gate cfg)"
    and "ValidateTuning (pe_tuning env) = []"
    and "\<exists>fs1. loadServerDTLSIdentity c (pe_os env) (pe_files env) (sf_certFile f) (sf_keyFile f) = (Inr (sc_identity cfg), fs1) \<and>
           server_token (pe_os env) fs1 f = (Inr (sc_token cfg), fs')"
  using assms by (auto simp: server_main_def Let_def split: option.split_asm sum.split_asm if_split_asm prod.split_asm)

lemma server_token_cases:
  assumes "server_token os fs f = (Inr t, fs')"
  shows "t = None \<longleftrightarrow> sf_unsafeClients f"
    and "t = Some k \<Longrightarrow> \<exists>created. LoadOrCreateTokenFile os fs (sf_tokenFile f) = (Inr (k, created), fs')"
  using assms by (auto simp: server_token_def split: if_split_asm sum.split_asm prod.split_asm)

end
