(* ===== verification/Server_Handlers.thy ===== *)
theory Server_Handlers
  imports Server_Limits Session_Auth
begin

text \<open>
  \<open>src/server/main.go\<close>: what the server does with its connections and streams. Two systems of
  interleaved steps: the accept loop of \<open>main\<close> with one goroutine per DTLS connection, and the smux
  sessions of \<open>serveSmuxSession\<close> with one goroutine per stream. The deferred calls of a goroutine are
  one step. The DTLS handshake, the bond's answer, the dialled backend and the end of a transfer
  are choices of the environment. The forwarding loops of \<open>handleUDPConnection\<close> and the teardown of
  \<open>handleVLESSConnection\<close> are functions.
\<close>

section \<open>Connections\<close>

record server_mode =
  sm_token :: "string option"
  sm_vless :: bool
  sm_bond :: bool

datatype conn_phase = Handshaking | Serving | InBond | Finished

text \<open>\<open>admitted_by\<close> is the record the client was admitted on, if one was asked for.\<close>

record server_conn =
  conn_key :: string
  conn_phase :: conn_phase
  admitted_by :: "string option"
  conn_closed :: bool
  lease_released :: bool

record server_state =
  srv_limiter :: connectionLimiter
  srv_registry :: registry
  connectionRejections :: u64
  srv_conns :: "server_conn list"
  wg1 :: nat
  main_stopped :: bool
  main_returned :: bool

definition set_conn :: "nat \<Rightarrow> server_conn \<Rightarrow> server_state \<Rightarrow> server_state" where
  "set_conn i c s = s\<lparr>srv_conns := (srv_conns s)[i := c]\<rparr>"

text \<open>The closure that releases the lease, once, and the gauge with it.\<close>

definition releaseConnection :: "nat \<Rightarrow> server_state \<Rightarrow> server_state" where
  "releaseConnection i s =
     (let c = srv_conns s ! i in
      if lease_released c then s
      else set_conn i (c\<lparr>lease_released := True\<rparr>)
        (s\<lparr>srv_limiter := release_ip (srv_limiter s) (conn_key c),
           srv_registry := gauge TransportConnectionClosed (srv_registry s)\<rparr>))"

definition close_conn :: "nat \<Rightarrow> server_state \<Rightarrow> server_state" where
  "close_conn i s = set_conn i ((srv_conns s ! i)\<lparr>conn_phase := Finished, conn_closed := True\<rparr>) s"

text \<open>A goroutine that returns as the owner of its connection: close, release, \<open>wg1.Done\<close>.\<close>

definition return_owner :: "nat \<Rightarrow> server_state \<Rightarrow> server_state" where
  "return_owner i s = (releaseConnection i (close_conn i s))\<lparr>wg1 := wg1 s - 1\<rparr>"

text \<open>One turn of the accept loop with an accepted connection.\<close>

definition accept_conn :: "net_addr \<Rightarrow> server_state \<Rightarrow> server_state" where
  "accept_conn remote s =
     (case AcquireConnection (srv_limiter s) remote of
        Inl _ \<Rightarrow> s\<lparr>srv_registry := gauge ConnectionLimitRejected (srv_registry s),
                   connectionRejections := connectionRejections s + 1\<rparr>
      | Inr l \<Rightarrow>
          s\<lparr>srv_limiter := l, srv_registry := gauge TransportConnectionOpened (srv_registry s),
            srv_conns := srv_conns s @ [\<lparr>conn_key = the (remoteIPKey remote), conn_phase = Handshaking,
                                        admitted_by = None, conn_closed = False, lease_released = False\<rparr>],
            wg1 := wg1 s + 1\<rparr>)"

text \<open>The check after the handshake: the error, if any, and the record it was decided on.\<close>

definition admit :: "string option \<Rightarrow> conn_io \<Rightarrow> auth_error option \<times> string option" where
  "admit token conn =
     (case token of
        None \<Rightarrow> (None, None)
      | Some t \<Rightarrow> (fst (Verify conn t), Some (fst (conn_read conn (length authPrefix + length t + 1)))))"

definition conn_in :: "conn_phase \<Rightarrow> nat \<Rightarrow> server_state \<Rightarrow> bool" where
  "conn_in p i s \<longleftrightarrow> i < length (srv_conns s) \<and> conn_phase (srv_conns s ! i) = p"

inductive server_step :: "server_mode \<Rightarrow> server_state \<Rightarrow> server_state \<Rightarrow> bool" for mode :: server_mode where
  accepts: "\<not> main_stopped s \<Longrightarrow> server_step mode s (accept_conn remote s)"
| handshake_fails: "conn_in Handshaking i s \<Longrightarrow> server_step mode s (return_owner i s)"
| auth_fails: "conn_in Handshaking i s \<Longrightarrow> fst (admit (sm_token mode) conn) \<noteq> None \<Longrightarrow>
    server_step mode s (return_owner i (s\<lparr>srv_registry := gauge gauge_op.AuthFailed (srv_registry s)\<rparr>))"
| admitted: "conn_in Handshaking i s \<Longrightarrow> admit (sm_token mode) conn = (None, frame) \<Longrightarrow>
    server_step mode s (set_conn i ((srv_conns s ! i)\<lparr>conn_phase := Serving, admitted_by := frame\<rparr>) s)"
| served: "conn_in Serving i s \<Longrightarrow> server_step mode s (return_owner i s)"
| bond_takes: "conn_in Serving i s \<Longrightarrow> sm_vless mode \<Longrightarrow> sm_bond mode \<Longrightarrow>
    server_step mode s ((set_conn i ((srv_conns s ! i)\<lparr>conn_phase := InBond\<rparr>) s)\<lparr>wg1 := wg1 s - 1\<rparr>)"
| bond_removes: "conn_in InBond i s \<Longrightarrow> server_step mode s (releaseConnection i (close_conn i s))"
| context_done: "server_step mode s (s\<lparr>main_stopped := True\<rparr>)"
| main_returns: "main_stopped s \<Longrightarrow> wg1 s = 0 \<Longrightarrow> server_step mode s (s\<lparr>main_returned := True\<rparr>)"

definition server_init :: "int \<Rightarrow> int \<Rightarrow> server_state \<Rightarrow> bool" where
  "server_init mt mp s \<longleftrightarrow> newConnectionLimiter mt mp = Inr (srv_limiter s) \<and> srv_conns s = [] \<and>
     activeTransportConnections (srv_registry s) = 0 \<and> wg1 s = 0 \<and> \<not> main_stopped s \<and> \<not> main_returned s"

section \<open>Streams\<close>

datatype stream_phase = Dialing | Piping | StreamOver | StreamRefused

record session_stream =
  stream_session :: nat
  stream_phase :: stream_phase
  stream_closes :: nat
  backend_closes :: nat

datatype session_phase = SessAccepting | SessDraining | SessReturned

record streams_state =
  st_gate :: backendGate
  st_sessions :: "session_phase list"
  st_streams :: "session_stream list"

definition new_stream :: "nat \<Rightarrow> stream_phase \<Rightarrow> session_stream" where
  "new_stream k p = \<lparr>stream_session = k, stream_phase = p, stream_closes = (if p = StreamRefused then 1 else 0), backend_closes = 0\<rparr>"

text \<open>A stream accepted on session \<open>k\<close>: given a goroutine, or refused and closed.\<close>

definition accept_stream :: "nat \<Rightarrow> streams_state \<Rightarrow> streams_state" where
  "accept_stream k s =
     (let ((rejection, _), g) = AcquireBackend (st_gate s) k in
      s\<lparr>st_gate := g, st_streams := st_streams s @ [new_stream k (if rejection = backendAccepted then Dialing else StreamRefused)]\<rparr>)"

text \<open>The deferred calls of a stream's goroutine: the dialled backend, the stream, the lease.\<close>

definition end_stream :: "nat \<Rightarrow> streams_state \<Rightarrow> streams_state" where
  "end_stream i s =
     (let t = st_streams s ! i in
      s\<lparr>st_gate := release_backend (st_gate s) (stream_session t),
        st_streams := (st_streams s)[i := t\<lparr>stream_phase := StreamOver, stream_closes := stream_closes t + 1,
          backend_closes := backend_closes t + (if stream_phase t = Piping then 1 else 0)\<rparr>]\<rparr>)"

definition running :: "session_stream \<Rightarrow> bool" where
  "running t \<longleftrightarrow> stream_phase t = Dialing \<or> stream_phase t = Piping"

definition session_in :: "session_phase \<Rightarrow> nat \<Rightarrow> streams_state \<Rightarrow> bool" where
  "session_in p k s \<longleftrightarrow> k < length (st_sessions s) \<and> st_sessions s ! k = p"

definition stream_in :: "stream_phase \<Rightarrow> nat \<Rightarrow> streams_state \<Rightarrow> bool" where
  "stream_in p i s \<longleftrightarrow> i < length (st_streams s) \<and> stream_phase (st_streams s ! i) = p"

inductive streams_step :: "streams_state \<Rightarrow> streams_state \<Rightarrow> bool" where
  session_starts: "NewSessionLimiter (st_gate s) = Some (k, g) \<Longrightarrow>
    streams_step s (s\<lparr>st_gate := g, st_sessions := st_sessions s @ [SessAccepting]\<rparr>)"
| stream_arrives: "session_in SessAccepting k s \<Longrightarrow> streams_step s (accept_stream k s)"
| dial_fails: "stream_in Dialing i s \<Longrightarrow> streams_step s (end_stream i s)"
| dialled: "stream_in Dialing i s \<Longrightarrow>
    streams_step s (s\<lparr>st_streams := (st_streams s)[i := (st_streams s ! i)\<lparr>stream_phase := Piping\<rparr>]\<rparr>)"
| pipe_ends: "stream_in Piping i s \<Longrightarrow> streams_step s (end_stream i s)"
| accept_error: "session_in SessAccepting k s \<Longrightarrow>
    streams_step s (s\<lparr>st_sessions := (st_sessions s)[k := SessDraining]\<rparr>)"
| session_returns: "session_in SessDraining k s \<Longrightarrow>
    list_all (\<lambda>t. running t \<longrightarrow> stream_session t \<noteq> k) (st_streams s) \<Longrightarrow>
    streams_step s (s\<lparr>st_sessions := (st_sessions s)[k := SessReturned]\<rparr>)"

definition streams_init :: "int \<Rightarrow> int \<Rightarrow> streams_state \<Rightarrow> bool" where
  "streams_init mg ms s \<longleftrightarrow> (\<exists>reg. newBackendGate mg ms reg = Inr (st_gate s) \<and> activeBackendStreams reg = 0) \<and>
     st_streams s = [] \<and> st_sessions s = []"

section \<open>UDP forwarding\<close>

text \<open>One direction: what each read gives and whether each write succeeds; the packets written, in order.\<close>

fun udp_copy :: "string option list \<Rightarrow> bool list \<Rightarrow> string list" where
  "udp_copy (Some p # rs) (ok # ws) =
     (let packet = take udpPacketBufferSize p in packet # (if ok then udp_copy rs ws else []))"
| "udp_copy _ _ = []"

section \<open>Plain VLESS sessions\<close>

datatype vless_call = StopCloseOnCancel | CloseKCP | CloseSmux | SessionGaugeClosed | ServeSmux

text \<open>The calls of \<open>handleVLESSConnection\<close>, in order, and the metrics after it.\<close>

definition handleVLESSConnection :: "bool \<Rightarrow> bool \<Rightarrow> registry \<Rightarrow> vless_call list \<times> registry" where
  "handleVLESSConnection kcp_ok smux_ok reg =
     (if \<not> kcp_ok then ([StopCloseOnCancel], reg)
      else if \<not> smux_ok then ([CloseKCP, StopCloseOnCancel], reg)
      else ([ServeSmux, SessionGaugeClosed, CloseSmux, CloseKCP, StopCloseOnCancel],
            gauge SessionClosed (gauge SessionOpened reg)))"

section \<open>Connections: accounting and admission\<close>

definition live_conn_keys :: "server_conn list \<Rightarrow> string multiset" where
  "live_conn_keys cs = mset (map conn_key (filter (\<lambda>c. \<not> lease_released c) cs))"

text \<open>Connections whose goroutine has not returned.\<close>

definition running_conns :: "server_conn list \<Rightarrow> nat" where
  "running_conns cs = length (filter (\<lambda>c. conn_phase c \<in> {Handshaking, Serving}) cs)"

definition conn_ok :: "server_mode \<Rightarrow> server_conn \<Rightarrow> bool" where
  "conn_ok mode c \<longleftrightarrow>
     (conn_phase c = Serving \<or> conn_phase c = InBond \<longrightarrow> (\<forall>t. sm_token mode = Some t \<longrightarrow> admitted_by c = Some (authPrefix @ t))) \<and>
     (conn_phase c = InBond \<longrightarrow> sm_vless mode \<and> sm_bond mode) \<and>
     (conn_closed c \<longleftrightarrow> conn_phase c = Finished) \<and> (lease_released c \<longleftrightarrow> conn_phase c = Finished)"

definition server_inv :: "int \<Rightarrow> int \<Rightarrow> server_mode \<Rightarrow> server_state \<Rightarrow> bool" where
  "server_inv mt mp mode s \<longleftrightarrow>
     conn_held mt mp (srv_limiter s) (live_conn_keys (srv_conns s)) \<and> mt \<le> 65535 \<and>
     activeTransportConnections (srv_registry s) = of_nat (size (live_conn_keys (srv_conns s))) \<and>
     (\<forall>c \<in> set (srv_conns s). conn_ok mode c) \<and>
     wg1 s = running_conns (srv_conns s) \<and> (main_returned s \<longrightarrow> main_stopped s \<and> wg1 s = 0)"

lemma count_mset_map: "count (mset (map f xs)) y = length (filter (\<lambda>x. f x = y) xs)"
  by (induction xs) auto

lemma split_at:
  assumes "i < length cs"
  obtains xs ys where "cs = xs @ cs ! i # ys" "\<And>c. cs[i := c] = xs @ c # ys"
  using that [of "take i cs" "drop (Suc i) cs"] assms by (simp add: id_take_nth_drop upd_conv_take_nth_drop)

lemma live_conn_keys_simps [simp]:
  "live_conn_keys [] = {#}"
  "live_conn_keys (c # cs) = (if lease_released c then live_conn_keys cs else add_mset (conn_key c) (live_conn_keys cs))"
  "live_conn_keys (cs @ ds) = live_conn_keys cs + live_conn_keys ds"
  by (simp_all add: live_conn_keys_def)

lemma running_conns_simps [simp]:
  "running_conns [] = 0"
  "running_conns (c # cs) = (if conn_phase c \<in> {Handshaking, Serving} then Suc (running_conns cs) else running_conns cs)"
  "running_conns (cs @ ds) = running_conns cs + running_conns ds"
  by (simp_all add: running_conns_def)

text \<open>What ending a live connection changes.\<close>

lemma finish_conn:
  assumes "i < length (srv_conns s)" "\<not> lease_released (srv_conns s ! i)"
  shows "releaseConnection i (close_conn i s) =
    s\<lparr>srv_limiter := release_ip (srv_limiter s) (conn_key (srv_conns s ! i)),
      srv_registry := gauge TransportConnectionClosed (srv_registry s),
      srv_conns := (srv_conns s)[i := (srv_conns s ! i)\<lparr>conn_phase := Finished, conn_closed := True, lease_released := True\<rparr>]\<rparr>"
  using assms by (simp add: releaseConnection_def close_conn_def set_conn_def Let_def)

lemma end_inv:
  assumes inv: "server_inv mt mp mode s" and i: "i < length (srv_conns s)" and ph: "conn_phase (srv_conns s ! i) \<noteq> Finished"
    and run: "n = wg1 s - (if conn_phase (srv_conns s ! i) = InBond then 0 else 1)"
  shows "server_inv mt mp mode ((releaseConnection i (close_conn i s))\<lparr>wg1 := n\<rparr>)"
proof -
  let ?c = "srv_conns s ! i"
  obtain xs ys where cs: "srv_conns s = xs @ ?c # ys" and up: "\<And>c. (srv_conns s)[i := c] = xs @ c # ys"
    using split_at [OF i] by metis
  have ok: "conn_ok mode ?c" using inv i by (auto simp: server_inv_def)
  then have live: "\<not> lease_released ?c" using ph by (simp add: conn_ok_def)
  have keys: "live_conn_keys (srv_conns s) = add_mset (conn_key ?c) (live_conn_keys xs + live_conn_keys ys)"
    using live by (subst cs) simp
  have held: "conn_held mt mp (release_ip (srv_limiter s) (conn_key ?c)) (live_conn_keys xs + live_conn_keys ys)"
    using conn_limiter.release_held [of mt mp "srv_limiter s" "live_conn_keys (srv_conns s)" "conn_key ?c"] inv
    unfolding keys by (simp add: server_inv_def keys)
  have run': "running_conns (srv_conns s) = running_conns xs + running_conns ys + (if conn_phase ?c = InBond then 0 else 1)"
    using ph by (subst cs) (cases "conn_phase ?c"; simp)
  have all: "\<forall>c \<in> set xs \<union> set ys. conn_ok mode c"
    using inv unfolding server_inv_def by (subst (asm) cs) simp
  have ret: "main_returned s \<longrightarrow> main_stopped s \<and> wg1 s = 0" "wg1 s = running_conns (srv_conns s)"
    "activeTransportConnections (srv_registry s) = of_nat (size (live_conn_keys (srv_conns s)))" "mt \<le> 65535"
    using inv unfolding server_inv_def by blast+
  show ?thesis
    unfolding finish_conn [OF i live] server_inv_def
    using held all ret run run' by (auto simp: up keys conn_ok_def)
qed

lemma move_inv:
  assumes inv: "server_inv mt mp mode s" and i: "i < length (srv_conns s)"
    and c: "conn_ok mode c" "conn_key c = conn_key (srv_conns s ! i)" "conn_phase c \<noteq> Finished"
    and ph: "conn_phase (srv_conns s ! i) \<in> {Handshaking, Serving}"
    and run: "n = wg1 s - (if conn_phase c = InBond then 1 else 0)"
  shows "server_inv mt mp mode ((set_conn i c s)\<lparr>wg1 := n\<rparr>)"
proof -
  obtain xs ys where cs: "srv_conns s = xs @ srv_conns s ! i # ys" and up: "\<And>c. (srv_conns s)[i := c] = xs @ c # ys"
    using split_at [OF i] by metis
  have live: "\<not> lease_released (srv_conns s ! i)"
    using inv i ph by (auto simp: server_inv_def conn_ok_def)
  have keys: "live_conn_keys (xs @ c # ys) = live_conn_keys (srv_conns s)"
    using live c by (subst cs) (simp add: conn_ok_def)
  have runs: "running_conns (srv_conns s) = running_conns (xs @ c # ys) + (if conn_phase c = InBond then 1 else 0)"
    using ph c(3) by (subst cs) (cases "conn_phase c"; auto)
  have all: "\<forall>c \<in> set xs \<union> set ys. conn_ok mode c"
    using inv unfolding server_inv_def by (subst (asm) cs) simp
  show ?thesis
    using inv keys runs all c(1) run unfolding server_inv_def set_conn_def
    by (simp add: up del: live_conn_keys_simps running_conns_simps) auto
qed

lemma accept_inv:
  assumes inv: "server_inv mt mp mode s" and run: "\<not> main_stopped s"
  shows "server_inv mt mp mode (accept_conn remote s)"
proof (cases "AcquireConnection (srv_limiter s) remote")
  case (Inl e)
  then show ?thesis using inv by (auto simp: accept_conn_def server_inv_def)
next
  case (Inr l)
  then obtain k where k: "remoteIPKey remote = Some k" "acquire_key (srv_limiter s) k = Inr l"
    by (auto simp: AcquireConnection_def split: option.split_asm)
  then have "conn_acquire (srv_limiter s) k = (True, l)" by (simp add: conn_acquire_def)
  then have "conn_held mt mp l (add_mset k (live_conn_keys (srv_conns s)))"
    using conn_limiter.acquire_granted inv unfolding server_inv_def by blast
  then show ?thesis
    using inv run Inr k by (auto simp: accept_conn_def server_inv_def conn_ok_def)
qed

lemma admit_frame:
  "admit (Some t) conn = (None, frame) \<Longrightarrow> frame = Some (authPrefix @ t)"
  using Verify_accepts [of conn t] by (auto simp: admit_def)

lemma server_step_inv:
  assumes "server_inv mt mp mode s" "server_step mode s t"
  shows "server_inv mt mp mode t"
  using assms(2,1)
proof cases
  case (accepts remote)
  then show ?thesis using accept_inv assms(1) by blast
next
  case (handshake_fails i)
  then show ?thesis using end_inv [OF assms(1), of i] by (simp add: return_owner_def conn_in_def)
next
  case (auth_fails i conn)
  have "server_inv mt mp mode (s\<lparr>srv_registry := gauge gauge_op.AuthFailed (srv_registry s)\<rparr>)"
    using assms(1) by (auto simp: server_inv_def)
  from end_inv [OF this, of i] auth_fails show ?thesis by (simp add: return_owner_def conn_in_def)
next
  case (admitted i conn frame)
  let ?c = "(srv_conns s ! i)\<lparr>conn_phase := Serving, admitted_by := frame\<rparr>"
  have "conn_ok mode (srv_conns s ! i)" using assms(1) admitted by (auto simp: server_inv_def conn_in_def)
  then have "conn_ok mode ?c" using admitted admit_frame by (auto simp: conn_ok_def conn_in_def)
  from move_inv [OF assms(1) _ this, of i "wg1 s"] admitted show ?thesis by (simp add: conn_in_def set_conn_def)
next
  case (served i)
  then show ?thesis using end_inv [OF assms(1), of i] by (simp add: return_owner_def conn_in_def)
next
  case (bond_takes i)
  let ?c = "(srv_conns s ! i)\<lparr>conn_phase := InBond\<rparr>"
  have "conn_ok mode (srv_conns s ! i)" using assms(1) bond_takes by (auto simp: server_inv_def conn_in_def)
  then have "conn_ok mode ?c" using bond_takes by (auto simp: conn_ok_def conn_in_def)
  from move_inv [OF assms(1) _ this, of i "wg1 s - 1"] bond_takes show ?thesis by (simp add: conn_in_def)
next
  case (bond_removes i)
  then have "\<not> lease_released (srv_conns s ! i)" using assms(1) by (auto simp: server_inv_def conn_ok_def conn_in_def)
  with end_inv [OF assms(1), of i "wg1 s"] bond_removes show ?thesis by (simp add: conn_in_def finish_conn)
qed (use assms(1) in \<open>auto simp: server_inv_def\<close>)

interpretation server_system: invariant_system "server_init mt mp" "server_step mode" "server_inv mt mp mode" for mt mp mode
proof (unfold_locales, goal_cases)
  case (1 s)
  then show ?case
    using new_conn_held [of mt mp "srv_limiter s"]
    by (auto simp: server_init_def server_inv_def newConnectionLimiter_def maximumConfiguredConnectionLimit_def split: if_split_asm)
next
  case (2 s t)
  then show ?case by (rule server_step_inv)
qed

text \<open>
  C3. Every connection of the server is admitted, accounted for and given back. In every
  interleaving of arrivals, handshakes, authentications, transfers, bonds and shutdown: the limiter's
  total is the number of connections that are not over, within the limit, and so is the gauge;
  the count of an address is the number of its connections, within its limit; a connection is closed and
  its lease released exactly when it is over; with a client token configured, no connection is served or
  handed to a bond unless its first record was exactly the authentication frame with that token;
  and when \<open>main\<close> has returned without bonds, no lease is held.
\<close>

theorem server_connections:
  assumes "reachable (server_init mt mp) (server_step mode) s"
  shows "let live = filter (\<lambda>c. conn_phase c \<noteq> Finished) (srv_conns s) in
    total (srv_limiter s) = int (length live) \<and> int (length live) \<le> mt \<and>
    sint (activeTransportConnections (srv_registry s)) = int (length live) \<and>
    ip_count (srv_limiter s) ip = int (length (filter (\<lambda>c. conn_key c = ip) live)) \<and>
    int (length (filter (\<lambda>c. conn_key c = ip) live)) \<le> mp \<and>
    (\<forall>c. c \<in> set (srv_conns s) \<longrightarrow>
       (conn_closed c \<longleftrightarrow> conn_phase c = Finished) \<and> (lease_released c \<longleftrightarrow> conn_phase c = Finished) \<and>
       (conn_phase c = Serving \<or> conn_phase c = InBond \<longrightarrow>
          (\<forall>t. sm_token mode = Some t \<longrightarrow> admitted_by c = Some (authPrefix @ t)))) \<and>
    (main_returned s \<and> \<not> sm_bond mode \<longrightarrow> total (srv_limiter s) = 0)"
proof -
  note inv = server_system.inv_reachable [OF assms]
  let ?live = "filter (\<lambda>c. conn_phase c \<noteq> Finished) (srv_conns s)"
  have held: "conn_held mt mp (srv_limiter s) (live_conn_keys (srv_conns s))" and mt: "mt \<le> 65535"
    and act: "activeTransportConnections (srv_registry s) = of_nat (size (live_conn_keys (srv_conns s)))"
    and ok: "\<And>c. c \<in> set (srv_conns s) \<Longrightarrow> conn_ok mode c"
    and ret: "wg1 s = running_conns (srv_conns s)" "main_returned s \<longrightarrow> wg1 s = 0"
    using inv unfolding server_inv_def by blast+
  have "filter (\<lambda>c. \<not> lease_released c) (srv_conns s) = ?live"
    by (rule filter_cong) (use ok in \<open>auto simp: conn_ok_def\<close>)
  then have keys: "live_conn_keys (srv_conns s) = mset (map conn_key ?live)"
    by (simp only: live_conn_keys_def)
  have cnt: "count (live_conn_keys (srv_conns s)) ip = length (filter (\<lambda>c. conn_key c = ip) ?live)"
    unfolding keys by (rule count_mset_map)
  have sz: "size (live_conn_keys (srv_conns s)) = length ?live"
    unfolding keys by (simp only: size_mset length_map)
  have len: "total (srv_limiter s) = int (length ?live)" "int (length ?live) \<le> mt"
    using held by (simp_all add: conn_held_def sz)
  have over: "?live = []" if "main_returned s" "\<not> sm_bond mode"
  proof -
    have "filter (\<lambda>c. conn_phase c \<in> {Handshaking, Serving}) (srv_conns s) = []"
      using ret that by (simp add: running_conns_def)
    then have "conn_phase c = InBond \<or> conn_phase c = Finished" if "c \<in> set (srv_conns s)" for c
      using that by (cases "conn_phase c") (auto simp: filter_empty_conv)
    with ok that(2) show ?thesis by (fastforce simp: filter_empty_conv conn_ok_def)
  qed
  have "length ?live < 2 ^ 63" using len(2) mt by simp
  then have "sint (activeTransportConnections (srv_registry s)) = int (length ?live)"
    using sint_of_nat_small by (simp add: act sz)
  moreover have "ip_count (srv_limiter s) ip = int (length (filter (\<lambda>c. conn_key c = ip) ?live))"
    "int (length (filter (\<lambda>c. conn_key c = ip) ?live)) \<le> mp"
    using held unfolding conn_held_def ip_count_def cnt [symmetric] by (auto simp: not_in_iff)
  ultimately show ?thesis
    using len over ok unfolding Let_def conn_ok_def by auto
qed

definition example_server_state :: server_state where
  "example_server_state = \<lparr>srv_limiter = projr (newConnectionLimiter 2 1), srv_registry = empty_registry None,
     connectionRejections = 0, srv_conns = [], wg1 = 0, main_stopped = False, main_returned = False\<rparr>"

theorem server_connections_witness:
  "\<exists>s. reachable (server_init 2 1) (server_step \<lparr>sm_token = Some ''k'', sm_vless = True, sm_bond = True\<rparr>) s \<and>
     map conn_phase (srv_conns s) = [InBond] \<and> total (srv_limiter s) = 1"
proof -
  let ?mode = "\<lparr>sm_token = Some ''k'', sm_vless = True, sm_bond = True\<rparr>"
  let ?s1 = "accept_conn (UDPAddr [10, 0, 0, 7]) example_server_state"
  let ?s2 = "set_conn 0 ((srv_conns ?s1 ! 0)\<lparr>conn_phase := Serving, admitted_by := Some (authPrefix @ ''k'')\<rparr>) ?s1"
  let ?s3 = "(set_conn 0 ((srv_conns ?s2 ! 0)\<lparr>conn_phase := InBond\<rparr>) ?s2)\<lparr>wg1 := wg1 ?s2 - 1\<rparr>"
  have lim: "newConnectionLimiter 2 1 = Inr (srv_limiter example_server_state)"
    by (simp add: newConnectionLimiter_def example_server_state_def maximumConfiguredConnectionLimit_def)
  have key: "remoteIPKey (UDPAddr [10, 0, 0, 7]) = Some ''10.0.0.7''" by code_simp
  have s1: "srv_conns ?s1 = [\<lparr>conn_key = ''10.0.0.7'', conn_phase = Handshaking, admitted_by = None,
      conn_closed = False, lease_released = False\<rparr>]"
    by (simp add: accept_conn_def AcquireConnection_def key acquire_key_def ip_count_def example_server_state_def
        newConnectionLimiter_def maximumConfiguredConnectionLimit_def)
  have "reachable (server_init 2 1) (server_step ?mode) example_server_state"
    by (rule reach_init) (use lim in \<open>simp add: server_init_def example_server_state_def empty_registry_def\<close>)
  then have r1: "reachable (server_init 2 1) (server_step ?mode) ?s1"
    by (rule reach_step) (rule accepts, simp add: example_server_state_def)
  have "admit (sm_token ?mode) (datagram_conn (authPrefix @ ''k'')) = (None, Some (authPrefix @ ''k''))"
    by (simp add: admit_def Verify_datagram) (simp add: datagram_conn_def)
  then have r2: "reachable (server_init 2 1) (server_step ?mode) ?s2"
    by (intro reach_step [OF r1] admitted) (simp_all add: conn_in_def s1)
  have r3: "reachable (server_init 2 1) (server_step ?mode) ?s3"
    by (intro reach_step [OF r2] bond_takes) (simp_all add: conn_in_def s1 set_conn_def)
  have conns: "map conn_phase (srv_conns ?s3) = [InBond]" by (simp add: set_conn_def s1)
  then have "length (filter (\<lambda>c. conn_phase c \<noteq> Finished) (srv_conns ?s3)) = 1" by (simp add: set_conn_def s1)
  then have tot: "total (srv_limiter ?s3) = 1"
    using server_connections [OF r3, of "[]"] by (simp only: Let_def of_nat_1)
  show ?thesis by (rule exI [of _ ?s3]) (intro conjI r3 conns tot)
qed

section \<open>Streams: limits and clean-up\<close>

definition running_sessions :: "session_stream list \<Rightarrow> nat multiset" where
  "running_sessions ts = mset (map stream_session (filter running ts))"

definition stream_ok :: "session_phase list \<Rightarrow> session_stream \<Rightarrow> bool" where
  "stream_ok ps t \<longleftrightarrow>
     (running t \<longrightarrow> stream_session t < length ps \<and> ps ! stream_session t \<noteq> SessReturned) \<and>
     stream_closes t = (if running t then 0 else 1) \<and>
     (running t \<or> stream_phase t = StreamRefused \<longrightarrow> backend_closes t = 0) \<and> backend_closes t \<le> 1"

definition streams_inv :: "int \<Rightarrow> int \<Rightarrow> streams_state \<Rightarrow> bool" where
  "streams_inv mg ms s \<longleftrightarrow>
     gate_held mg ms (length (st_sessions s)) (st_gate s) (running_sessions (st_streams s)) \<and>
     maxStreamsPerSession (st_gate s) = ms \<and> 1 \<le> ms \<and> ms \<le> mg \<and> mg \<le> 65535 \<and>
     (\<forall>t \<in> set (st_streams s). stream_ok (st_sessions s) t)"

lemma running_sessions_simps [simp]:
  "running_sessions [] = {#}"
  "running_sessions (t # ts) = (if running t then add_mset (stream_session t) (running_sessions ts) else running_sessions ts)"
  "running_sessions (ts @ us) = running_sessions ts + running_sessions us"
  by (simp_all add: running_sessions_def)

lemma gate_per_session [simp]:
  "maxStreamsPerSession (snd (AcquireBackend g k)) = maxStreamsPerSession g"
  "maxStreamsPerSession (release_backend g k) = maxStreamsPerSession g"
  by (auto simp: AcquireBackend_def release_backend_def recordRejection_def Let_def split: option.split prod.split)

lemma new_session_held:
  assumes "gate_held mg ms n g m" "maxStreamsPerSession g = ms" "1 \<le> ms" "ms \<le> 65535"
  shows "\<exists>g'. NewSessionLimiter g = Some (n, g') \<and> gate_held mg ms (Suc n) g' m \<and> maxStreamsPerSession g' = ms"
proof -
  let ?g = "g\<lparr>sessions := sessions g @ [\<lparr>maximum = ms, active = 0\<rparr>]\<rparr>"
  have n: "length (sessions g) = n" using assms(1) by (simp add: gate_held_def)
  have "NewSessionLimiter g = Some (n, ?g)"
    using assms(2-4) n by (simp add: NewSessionLimiter_def newConcurrencyLimiter_def maximumConfiguredBackendLimit_def)
  moreover have "count m n = 0" using assms(1) n by (auto simp: gate_held_def not_in_iff [symmetric])
  then have "gate_held mg ms (Suc n) ?g m"
    using assms(1,3) n by (auto simp: gate_held_def nth_append less_Suc_eq)
  ultimately show ?thesis using assms(2) by simp
qed

lemma stream_ok_sessions:
  assumes "stream_ok ps t" "length ps \<le> length qs" "running t \<Longrightarrow> qs ! stream_session t \<noteq> SessReturned"
  shows "stream_ok qs t"
  using assms by (auto simp: stream_ok_def)

lemma end_stream_inv:
  assumes inv: "streams_inv mg ms s" and i: "i < length (st_streams s)" and run: "running (st_streams s ! i)"
  shows "streams_inv mg ms (end_stream i s)"
proof -
  let ?t = "st_streams s ! i"
  obtain xs ys where ts: "st_streams s = xs @ ?t # ys" and up: "\<And>c. (st_streams s)[i := c] = xs @ c # ys"
    using split_at [OF i] by metis
  have "set (st_streams s) = set (xs @ ?t # ys)" by (rule arg_cong [OF ts])
  then have ok: "stream_ok (st_sessions s) ?t" and all: "\<forall>t \<in> set xs \<union> set ys. stream_ok (st_sessions s) t"
    using inv by (simp_all add: streams_inv_def)
  have keys: "running_sessions (st_streams s) = add_mset (stream_session ?t) (running_sessions xs + running_sessions ys)"
    using run by (subst ts) simp
  have "gate_held mg ms (length (st_sessions s)) (release_backend (st_gate s) (stream_session ?t)) (running_sessions xs + running_sessions ys)"
    using gate_limiter.release_held [of mg ms "length (st_sessions s)" "st_gate s" "running_sessions (st_streams s)" "stream_session ?t"] inv
    by (simp add: streams_inv_def keys)
  moreover have "\<not> running (?t\<lparr>stream_phase := StreamOver, stream_closes := a, backend_closes := b\<rparr>)" for a b
    by (simp add: running_def)
  ultimately show ?thesis
    using inv ok all run by (auto simp: streams_inv_def end_stream_def Let_def up stream_ok_def)
qed

lemma accept_stream_inv:
  assumes inv: "streams_inv mg ms s" and k: "session_in SessAccepting k s"
  shows "streams_inv mg ms (accept_stream k s)"
proof -
  obtain r n g where acq: "AcquireBackend (st_gate s) k = ((r, n), g)" by (metis surj_pair)
  have held: "gate_held mg ms (length (st_sessions s)) (st_gate s) (running_sessions (st_streams s))"
    using inv by (simp add: streams_inv_def)
  have "gate_acquire (st_gate s) k = (r = backendAccepted, g)"
    using k held acq by (simp add: gate_acquire_def gate_held_def session_in_def)
  then have "gate_held mg ms (length (st_sessions s)) g
      (if r = backendAccepted then add_mset k (running_sessions (st_streams s)) else running_sessions (st_streams s))"
    using gate_limiter.acquire_granted [OF held, of k g] gate_limiter.acquire_refused [OF held, of k g] by auto
  moreover have "maxStreamsPerSession g = maxStreamsPerSession (st_gate s)"
    using gate_per_session(1) [of "st_gate s" k] acq by simp
  ultimately show ?thesis
    using inv k by (auto simp: streams_inv_def accept_stream_def acq new_stream_def running_def stream_ok_def session_in_def)
qed

lemma streams_ok_sessions:
  assumes "streams_inv mg ms s" "length ps = length (st_sessions s)"
    and "\<And>t. t \<in> set (st_streams s) \<Longrightarrow> running t \<Longrightarrow> ps ! stream_session t \<noteq> SessReturned"
  shows "streams_inv mg ms (s\<lparr>st_sessions := ps\<rparr>)"
  using assms stream_ok_sessions [of "st_sessions s" _ ps] by (auto simp: streams_inv_def)

lemma dialled_inv:
  assumes inv: "streams_inv mg ms s" and i: "i < length (st_streams s)" and ph: "stream_phase (st_streams s ! i) = Dialing"
  shows "streams_inv mg ms (s\<lparr>st_streams := (st_streams s)[i := (st_streams s ! i)\<lparr>stream_phase := Piping\<rparr>]\<rparr>)"
proof -
  let ?t = "st_streams s ! i"
  obtain xs ys where ts: "st_streams s = xs @ ?t # ys" and up: "\<And>c. (st_streams s)[i := c] = xs @ c # ys"
    using split_at [OF i] by metis
  have run: "running ?t" "running (?t\<lparr>stream_phase := Piping\<rparr>)" using ph by (simp_all add: running_def)
  have keys: "running_sessions (st_streams s) = running_sessions (xs @ ?t\<lparr>stream_phase := Piping\<rparr> # ys)"
    using run by (subst ts) simp
  have "set (st_streams s) = set (xs @ ?t # ys)" by (rule arg_cong [OF ts])
  then have ok: "stream_ok (st_sessions s) ?t" and all: "\<forall>t \<in> set xs \<union> set ys. stream_ok (st_sessions s) t"
    using inv by (simp_all add: streams_inv_def)
  then have "stream_ok (st_sessions s) (?t\<lparr>stream_phase := Piping\<rparr>)" using run by (simp add: stream_ok_def)
  with inv all show ?thesis unfolding streams_inv_def keys by (auto simp: up)
qed

lemma streams_step_inv:
  assumes "streams_inv mg ms s" "streams_step s t"
  shows "streams_inv mg ms t"
  using assms(2)
proof cases
  case (session_starts k g)
  obtain g' where g': "NewSessionLimiter (st_gate s) = Some (length (st_sessions s), g')"
      "gate_held mg ms (Suc (length (st_sessions s))) g' (running_sessions (st_streams s))" "maxStreamsPerSession g' = ms"
    using new_session_held [of mg ms "length (st_sessions s)" "st_gate s"] assms(1) unfolding streams_inv_def by force
  then have "g = g'" using session_starts by simp
  moreover have "stream_ok (st_sessions s @ [SessAccepting]) t" if "t \<in> set (st_streams s)" for t
  proof (rule stream_ok_sessions [of "st_sessions s"])
    show ok: "stream_ok (st_sessions s) t" using assms(1) that by (simp add: streams_inv_def)
    show "(st_sessions s @ [SessAccepting]) ! stream_session t \<noteq> SessReturned" if "running t"
      using ok that by (simp add: stream_ok_def nth_append)
  qed simp
  ultimately show ?thesis using assms(1) g'(2,3) session_starts by (simp add: streams_inv_def)
next
  case (stream_arrives k)
  then show ?thesis using accept_stream_inv [OF assms(1)] by simp
next
  case (dial_fails i)
  then show ?thesis using end_stream_inv [OF assms(1), of i] by (simp add: stream_in_def running_def)
next
  case (dialled i)
  then show ?thesis using dialled_inv [OF assms(1), of i] by (simp add: stream_in_def)
next
  case (pipe_ends i)
  then show ?thesis using end_stream_inv [OF assms(1), of i] by (simp add: stream_in_def running_def)
next
  case (accept_error k)
  then show ?thesis
    using assms(1) unfolding accept_error
    by (intro streams_ok_sessions) (auto simp: streams_inv_def stream_ok_def session_in_def nth_list_update)
next
  case (session_returns k)
  then show ?thesis
    using assms(1) unfolding session_returns
    by (intro streams_ok_sessions)
      (auto simp: streams_inv_def stream_ok_def session_in_def nth_list_update list_all_iff)
qed

interpretation streams_system: invariant_system "streams_init mg ms" streams_step "streams_inv mg ms" for mg ms
proof (unfold_locales, goal_cases)
  case (1 s)
  then obtain reg where g: "newBackendGate mg ms reg = Inr (st_gate s)" "activeBackendStreams reg = 0"
    by (auto simp: streams_init_def)
  from new_gate [OF g(1)] g(2) 1 show ?case by (auto simp: streams_init_def streams_inv_def gate_held_def)
next
  case (2 s t)
  then show ?case by (rule streams_step_inv)
qed

text \<open>
  C4. Backend streams of all smux sessions. In every interleaving of sessions starting, streams arriving, dialling,
  transferring and ending, and sessions shutting down: starting a session never panics; the streams that run are
  within the global limit and, per session, within the session limit, and they are exactly what the gate and its
  gauge count; a stream is closed once when it is over or refused and not before, a
  backend connection only ever once and only if it was dialled; and a session returns only when none of its streams runs.
\<close>

theorem server_streams:
  assumes "reachable (streams_init mg ms) streams_step s"
  shows "(\<exists>g. NewSessionLimiter (st_gate s) = Some (length (st_sessions s), g)) \<and>
    active (global (st_gate s)) = int (length (filter running (st_streams s))) \<and>
    int (length (filter running (st_streams s))) \<le> mg \<and>
    sint (activeBackendStreams (gate_registry (st_gate s))) = int (length (filter running (st_streams s))) \<and>
    (k < length (st_sessions s) \<longrightarrow>
       active (sessions (st_gate s) ! k) = int (length (filter (\<lambda>t. stream_session t = k) (filter running (st_streams s)))) \<and>
       int (length (filter (\<lambda>t. stream_session t = k) (filter running (st_streams s)))) \<le> ms \<and>
       (st_sessions s ! k = SessReturned \<longrightarrow> filter (\<lambda>t. stream_session t = k) (filter running (st_streams s)) = [])) \<and>
    (\<forall>t. t \<in> set (st_streams s) \<longrightarrow> stream_closes t = (if running t then 0 else 1) \<and> backend_closes t \<le> 1 \<and>
       (running t \<or> stream_phase t = StreamRefused \<longrightarrow> backend_closes t = 0))"
proof -
  note inv = streams_system.inv_reachable [OF assms]
  have held: "gate_held mg ms (length (st_sessions s)) (st_gate s) (running_sessions (st_streams s))"
    and lim: "maxStreamsPerSession (st_gate s) = ms" "1 \<le> ms" "ms \<le> mg" "mg \<le> 65535"
    and ok: "\<And>t. t \<in> set (st_streams s) \<Longrightarrow> stream_ok (st_sessions s) t"
    using inv by (auto simp: streams_inv_def)
  have cnt: "count (running_sessions (st_streams s)) k = length (filter (\<lambda>t. stream_session t = k) (filter running (st_streams s)))" for k
    unfolding running_sessions_def by (rule count_mset_map)
  have sz: "size (running_sessions (st_streams s)) = length (filter running (st_streams s))"
    unfolding running_sessions_def by (simp only: size_mset length_map)
  have "\<exists>g. NewSessionLimiter (st_gate s) = Some (length (st_sessions s), g)"
    using new_session_held [OF held lim(1,2)] lim by auto
  moreover have "filter (\<lambda>t. stream_session t = k) (filter running (st_streams s)) = []" if "st_sessions s ! k = SessReturned"
    using ok that by (auto simp: filter_empty_conv stream_ok_def)
  ultimately show ?thesis
    using held size_gate_held [OF held lim(4)] ok unfolding gate_held_def sz cnt stream_ok_def by auto
qed

definition example_streams :: streams_state where
  "example_streams = \<lparr>st_gate = projr (newBackendGate 1 1 (empty_registry None)), st_sessions = [], st_streams = []\<rparr>"

theorem server_streams_witness:
  "\<exists>s. reachable (streams_init 1 1) streams_step s \<and> map stream_phase (st_streams s) = [Dialing, StreamRefused] \<and>
     active (global (st_gate s)) = 1"
proof -
  let ?g = "\<lparr>global = \<lparr>maximum = 1, active = 0\<rparr>, maxStreamsPerSession = 1, gate_registry = empty_registry None,
      rejections = 0, sessions = []\<rparr>"
  have gate: "newBackendGate 1 1 (empty_registry None) = Inr ?g"
    by (simp add: newBackendGate_def newConcurrencyLimiter_def maximumConfiguredBackendLimit_def)
  let ?s1 = "example_streams\<lparr>st_gate := ?g\<lparr>sessions := [\<lparr>maximum = 1, active = 0\<rparr>]\<rparr>, st_sessions := [SessAccepting]\<rparr>"
  have "streams_init 1 1 example_streams"
    using gate by (auto simp: streams_init_def example_streams_def empty_registry_def)
  moreover have "streams_step example_streams ?s1"
    using session_starts [of example_streams "length (sessions ?g)" "?g\<lparr>sessions := [\<lparr>maximum = 1, active = 0\<rparr>]\<rparr>"] gate
    by (simp add: example_streams_def NewSessionLimiter_def newConcurrencyLimiter_def maximumConfiguredBackendLimit_def)
  moreover have "streams_step ?s1 (accept_stream 0 ?s1)"
    by (rule stream_arrives) (simp add: session_in_def)
  moreover have "streams_step (accept_stream 0 ?s1) (accept_stream 0 (accept_stream 0 ?s1))"
    by (rule stream_arrives) (simp add: session_in_def accept_stream_def Let_def split: prod.split)
  moreover define s where "s = accept_stream 0 (accept_stream 0 ?s1)"
  ultimately have r: "reachable (streams_init 1 1) streams_step s"
    by (meson reach_init reach_step)
  have ph: "map stream_phase (st_streams s) = [Dialing, StreamRefused]"
    by (simp add: s_def accept_stream_def AcquireBackend_def AcquireSlot_def new_stream_def recordRejection_def example_streams_def Let_def)
  then obtain a b where st: "st_streams s = [a, b]" "stream_phase a = Dialing" "stream_phase b = StreamRefused"
    by (auto simp: map_eq_Cons_conv)
  have tot: "active (global (st_gate s)) = 1"
    using server_streams [OF r] st(2,3) by (simp add: st(1) running_def)
  show ?thesis by (rule exI [of _ s]) (intro conjI r ph tot)
qed

section \<open>Forwarding and teardown\<close>

text \<open>A direction forwards every packet that fits the buffer, unchanged and in order, up to the first failed read;
  a failed write is its last.\<close>

lemma udp_copy_forwards:
  "list_all (\<lambda>p. length p \<le> udpPacketBufferSize) ps \<Longrightarrow>
     udp_copy (map Some ps @ None # rs) (replicate (length ps) True @ ws) = ps"
  by (induction ps) auto

lemma udp_copy_write_fails:
  "udp_copy (map Some ps @ Some p # rs) (replicate (length ps) True @ False # ws) = map (take udpPacketBufferSize) (ps @ [p])"
  by (induction ps) auto

text \<open>Whatever fails, a plain session gives back what it opened, in reverse order, and leaves the session gauge as it was.\<close>

lemma vless_teardown:
  "handleVLESSConnection kcp_ok smux_ok reg = (calls, reg') \<Longrightarrow>
     activeSessions reg' = activeSessions reg \<and> last calls = StopCloseOnCancel \<and> distinct calls \<and>
     (CloseKCP \<in> set calls \<longleftrightarrow> kcp_ok) \<and> (CloseSmux \<in> set calls \<longleftrightarrow> kcp_ok \<and> smux_ok) \<and>
     (CloseSmux \<in> set calls \<longrightarrow> dropWhile (\<lambda>c. c \<noteq> CloseSmux) calls = [CloseSmux, CloseKCP, StopCloseOnCancel])"
  by (auto simp: handleVLESSConnection_def split: if_split_asm)

end
