(* ===== verification/Local_Peer.thy ===== *)
theory Local_Peer
  imports Metrics_Registry "HOL-Library.Sublist"
begin

text \<open>
  \<open>src/client/local_peer.go\<close> and the reader of the local UDP socket in \<open>main\<close> of
  \<open>src/client/main.go\<close>: which local sender the tunnel belongs to, and the bounded queue between that
  reader and the DTLS writers. An address is what \<open>net.Addr\<close> shows of itself, its network and its
  text; times are nanoseconds.
\<close>

section \<open>The pin\<close>

record net_endpoint =
  addr_Network :: string
  addr_String :: string

record localPeerPin =
  pin_addr :: "net_endpoint option"
  pin_lastSeen :: int
  rebindAfter :: int

definition defaultLocalPeerRebindIdle :: int where "defaultLocalPeerRebindIdle = 60 * 1000000000"

definition newLocalPeerPin :: "int \<Rightarrow> localPeerPin" where
  "newLocalPeerPin rebind =
     \<lparr>pin_addr = None, pin_lastSeen = 0, rebindAfter = (if rebind \<le> 0 then defaultLocalPeerRebindIdle else rebind)\<rparr>"

definition pin_Accept :: "localPeerPin \<Rightarrow> net_endpoint option \<Rightarrow> int \<Rightarrow> bool \<times> localPeerPin" where
  "pin_Accept pin addr now =
     (case addr of
        None \<Rightarrow> (False, pin)
      | Some a \<Rightarrow>
          (case pin_addr pin of
             None \<Rightarrow> (True, pin\<lparr>pin_addr := Some a, pin_lastSeen := now\<rparr>)
           | Some p \<Rightarrow>
               if addr_Network p = addr_Network a \<and> addr_String p = addr_String a then (True, pin\<lparr>pin_lastSeen := now\<rparr>)
               else if now - pin_lastSeen pin \<ge> rebindAfter pin then (True, pin\<lparr>pin_addr := Some a, pin_lastSeen := now\<rparr>)
               else (False, pin)))"

definition pin_Current :: "localPeerPin \<Rightarrow> net_endpoint option" where
  "pin_Current pin = pin_addr pin"

section \<open>The reader of the local socket\<close>

text \<open>The capacity of \<open>inboundChan\<close>.\<close>

definition inboundCapacity :: nat where "inboundCapacity = 2000"

text \<open>A read gives a packet with its sender, or fails; in between, a DTLS writer takes a packet from the queue.\<close>

datatype intake_event = LocalPacket string "net_endpoint option" int | LocalReadFails | WriterTakes

record intake =
  in_pin :: localPeerPin
  inboundChan :: "string list"
  in_taken :: "string list"
  in_registry :: registry
  in_running :: bool

definition intake_step :: "intake_event \<Rightarrow> intake \<Rightarrow> intake" where
  "intake_step ev s =
     (case ev of
        WriterTakes \<Rightarrow>
          (case inboundChan s of
             [] \<Rightarrow> s
           | p # q \<Rightarrow> s\<lparr>inboundChan := q, in_taken := in_taken s @ [p]\<rparr>)
      | LocalReadFails \<Rightarrow> s\<lparr>in_running := False\<rparr>
      | LocalPacket p addr now \<Rightarrow>
          if \<not> in_running s then s
          else (let (accepted, pin) = pin_Accept (in_pin s) addr now in
            if \<not> accepted then s\<lparr>in_pin := pin\<rparr>
            else if length (inboundChan s) < inboundCapacity then s\<lparr>in_pin := pin, inboundChan := inboundChan s @ [p]\<rparr>
            else s\<lparr>in_pin := pin, in_registry := gauge QueueDropped (in_registry s)\<rparr>))"

definition intake_run :: "intake_event list \<Rightarrow> intake \<Rightarrow> intake" where
  "intake_run evs s = fold intake_step evs s"

definition new_intake :: "registry \<Rightarrow> intake" where
  "new_intake reg = \<lparr>in_pin = newLocalPeerPin defaultLocalPeerRebindIdle, inboundChan = [], in_taken = [], in_registry = reg, in_running = True\<rparr>"

section \<open>Who owns the tunnel\<close>

text \<open>The decisions of the pin on a sequence of arrivals: sender, time and whether it was accepted.\<close>

fun pin_decisions :: "localPeerPin \<Rightarrow> (net_endpoint \<times> int) list \<Rightarrow> (net_endpoint \<times> int \<times> bool) list" where
  "pin_decisions pin [] = []"
| "pin_decisions pin ((a, t) # xs) =
     (let (ok, pin') = pin_Accept pin (Some a) t in (a, t, ok) # pin_decisions pin' xs)"

text \<open>What the arrivals say on their own: the sender and time of the last accepted arrival of a prefix.\<close>

fun last_accepted :: "(net_endpoint \<times> int) option \<Rightarrow> (net_endpoint \<times> int \<times> bool) list \<Rightarrow> (net_endpoint \<times> int) option" where
  "last_accepted o1 [] = o1"
| "last_accepted o1 ((a, t, ok) # ds) = last_accepted (if ok then Some (a, t) else o1) ds"

definition pin_owner :: "localPeerPin \<Rightarrow> (net_endpoint \<times> int) option" where
  "pin_owner pin = map_option (\<lambda>a. (a, pin_lastSeen pin)) (pin_addr pin)"

lemma pin_Accept_owner:
  "pin_Accept pin (Some a) t = (ok, pin') \<Longrightarrow>
     rebindAfter pin' = rebindAfter pin \<and> pin_owner pin' = (if ok then Some (a, t) else pin_owner pin) \<and>
     (ok \<longleftrightarrow> (case pin_owner pin of None \<Rightarrow> True | Some (b, u) \<Rightarrow> a = b \<or> t - u \<ge> rebindAfter pin))"
  by (auto simp: pin_Accept_def pin_owner_def split: option.split_asm if_split_asm)

lemma pin_decisions_arrivals: "map (\<lambda>(a, t, ok). (a, t)) (pin_decisions pin xs) = xs"
  by (induction pin xs rule: pin_decisions.induct) (auto split: prod.split)

lemma pin_decisions_spec:
  assumes "i < length (pin_decisions pin xs)" "pin_decisions pin xs ! i = (a, t, ok)"
  shows "ok \<longleftrightarrow> (case last_accepted (pin_owner pin) (take i (pin_decisions pin xs)) of
      None \<Rightarrow> True | Some (b, u) \<Rightarrow> a = b \<or> t - u \<ge> rebindAfter pin)"
  using assms
proof (induction xs arbitrary: pin i)
  case (Cons x xs)
  obtain b u where x: "x = (b, u)" by fastforce
  obtain ok' pin' where acc: "pin_Accept pin (Some b) u = (ok', pin')" by fastforce
  have ds: "pin_decisions pin (x # xs) = (b, u, ok') # pin_decisions pin' xs" by (simp add: x acc)
  have r: "rebindAfter pin' = rebindAfter pin" and own: "pin_owner pin' = (if ok' then Some (b, u) else pin_owner pin)"
    and k: "ok' \<longleftrightarrow> (case pin_owner pin of None \<Rightarrow> True | Some (c, v) \<Rightarrow> b = c \<or> u - v \<ge> rebindAfter pin)"
    using pin_Accept_owner [OF acc] by blast+
  show ?case
  proof (cases i)
    case 0
    then show ?thesis using Cons.prems k unfolding ds by auto
  next
    case (Suc j)
    then show ?thesis using Cons.IH [of j pin', unfolded r own] Cons.prems unfolding ds by simp
  qed
qed simp

text \<open>The pin remembers the last accepted arrival.\<close>

lemma pin_follows:
  "\<exists>pin'. fold (\<lambda>(a, t) p. snd (pin_Accept p (Some a) t)) xs pin = pin' \<and>
     pin_owner pin' = last_accepted (pin_owner pin) (pin_decisions pin xs)"
proof (induction xs arbitrary: pin)
  case (Cons x xs)
  obtain b u where x: "x = (b, u)" by fastforce
  obtain ok pin' where acc: "pin_Accept pin (Some b) u = (ok, pin')" by fastforce
  then show ?case using Cons.IH [of pin'] pin_Accept_owner [OF acc] by (simp add: x)
qed simp

text \<open>
  C21. The tunnel cannot be stolen. For every sequence of packets arriving at the local socket, whatever their
  times: a packet is let in exactly when no packet was let in before, or when it comes from the same
  address as the last packet let in, or when at least the rebind interval (one minute by default, never zero)
  has passed since that packet; and return traffic goes to the sender of the last packet let in.
\<close>

theorem local_peer_pinned:
  assumes "i < length arrivals" "pin_decisions (newLocalPeerPin rebind) arrivals ! i = (a, t, ok)"
  shows "arrivals ! i = (a, t) \<and>
    (ok \<longleftrightarrow> (case last_accepted None (take i (pin_decisions (newLocalPeerPin rebind) arrivals)) of
       None \<Rightarrow> True | Some (b, u) \<Rightarrow> a = b \<or> t - u \<ge> (if rebind \<le> 0 then 60000000000 else rebind))) \<and>
    pin_Current (fold (\<lambda>(a, t) p. snd (pin_Accept p (Some a) t)) arrivals (newLocalPeerPin rebind)) =
      map_option fst (last_accepted None (pin_decisions (newLocalPeerPin rebind) arrivals))"
proof -
  let ?pin = "newLocalPeerPin rebind"
  have new: "pin_owner ?pin = None" "rebindAfter ?pin = (if rebind \<le> 0 then 60000000000 else rebind)"
    by (simp_all add: newLocalPeerPin_def pin_owner_def defaultLocalPeerRebindIdle_def)
  have arr: "map (\<lambda>(a, t, ok). (a, t)) (pin_decisions ?pin arrivals) = arrivals" by (rule pin_decisions_arrivals)
  then have len: "length (pin_decisions ?pin arrivals) = length arrivals" by (metis length_map)
  have "arrivals ! i = (\<lambda>(a, t, ok). (a, t)) (pin_decisions ?pin arrivals ! i)"
    using assms(1) by (subst arr [symmetric]) (simp add: len)
  moreover have "pin_Current p = map_option fst (pin_owner p)" for p
    by (cases "pin_addr p") (simp_all add: pin_Current_def pin_owner_def)
  moreover have "ok \<longleftrightarrow> (case last_accepted None (take i (pin_decisions ?pin arrivals)) of
       None \<Rightarrow> True | Some (b, u) \<Rightarrow> a = b \<or> t - u \<ge> (if rebind \<le> 0 then 60000000000 else rebind))"
    using pin_decisions_spec [of i ?pin arrivals a t ok] assms len unfolding new by simp
  ultimately show ?thesis using pin_follows [of arrivals ?pin] assms(2) new(1) by auto
qed

definition example_arrivals :: "(net_endpoint \<times> int) list" where
  "example_arrivals =
     (let a = \<lparr>addr_Network = ''udp'', addr_String = ''127.0.0.1:1''\<rparr>; b = \<lparr>addr_Network = ''udp'', addr_String = ''127.0.0.1:2''\<rparr>
      in [(a, 1), (b, 5), (b, 6)])"

theorem local_peer_pinned_witness:
  "\<exists>b. pin_decisions (newLocalPeerPin 5) example_arrivals ! 1 = (b, 5, False) \<and>
     pin_decisions (newLocalPeerPin 5) example_arrivals ! 2 = (b, 6, True) \<and> example_arrivals ! 2 = (b, 6)"
proof -
  let ?b = "\<lparr>addr_Network = ''udp'', addr_String = ''127.0.0.1:2''\<rparr>"
  have "pin_decisions (newLocalPeerPin 5) example_arrivals ! 1 = (?b, 5, False)"
    "pin_decisions (newLocalPeerPin 5) example_arrivals ! 2 = (?b, 6, True)" "2 < length example_arrivals"
    by code_simp+
  with local_peer_pinned [of 2 example_arrivals 5 ?b 6 True] show ?thesis by blast
qed

section \<open>The queue\<close>

text \<open>What the reader lets in from a sequence of events.\<close>

fun let_in :: "bool \<Rightarrow> localPeerPin \<Rightarrow> intake_event list \<Rightarrow> string list" where
  "let_in run pin [] = []"
| "let_in run pin (LocalPacket p addr now # evs) =
     (if \<not> run then let_in run pin evs
      else let (ok, pin') = pin_Accept pin addr now in (if ok then [p] else []) @ let_in run pin' evs)"
| "let_in run pin (LocalReadFails # evs) = let_in False pin evs"
| "let_in run pin (WriterTakes # evs) = let_in run pin evs"

text \<open>Taken, queued and still to be let in: the packets in the order of their arrival.\<close>

definition in_order :: "intake \<Rightarrow> intake_event list \<Rightarrow> string list" where
  "in_order s evs = in_taken s @ inboundChan s @ let_in (in_running s) (in_pin s) evs"

lemma intake_step_order:
  "in_order (intake_step ev s) evs = in_order s (ev # evs) \<and> queueDrops (in_registry (intake_step ev s)) = queueDrops (in_registry s) \<or>
   (\<exists>xs p ys. in_order s (ev # evs) = xs @ p # ys \<and> in_order (intake_step ev s) evs = xs @ ys) \<and>
     queueDrops (in_registry (intake_step ev s)) = queueDrops (in_registry s) + 1"
proof (cases ev)
  case (LocalPacket p addr now)
  obtain ok pin where acc: "pin_Accept (in_pin s) addr now = (ok, pin)" by fastforce
  show ?thesis
  proof (cases "in_running s \<and> ok \<and> length (inboundChan s) \<ge> inboundCapacity")
    case True
    then have "in_order s (ev # evs) = (in_taken s @ inboundChan s) @ p # let_in True pin evs"
      "in_order (intake_step ev s) evs = (in_taken s @ inboundChan s) @ let_in True pin evs"
      "queueDrops (in_registry (intake_step ev s)) = queueDrops (in_registry s) + 1"
      by (simp_all add: in_order_def intake_step_def LocalPacket acc)
    then show ?thesis by blast
  qed (auto simp: in_order_def intake_step_def LocalPacket acc)
qed (auto simp: in_order_def intake_step_def split: list.split)

lemma intake_step_capacity:
  "length (inboundChan s) \<le> inboundCapacity \<Longrightarrow> length (inboundChan (intake_step ev s)) \<le> inboundCapacity"
  by (auto simp: intake_step_def Let_def split: intake_event.split list.split prod.split)

text \<open>The queue never exceeds its capacity; what is in it and what the writers took is, in order, part of what was let in;
  and every packet that is missing was counted as dropped.\<close>

lemma intake_queue:
  assumes "length (inboundChan s) \<le> inboundCapacity"
  shows "length (inboundChan (intake_run evs s)) \<le> inboundCapacity \<and>
    subseq (in_order (intake_run evs s) []) (in_order s evs) \<and>
    (\<exists>d. queueDrops (in_registry (intake_run evs s)) = queueDrops (in_registry s) + of_nat d \<and>
       length (in_order s evs) = length (in_order (intake_run evs s) []) + d)"
  using assms
proof (induction evs arbitrary: s)
  case (Cons ev evs)
  let ?s = "intake_step ev s"
  have run: "intake_run (ev # evs) s = intake_run evs ?s" by (simp add: intake_run_def)
  from Cons.IH [OF intake_step_capacity [OF Cons.prems], of ev] obtain d where
    ih: "length (inboundChan (intake_run evs ?s)) \<le> inboundCapacity" "subseq (in_order (intake_run evs ?s) []) (in_order ?s evs)"
      "queueDrops (in_registry (intake_run evs ?s)) = queueDrops (in_registry ?s) + of_nat d"
      "length (in_order ?s evs) = length (in_order (intake_run evs ?s) []) + d" by blast
  from intake_step_order [of ev s evs] show ?case
  proof (elim disjE conjE exE)
    assume "in_order ?s evs = in_order s (ev # evs)" "queueDrops (in_registry ?s) = queueDrops (in_registry s)"
    with ih show ?thesis unfolding run by auto
  next
    fix xs p ys
    assume st: "in_order s (ev # evs) = xs @ p # ys" "in_order ?s evs = xs @ ys"
      "queueDrops (in_registry ?s) = queueDrops (in_registry s) + 1"
    have "subseq (xs @ ys) (xs @ p # ys)" by (metis list_emb_Cons subseq_append' subseq_order.refl)
    with ih(2) st have "subseq (in_order (intake_run evs ?s) []) (in_order s (ev # evs))" by (metis subseq_order.trans)
    moreover have "queueDrops (in_registry (intake_run evs ?s)) = queueDrops (in_registry s) + of_nat (Suc d) \<and>
       length (in_order s (ev # evs)) = length (in_order (intake_run evs ?s) []) + Suc d"
      using ih(3,4) st by simp
    ultimately show ?thesis using ih(1) unfolding run by blast
  qed
qed (simp add: intake_run_def)

end
