(* ===== verification/Credentials.thy ===== *)
theory Credentials
  imports Metrics_Registry
begin

text \<open>
  The TURN credential layer of \<open>src/client/main.go\<close>: the caches shared by groups of streams, their
  invalidation after authentication errors, and the serialised, throttled requests to VK. The token chain
  (\<open>getTokenChain\<close>, an HTTP dialogue) is a parameter, as are random numbers and the time things take. Times are nanoseconds,
  times in seconds are named so. An operation is one critical section of a cache: reading it, or
  fetching under its write lock after checking again.
\<close>

section \<open>Caches\<close>

type_synonym turn_creds = "string \<times> string \<times> string"

record TurnCredentials =
  Username :: string
  Password :: string
  ServerAddr :: string
  ExpiresAt :: "int option"
  Link :: string

record StreamCredentialsCache =
  creds :: TurnCredentials
  errorCount :: "32 word"
  lastErrorTime :: int

definition zero_creds :: TurnCredentials where
  "zero_creds = \<lparr>Username = [], Password = [], ServerAddr = [], ExpiresAt = None, Link = []\<rparr>"

definition new_cache :: StreamCredentialsCache where
  "new_cache = \<lparr>creds = zero_creds, errorCount = 0, lastErrorTime = 0\<rparr>"

definition ns_per_s :: int where "ns_per_s = 1000000000"

definition credentialLifetime :: int where "credentialLifetime = 600 * ns_per_s"

definition cacheSafetyMargin :: int where "cacheSafetyMargin = 60 * ns_per_s"

definition maxCacheErrors :: int where "maxCacheErrors = 3"

definition errorWindow :: int where "errorWindow = 10"

text \<open>One entry per call of \<open>fetchVkCreds\<close>: when it began and ended, for which cache and link, and its result.\<close>

record vk_fetch =
  fetch_start :: int
  fetch_end :: int
  fetch_cache :: int
  fetch_link :: string
  fetch_result :: "string + turn_creds"

record cred_state =
  streamsPerCache :: int
  caches :: "int \<rightharpoonup> StreamCredentialsCache"
  cred_registry :: registry
  globalLastVkFetchTime :: "int option"
  globalCaptchaLockout :: int
  fetch_log :: "vk_fetch list"

definition getCacheID :: "cred_state \<Rightarrow> int \<Rightarrow> int" where
  "getCacheID st streamID = go_div streamID (streamsPerCache st)"

text \<open>An entry that does not exist yet is a fresh cache; entering it in the map changes nothing a caller sees.\<close>

definition getStreamCache :: "cred_state \<Rightarrow> int \<Rightarrow> StreamCredentialsCache" where
  "getStreamCache st streamID = (case caches st (getCacheID st streamID) of Some c \<Rightarrow> c | None \<Rightarrow> new_cache)"

definition put_cache :: "int \<Rightarrow> StreamCredentialsCache \<Rightarrow> cred_state \<Rightarrow> cred_state" where
  "put_cache streamID c st = st\<lparr>caches := (caches st)(getCacheID st streamID \<mapsto> c)\<rparr>"

section \<open>Authentication errors\<close>

definition isAuthError :: "string option \<Rightarrow> bool" where
  "isAuthError err =
     (case err of
        None \<Rightarrow> False
      | Some e \<Rightarrow>
          let s = ToLower e in
          str_contains s ''401'' \<or> str_contains s ''unauthorized'' \<or> str_contains s ''authentication'' \<or>
          str_contains s ''invalid credential'' \<or> str_contains s ''stale nonce'')"

definition isFatalCaptchaError :: "string option \<Rightarrow> bool" where
  "isFatalCaptchaError err = (case err of None \<Rightarrow> False | Some e \<Rightarrow> str_contains e ''FATAL_CAPTCHA'')"

definition invalidate :: "StreamCredentialsCache \<Rightarrow> StreamCredentialsCache" where
  "invalidate c = c\<lparr>creds := zero_creds, errorCount := 0, lastErrorTime := 0\<rparr>"

text \<open>On the cache of the stream, at a time in seconds: whether it was invalidated.\<close>

definition auth_error :: "int \<Rightarrow> StreamCredentialsCache \<Rightarrow> bool \<times> StreamCredentialsCache" where
  "auth_error unix c =
     (let c1 = (if unix - lastErrorTime c > errorWindow then c\<lparr>errorCount := 0\<rparr> else c);
          count = errorCount c1 + 1;
          c2 = c1\<lparr>errorCount := count, lastErrorTime := unix\<rparr>
      in if sint count \<ge> maxCacheErrors then (True, invalidate c2) else (False, c2))"

definition handleAuthError :: "int \<Rightarrow> int \<Rightarrow> cred_state \<Rightarrow> bool \<times> cred_state" where
  "handleAuthError now streamID st =
     (let (dropped, c) = auth_error (now div ns_per_s) (getStreamCache st streamID) in (dropped, put_cache streamID c st))"

text \<open>Whether credentials were invalidated.\<close>

definition recordTURNAllocationResult :: "int \<Rightarrow> int \<Rightarrow> string option \<Rightarrow> cred_state \<Rightarrow> bool \<times> cred_state" where
  "recordTURNAllocationResult now streamID err st =
     (case err of
        Some e \<Rightarrow>
          if isAuthError (Some e)
          then handleAuthError now streamID (st\<lparr>cred_registry := gauge AuthFailed (cred_registry st)\<rparr>)
          else (False, st)
      | None \<Rightarrow> (False, put_cache streamID ((getStreamCache st streamID)\<lparr>errorCount := 0, lastErrorTime := 0\<rparr>) st))"

section \<open>Requests\<close>

record VKCredentials =
  ClientID :: string
  ClientSecret :: string

definition vkCredentialsList :: "VKCredentials list" where
  "vkCredentialsList =
     [\<lparr>ClientID = ''6287487'', ClientSecret = ''QbYic1K3lEV5kTGiqlq2''\<rparr>,
      \<lparr>ClientID = ''7879029'', ClientSecret = ''aR5NKGmm03GYrCiNKsaw''\<rparr>,
      \<lparr>ClientID = ''52461373'', ClientSecret = ''o557NLIkAErNhakXrQ7A''\<rparr>,
      \<lparr>ClientID = ''52649896'', ClientSecret = ''WStp4ihWG4l3nmXZgIbC''\<rparr>,
      \<lparr>ClientID = ''51781872'', ClientSecret = ''IjjCNl4L4Tf5QZEXIHKK''\<rparr>]"

text \<open>The environment of one request: the random milliseconds, how long a wait really takes (\<open>None\<close> when the
  context ends it), what the token chain answers,
  how long the request takes, and the lockout time the chain leaves when a captcha could not be solved.\<close>

record fetch_env =
  fe_rand :: int
  fe_sleep :: "int \<Rightarrow> int option"
  fe_chain :: "VKCredentials \<Rightarrow> string + turn_creds"
  fe_took :: int
  fe_lockout :: "int option"

definition captcha_abort :: "string \<Rightarrow> bool" where
  "captcha_abort e \<longleftrightarrow> str_contains e ''CAPTCHA_WAIT_REQUIRED'' \<or> isFatalCaptchaError (Some e)"

fun try_credentials :: "(VKCredentials \<Rightarrow> string + turn_creds) \<Rightarrow> string \<Rightarrow> VKCredentials list \<Rightarrow> string + turn_creds" where
  "try_credentials chain lastErr [] = Inl (''all VK credentials failed: '' @ lastErr)"
| "try_credentials chain lastErr (c # cs) =
     (case chain c of
        Inr r \<Rightarrow> Inr r
      | Inl e \<Rightarrow> if captcha_abort e then Inl e else try_credentials chain e cs)"

definition fetchVkCreds :: "int \<Rightarrow> int \<Rightarrow> (VKCredentials \<Rightarrow> string + turn_creds) \<Rightarrow> string + turn_creds" where
  "fetchVkCreds now lockout chain =
     (if now div ns_per_s < lockout then Inl ''CAPTCHA_WAIT_REQUIRED: global lockout active''
      else try_credentials chain [] vkCredentialsList)"

text \<open>When the request may begin: now, or after the wait for the minimum interval.\<close>

definition throttle :: "int \<Rightarrow> fetch_env \<Rightarrow> int option \<Rightarrow> int option" where
  "throttle now env lastFetch =
     (let minInterval = 3 * ns_per_s + fe_rand env * 1000000 in
      case lastFetch of
        None \<Rightarrow> Some now
      | Some l \<Rightarrow>
          let elapsed = now - l in
          if elapsed < minInterval then map_option (\<lambda>w. now + w) (fe_sleep env (minInterval - elapsed)) else Some now)"

definition fetchVkCredsSerialized :: "int \<Rightarrow> fetch_env \<Rightarrow> string \<Rightarrow> int \<Rightarrow> cred_state \<Rightarrow> (string + turn_creds) \<times> int \<times> cred_state" where
  "fetchVkCredsSerialized now env link streamID st =
     (case throttle now env (globalLastVkFetchTime st) of
        None \<Rightarrow> (Inl ''context canceled'', now, st)
      | Some start \<Rightarrow>
          let r = fetchVkCreds start (globalCaptchaLockout st) (fe_chain env);
              finish = start + fe_took env
          in (r, finish, st\<lparr>globalLastVkFetchTime := Some finish,
                globalCaptchaLockout := (case fe_lockout env of None \<Rightarrow> globalCaptchaLockout st | Some t \<Rightarrow> t),
                fetch_log := fetch_log st @ [\<lparr>fetch_start = start, fetch_end = finish, fetch_cache = getCacheID st streamID,
                                              fetch_link = link, fetch_result = r\<rparr>]\<rparr>))"

text \<open>The check of \<open>getVkCredsCached\<close>, made under the read lock and again under the write lock.\<close>

definition cached :: "int \<Rightarrow> string \<Rightarrow> StreamCredentialsCache \<Rightarrow> turn_creds option" where
  "cached now link c =
     (if Link (creds c) = link \<and> (case ExpiresAt (creds c) of None \<Rightarrow> False | Some t \<Rightarrow> now < t)
      then Some (Username (creds c), Password (creds c), ServerAddr (creds c)) else None)"

text \<open>Its part under the write lock.\<close>

definition cached_or_fetch :: "int \<Rightarrow> fetch_env \<Rightarrow> string \<Rightarrow> int \<Rightarrow> cred_state \<Rightarrow> (string + turn_creds) \<times> cred_state" where
  "cached_or_fetch now env link streamID st =
     (case cached now link (getStreamCache st streamID) of
        Some r \<Rightarrow> (Inr r, st)
      | None \<Rightarrow>
          (case fetchVkCredsSerialized now env link streamID st of
             (Inl e, _, st') \<Rightarrow> (Inl e, st')
           | (Inr (user, pass, addr), finish, st') \<Rightarrow>
               (Inr (user, pass, addr),
                put_cache streamID ((getStreamCache st' streamID)\<lparr>creds :=
                  \<lparr>Username = user, Password = pass, ServerAddr = addr,
                   ExpiresAt = Some (finish + (credentialLifetime - cacheSafetyMargin)), Link = link\<rparr>\<rparr>) st')))"

text \<open>A whole call when no other goroutine comes in between its two parts.\<close>

definition getVkCredsCached :: "int \<Rightarrow> fetch_env \<Rightarrow> string \<Rightarrow> int \<Rightarrow> cred_state \<Rightarrow> (string + turn_creds) \<times> cred_state" where
  "getVkCredsCached now env link streamID st =
     (case cached now link (getStreamCache st streamID) of
        Some r \<Rightarrow> (Inr r, st)
      | None \<Rightarrow> cached_or_fetch now env link streamID st)"

section \<open>Interleavings\<close>

datatype cred_op =
    CredRead int string int
  | CredFetch int fetch_env string int
  | CredAllocation int int "string option"

datatype cred_out = Credentials turn_creds | NoCredentials | Noted bool

fun cred_step :: "cred_op \<Rightarrow> cred_state \<Rightarrow> cred_out \<times> cred_state" where
  "cred_step (CredRead now link streamID) st =
     (case cached now link (getStreamCache st streamID) of Some r \<Rightarrow> Credentials r | None \<Rightarrow> NoCredentials, st)"
| "cred_step (CredFetch now env link streamID) st =
     (case cached_or_fetch now env link streamID st of
        (Inr r, st') \<Rightarrow> (Credentials r, st')
      | (Inl _, st') \<Rightarrow> (NoCredentials, st'))"
| "cred_step (CredAllocation now streamID err) st =
     (case recordTURNAllocationResult now streamID err st of (dropped, st') \<Rightarrow> (Noted dropped, st'))"

fun cred_run :: "cred_op list \<Rightarrow> cred_state \<Rightarrow> cred_out list \<times> cred_state" where
  "cred_run [] st = ([], st)"
| "cred_run (op1 # ops) st =
     (let (out, st') = cred_step op1 st; (outs, st'') = cred_run ops st' in (out # outs, st''))"

definition new_cred_state :: "int \<Rightarrow> registry \<Rightarrow> int \<Rightarrow> cred_state" where
  "new_cred_state n reg lockout = \<lparr>streamsPerCache = n, caches = Map.empty, cred_registry = reg,
     globalLastVkFetchTime = None, globalCaptchaLockout = lockout, fetch_log = []\<rparr>"

section \<open>The order of the application credentials\<close>

text \<open>A request succeeds exactly with the first application whose chain succeeds, if none before it fails on a captcha.\<close>

lemma try_credentials_first:
  "try_credentials chain lastErr cs = Inr r \<longleftrightarrow>
     (case dropWhile (\<lambda>c. case chain c of Inl e \<Rightarrow> \<not> captcha_abort e | Inr _ \<Rightarrow> False) cs of
        [] \<Rightarrow> False
      | c # _ \<Rightarrow> chain c = Inr r)"
  by (induction cs arbitrary: lastErr) (auto split: sum.split)

lemma lockout_blocks: "now div ns_per_s < lockout \<Longrightarrow> isl (fetchVkCreds now lockout chain)"
  by (simp add: fetchVkCreds_def)

section \<open>Credentials are fresh\<close>

text \<open>Every stored credential comes from a request in the log, for the same cache and link, and expires nine minutes after it.\<close>

definition backed :: "vk_fetch list \<Rightarrow> int \<Rightarrow> TurnCredentials \<Rightarrow> bool" where
  "backed log k c \<longleftrightarrow> (\<forall>t. ExpiresAt c = Some t \<longrightarrow>
     (\<exists>f \<in> set log. fetch_cache f = k \<and> fetch_link f = Link c \<and> fetch_result f = Inr (Username c, Password c, ServerAddr c) \<and>
        t = fetch_end f + 540 * ns_per_s))"

definition cred_inv :: "cred_state \<Rightarrow> bool" where
  "cred_inv st \<longleftrightarrow> (\<forall>k c. caches st k = Some c \<longrightarrow> backed (fetch_log st) k (creds c))"

lemma backed_zero [simp]: "backed log k zero_creds"
  by (simp add: backed_def zero_creds_def)

lemma backed_append: "backed log k c \<Longrightarrow> backed (log @ more_log) k c"
  by (fastforce simp: backed_def)

lemma stream_cache_backed: "cred_inv st \<Longrightarrow> backed (fetch_log st) (getCacheID st streamID) (creds (getStreamCache st streamID))"
  by (auto simp: cred_inv_def getStreamCache_def new_cache_def split: option.split)

lemma put_cache_simps [simp]:
  "fetch_log (put_cache i c st) = fetch_log st" "streamsPerCache (put_cache i c st) = streamsPerCache st"
  "globalLastVkFetchTime (put_cache i c st) = globalLastVkFetchTime st" "getCacheID (put_cache i c st) j = getCacheID st j"
  "getStreamCache (put_cache i c st) j = (if getCacheID st i = getCacheID st j then c else getStreamCache st j)"
  by (auto simp: put_cache_def getCacheID_def getStreamCache_def)

lemma put_cache_inv: "cred_inv st \<Longrightarrow> backed (fetch_log st) (getCacheID st i) (creds c) \<Longrightarrow> cred_inv (put_cache i c st)"
  by (auto simp: cred_inv_def put_cache_def)

lemma auth_error_creds: "auth_error unix c = (dropped, c') \<Longrightarrow> creds c' = (if dropped then zero_creds else creds c)"
  by (auto simp: auth_error_def invalidate_def Let_def split: if_split_asm)

lemma alloc_inv:
  assumes "cred_inv st" "recordTURNAllocationResult now i err st = (dropped, st')"
  shows "cred_inv st'"
proof -
  obtain b c where ae: "auth_error (now div ns_per_s) (getStreamCache st i) = (b, c)" by fastforce
  have "backed (fetch_log st) (getCacheID st i) (creds c)"
    using auth_error_creds [OF ae] stream_cache_backed [OF assms(1), of i] by simp
  moreover have "getStreamCache (st\<lparr>cred_registry := r\<rparr>) i = getStreamCache st i" "getCacheID (st\<lparr>cred_registry := r\<rparr>) i = getCacheID st i"
    "cred_inv (st\<lparr>cred_registry := r\<rparr>)" for r
    using assms(1) by (simp_all add: getStreamCache_def getCacheID_def cred_inv_def)
  ultimately show ?thesis
    using assms stream_cache_backed [OF assms(1), of i] ae
    by (auto simp: recordTURNAllocationResult_def handleAuthError_def intro!: put_cache_inv split: option.split_asm if_split_asm prod.split_asm)
qed

lemma serialized_log:
  assumes "fetchVkCredsSerialized now env link i st = (r, finish, st')"
  shows "caches st' = caches st \<and> streamsPerCache st' = streamsPerCache st \<and>
    (st' = st \<and> isl r \<or>
     (\<exists>f. fetch_log st' = fetch_log st @ [f] \<and> fetch_end f = finish \<and> fetch_cache f = getCacheID st i \<and> fetch_link f = link \<and>
        fetch_result f = r \<and> globalLastVkFetchTime st' = Some finish \<and>
        throttle now env (globalLastVkFetchTime st) = Some (fetch_start f) \<and> finish = fetch_start f + fe_took env))"
  using assms by (auto simp: fetchVkCredsSerialized_def Let_def split: option.split_asm)

lemma cached_or_fetch_inv:
  assumes inv: "cred_inv st" and cf: "cached_or_fetch now env link i st = (r, st')"
  shows "cred_inv st'"
proof (cases "cached now link (getStreamCache st i)")
  case (Some x)
  then show ?thesis using inv cf by (simp add: cached_or_fetch_def)
next
  case None
  obtain r1 finish st1 where se: "fetchVkCredsSerialized now env link i st = (r1, finish, st1)" by (metis surj_pair)
  note sl = serialized_log [OF se]
  have inv1: "cred_inv st1" using sl inv backed_append by (auto simp: cred_inv_def)
  have ids: "getCacheID st1 i = getCacheID st i" using sl by (simp add: getCacheID_def)
  show ?thesis
  proof (cases r1)
    case (Inl e)
    then show ?thesis using cf None se inv1 by (simp add: cached_or_fetch_def)
  next
    case (Inr x)
    obtain user pass addr where x: "x = (user, pass, addr)" by (metis surj_pair)
    let ?c = "\<lparr>Username = user, Password = pass, ServerAddr = addr,
      ExpiresAt = Some (finish + (credentialLifetime - cacheSafetyMargin)), Link = link\<rparr>"
    have "\<not> isl r1" using Inr by simp
    with sl obtain f where f: "fetch_log st1 = fetch_log st @ [f]" "fetch_end f = finish" "fetch_cache f = getCacheID st i" "fetch_link f = link"
      "fetch_result f = r1" by blast
    then have "backed (fetch_log st1) (getCacheID st1 i) ?c"
      using Inr x ids by (auto simp: backed_def credentialLifetime_def cacheSafetyMargin_def)
    then show ?thesis
      using cf None se inv1 Inr x by (auto simp: cached_or_fetch_def intro!: put_cache_inv)
  qed
qed

lemma cred_step_inv:
  assumes "cred_inv st" "cred_step op1 st = (out, st')"
  shows "cred_inv st'"
proof (cases op1)
  case (CredRead now link i)
  then show ?thesis using assms by simp
next
  case (CredFetch now env link i)
  obtain r st1 where "cached_or_fetch now env link i st = (r, st1)" by fastforce
  with assms CredFetch cached_or_fetch_inv [OF assms(1) this] show ?thesis by (cases r) auto
next
  case (CredAllocation now i err)
  obtain d st1 where "recordTURNAllocationResult now i err st = (d, st1)" by fastforce
  with assms CredAllocation alloc_inv [OF assms(1) this] show ?thesis by simp
qed

text \<open>What a state keeps when every step keeps it, from the start on.\<close>

lemma cred_run_induct:
  assumes "\<And>op1 s out t. op1 \<in> set ops \<Longrightarrow> P s \<Longrightarrow> cred_step op1 s = (out, t) \<Longrightarrow> P t"
    and "P st" "cred_run ops st = (outs, st')"
  shows "P st'"
  using assms
proof (induction ops arbitrary: st outs)
  case (Cons op1 ops)
  obtain out s where st: "cred_step op1 st = (out, s)" by fastforce
  obtain os t where run: "cred_run ops s = (os, t)" by fastforce
  show ?case
  proof (rule Cons.IH)
    show "P v" if "q \<in> set ops" "P u" "cred_step q u = (x, v)" for q u x v
      using Cons.prems(1) [of q u x v] that by simp
    show "P s" using Cons.prems(1) [of op1, OF _ Cons.prems(2) st] by simp
    show "cred_run ops s = (os, st')" using Cons.prems(3) st run by simp
  qed
qed simp

lemma cred_reachable_inv: "cred_run ops (new_cred_state n reg lockout) = (outs, st) \<Longrightarrow> cred_inv st"
  using cred_run_induct [of ops cred_inv "new_cred_state n reg lockout" outs st] cred_step_inv
  by (auto simp: cred_inv_def new_cred_state_def)

fun op_request :: "cred_op \<Rightarrow> (int \<times> string \<times> int) option" where
  "op_request (CredRead now link i) = Some (now, link, i)"
| "op_request (CredFetch now env link i) = Some (now, link, i)"
| "op_request (CredAllocation _ _ _) = None"

lemma cached_backed:
  assumes "cred_inv st" "cached now link (getStreamCache st i) = Some r"
  shows "\<exists>f \<in> set (fetch_log st). fetch_cache f = getCacheID st i \<and> fetch_link f = link \<and> fetch_result f = Inr r \<and>
    now < fetch_end f + 540 * ns_per_s"
  using stream_cache_backed [OF assms(1), of i] assms(2)
  by (fastforce simp: cached_def backed_def split: if_split_asm option.split_asm)

text \<open>
  C24. Credentials are never stale and never mixed up. Whatever the goroutines of all streams do before, in whatever order: a credential that
  is handed to a stream was obtained by a request to VK made for the same call link and by a stream of the same cache,
  and either it is the result of the request just made or that request ended less than nine minutes ago.
\<close>

theorem credentials_fresh:
  assumes "cred_run ops (new_cred_state n reg lockout) = (outs, st)"
    and "cred_step op1 st = (Credentials r, st')" "op_request op1 = Some (now, link, i)"
  shows "\<exists>f \<in> set (fetch_log st'). fetch_cache f = getCacheID st i \<and> fetch_link f = link \<and> fetch_result f = Inr r \<and>
    (now < fetch_end f + 540 * ns_per_s \<or> fetch_log st' = fetch_log st @ [f])"
proof -
  note inv = cred_reachable_inv [OF assms(1)]
  show ?thesis
  proof (cases "cached now link (getStreamCache st i)")
    case (Some x)
    then have "r = x \<and> st' = st"
      using assms(2,3) by (cases op1) (auto simp: cached_or_fetch_def split: option.split_asm)
    with cached_backed [OF inv Some] show ?thesis by blast
  next
    case None
    then obtain env where op1: "op1 = CredFetch now env link i" using assms(2,3) by (cases op1) auto
    obtain r1 finish st1 where se: "fetchVkCredsSerialized now env link i st = (r1, finish, st1)" by (metis surj_pair)
    have r1: "r1 = Inr r" "fetch_log st' = fetch_log st1"
      using assms(2) None se by (cases r1; auto simp: op1 cached_or_fetch_def split: prod.split_asm sum.split_asm)+
    then have "\<not> isl r1" by simp
    with serialized_log [OF se] obtain f where "fetch_log st1 = fetch_log st @ [f]" "fetch_cache f = getCacheID st i"
      "fetch_link f = link" "fetch_result f = r1" by blast
    with r1 show ?thesis by auto
  qed
qed

definition example_fetch :: fetch_env where
  "example_fetch = \<lparr>fe_rand = 0, fe_sleep = (\<lambda>w. Some w),
     fe_chain = (\<lambda>c. if ClientID c = ''6287487'' then Inl ''Rate limit'' else Inr (''u'', ''p'', ''a'')), fe_took = 5, fe_lockout = None\<rparr>"

theorem credentials_fresh_witness:
  "\<exists>outs st f. cred_run [CredFetch 100 example_fetch ''L'' 3] (new_cred_state 10 (empty_registry None) 0) = (outs, st) \<and>
     cred_step (CredRead 200 ''L'' 7) st = (Credentials (''u'', ''p'', ''a''), st) \<and>
     f \<in> set (fetch_log st) \<and> fetch_result f = Inr (''u'', ''p'', ''a'')"
proof -
  obtain outs st where run: "cred_run [CredFetch 100 example_fetch ''L'' 3] (new_cred_state 10 (empty_registry None) 0) = (outs, st)" by fastforce
  have "fst (cred_step (CredRead 200 ''L'' 7) (snd (cred_run [CredFetch 100 example_fetch ''L'' 3] (new_cred_state 10 (empty_registry None) 0)))) =
      Credentials (''u'', ''p'', ''a'')"
    by code_simp
  then have step: "cred_step (CredRead 200 ''L'' 7) st = (Credentials (''u'', ''p'', ''a''), st)" using run by simp
  from credentials_fresh [OF run step] obtain f where "f \<in> set (fetch_log st)" "fetch_result f = Inr (''u'', ''p'', ''a'')" by auto
  with run step show ?thesis by blast
qed

section \<open>Requests are spaced\<close>

text \<open>The random number is not negative and a wait is never cut short, except by the context.\<close>

fun op_timed :: "cred_op \<Rightarrow> bool" where
  "op_timed (CredFetch now env link i) \<longleftrightarrow> 0 \<le> fe_rand env \<and> (\<forall>w d. fe_sleep env w = Some d \<longrightarrow> w \<le> d)"
| "op_timed _ \<longleftrightarrow> True"

fun spaced :: "vk_fetch list \<Rightarrow> bool" where
  "spaced (f # g # fs) \<longleftrightarrow> fetch_end f + 3 * ns_per_s \<le> fetch_start g \<and> spaced (g # fs)"
| "spaced _ \<longleftrightarrow> True"

lemma spaced_snoc: "spaced (fs @ [f]) \<longleftrightarrow> spaced fs \<and> (fs = [] \<or> fetch_end (last fs) + 3 * ns_per_s \<le> fetch_start f)"
  by (induction fs rule: spaced.induct) auto

lemma spaced_nth: "spaced fs \<Longrightarrow> Suc i < length fs \<Longrightarrow> fetch_end (fs ! i) + 3 * ns_per_s \<le> fetch_start (fs ! Suc i)"
proof (induction fs arbitrary: i rule: spaced.induct)
  case (1 f g fs)
  then show ?case by (cases i) auto
qed auto

definition spacing_inv :: "cred_state \<Rightarrow> bool" where
  "spacing_inv st \<longleftrightarrow> spaced (fetch_log st) \<and>
     globalLastVkFetchTime st = (if fetch_log st = [] then None else Some (fetch_end (last (fetch_log st))))"

lemma throttle_spacing:
  assumes "0 \<le> fe_rand env" "\<forall>w d. fe_sleep env w = Some d \<longrightarrow> w \<le> d" "throttle now env (Some l) = Some start"
  shows "l + 3 * ns_per_s \<le> start"
proof -
  have "3 * ns_per_s + fe_rand env * 1000000 - (now - l) \<le> d" if "fe_sleep env (3 * ns_per_s + fe_rand env * 1000000 - (now - l)) = Some d" for d
    using assms(2) that by blast
  then show ?thesis using assms(1,3) by (fastforce simp: throttle_def Let_def split: if_split_asm)
qed

lemma serialized_spacing:
  assumes "spacing_inv st" "fetchVkCredsSerialized now env link i st = (r, finish, st')" "op_timed (CredFetch now env link i)"
  shows "spacing_inv st'"
  using serialized_log [OF assms(2)]
proof (elim conjE disjE exE)
  fix f
  assume f: "fetch_log st' = fetch_log st @ [f]" "globalLastVkFetchTime st' = Some finish" "fetch_end f = finish"
    "throttle now env (globalLastVkFetchTime st) = Some (fetch_start f)"
  show ?thesis
    using assms(1,3) f throttle_spacing [of env now "fetch_end (last (fetch_log st))" "fetch_start f"]
    by (auto simp: spacing_inv_def spaced_snoc split: if_split_asm)
qed (use assms(1) in simp)

lemma cred_step_spacing:
  assumes "spacing_inv st" "cred_step op1 st = (out, st')" "op_timed op1"
  shows "spacing_inv st'"
proof (cases op1)
  case (CredFetch now env link i)
  obtain r1 finish st1 where se: "fetchVkCredsSerialized now env link i st = (r1, finish, st1)" by (metis surj_pair)
  have "spacing_inv st1" using serialized_spacing [OF assms(1) se] assms(3) CredFetch by simp
  with assms se CredFetch show ?thesis
    by (cases "cached now link (getStreamCache st i)"; cases r1) (auto simp: cached_or_fetch_def spacing_inv_def split: prod.split_asm)
next
  case (CredAllocation now i err)
  then show ?thesis
    using assms by (auto simp: recordTURNAllocationResult_def handleAuthError_def spacing_inv_def split: option.split_asm if_split_asm prod.split_asm)
qed (use assms in simp)

text \<open>
  C26. Requests to VK are serialised and spaced. However many streams ask at once, and however the
  caches are used in between, a request starts at least three seconds after the end of the one before it, failed ones included.
\<close>

theorem vk_fetch_spacing:
  assumes "cred_run ops (new_cred_state n reg lockout) = (outs, st)" "list_all op_timed ops" "Suc k < length (fetch_log st)"
  shows "fetch_end (fetch_log st ! k) + 3 * ns_per_s \<le> fetch_start (fetch_log st ! Suc k)"
proof -
  have "spacing_inv st"
  proof (rule cred_run_induct [of ops spacing_inv, OF _ _ assms(1)])
    show "spacing_inv t" if "op1 \<in> set ops" "spacing_inv s" "cred_step op1 s = (out, t)" for op1 s out t
      using that assms(2) cred_step_spacing by (auto simp: list_all_iff)
    show "spacing_inv (new_cred_state n reg lockout)" by (simp add: spacing_inv_def new_cred_state_def)
  qed
  then show ?thesis using spaced_nth assms(3) by (simp add: spacing_inv_def)
qed

theorem vk_fetch_spacing_witness:
  "\<exists>outs st. cred_run [CredFetch 100 example_fetch ''L'' 3, CredFetch 101 example_fetch ''M'' 3] (new_cred_state 10 (empty_registry None) 0) = (outs, st) \<and>
     fetch_end (fetch_log st ! 0) + 3 * ns_per_s \<le> fetch_start (fetch_log st ! 1)"
proof -
  let ?ops = "[CredFetch 100 example_fetch ''L'' 3, CredFetch 101 example_fetch ''M'' 3]"
  obtain outs st where run: "cred_run ?ops (new_cred_state 10 (empty_registry None) 0) = (outs, st)" by fastforce
  have "length (fetch_log (snd (cred_run ?ops (new_cred_state 10 (empty_registry None) 0)))) = 2" by code_simp
  then have "Suc 0 < length (fetch_log st)" using run by simp
  moreover have "list_all op_timed ?ops" by (simp add: example_fetch_def)
  ultimately show ?thesis using vk_fetch_spacing [OF run, of 0] run by auto
qed

section \<open>Counting errors\<close>

text \<open>What the counter and the time stamp of a cache stand for: the times, in seconds, of the authentication errors since the
  last reset, each at most ten seconds after the one before. The third one drops the credentials.\<close>

definition streak_error :: "int \<Rightarrow> int list \<Rightarrow> bool \<times> int list" where
  "streak_error t s =
     (let s' = (if s \<noteq> [] \<and> t - last s \<le> 10 then s @ [t] else [t]) in
      if length s' = 3 then (True, []) else (False, s'))"

fun streak_run :: "int \<Rightarrow> cred_op list \<Rightarrow> (int \<Rightarrow> int list) \<Rightarrow> bool list \<times> (int \<Rightarrow> int list)" where
  "streak_run n [] S = ([], S)"
| "streak_run n (CredAllocation now i err # ops) S =
     (let k = go_div i n;
          (d, s) = (if err = None then (False, []) else if isAuthError err then streak_error (now div ns_per_s) (S k) else (False, S k));
          (ds, S') = streak_run n ops (S(k := s))
      in (d # ds, S'))"
| "streak_run n (op1 # ops) S = streak_run n ops S"

definition cache_streak :: "StreamCredentialsCache \<Rightarrow> int list \<Rightarrow> bool" where
  "cache_streak c s \<longleftrightarrow> errorCount c = of_nat (length s) \<and> length s < 3 \<and> lastErrorTime c = (if s = [] then 0 else last s)"

definition cache_at :: "cred_state \<Rightarrow> int \<Rightarrow> StreamCredentialsCache" where
  "cache_at st k = (case caches st k of Some c \<Rightarrow> c | None \<Rightarrow> new_cache)"

definition streaks :: "cred_state \<Rightarrow> (int \<Rightarrow> int list) \<Rightarrow> bool" where
  "streaks st S \<longleftrightarrow> (\<forall>k. cache_streak (cache_at st k) (S k))"

fun noted :: "cred_out \<Rightarrow> bool option" where
  "noted (Noted d) = Some d"
| "noted _ = None"

lemma auth_error_refines:
  assumes "cache_streak c s"
  shows "fst (auth_error t c) = fst (streak_error t s) \<and> cache_streak (snd (auth_error t c)) (snd (streak_error t s))"
proof -
  have small: "sint (1 :: 32 word) = 1" "sint (2 :: 32 word) = 2" "sint (3 :: 32 word) = 3" by simp_all
  consider "s = []" | x where "s = [x]" | x y where "s = [x, y]"
    using assms by (cases s rule: remdups_adj.cases) (auto simp: cache_streak_def)
  then show ?thesis
    using assms small
    by cases (auto simp: cache_streak_def auth_error_def streak_error_def invalidate_def Let_def errorWindow_def maxCacheErrors_def)
qed

lemma cache_at_stream: "getStreamCache st i = cache_at st (getCacheID st i)"
  by (simp add: getStreamCache_def cache_at_def)

lemma streaks_put: "streaks st S \<Longrightarrow> cache_streak c s \<Longrightarrow> streaks (put_cache i c st) (S(getCacheID st i := s))"
  by (simp add: streaks_def cache_at_def put_cache_def)

lemma streaks_same: "streaks st S \<Longrightarrow> caches st' = caches st \<Longrightarrow> streaks st' S"
  by (simp add: streaks_def cache_at_def)

lemma cached_or_fetch_streaks:
  assumes "streaks st S" "cached_or_fetch now env link i st = (r, st')"
  shows "streaks st' S \<and> streamsPerCache st' = streamsPerCache st"
proof -
  obtain r1 finish st1 where se: "fetchVkCredsSerialized now env link i st = (r1, finish, st1)" by (metis surj_pair)
  have st1: "streaks st1 S" "streamsPerCache st1 = streamsPerCache st"
    using serialized_log [OF se] streaks_same [OF assms(1)] by auto
  have "cache_streak (getStreamCache st1 i\<lparr>creds := c\<rparr>) (S (getCacheID st1 i))" for c
    using st1(1) by (simp add: cache_at_stream streaks_def cache_streak_def)
  from streaks_put [OF st1(1) this, of i] have "streaks (put_cache i (getStreamCache st1 i\<lparr>creds := c\<rparr>) st1) S" for c
    by simp
  with assms se st1 show ?thesis
    by (cases "cached now link (getStreamCache st i)"; cases r1) (auto simp: cached_or_fetch_def split: prod.split_asm)
qed

lemma alloc_streaks:
  assumes "streaks st S" "recordTURNAllocationResult now i err st = (d, st')" "k = getCacheID st i"
    and "(if err = None then (False, []) else if isAuthError err then streak_error (now div ns_per_s) (S k) else (False, S k)) = (d', s)"
  shows "d = d' \<and> streaks st' (S(k := s)) \<and> streamsPerCache st' = streamsPerCache st"
proof (cases "err \<noteq> None \<and> isAuthError err")
  case True
  obtain c where ae: "auth_error (now div ns_per_s) (getStreamCache st i) = (d, c)" "st' = put_cache i c (st\<lparr>cred_registry := gauge AuthFailed (cred_registry st)\<rparr>)"
    using assms(2) True
    by (auto simp: recordTURNAllocationResult_def handleAuthError_def getStreamCache_def getCacheID_def split: prod.split_asm)
  have "cache_streak (getStreamCache st i) (S k)" using assms(1,3) by (simp add: cache_at_stream streaks_def)
  from auth_error_refines [OF this, of "now div ns_per_s"] ae(1) True assms(4) have "d = d'" "cache_streak c s" by auto
  moreover have "streaks (st\<lparr>cred_registry := g\<rparr>) S" "getCacheID (st\<lparr>cred_registry := g\<rparr>) i = k" for g
    using assms(1,3) by (auto intro: streaks_same simp: getCacheID_def)
  ultimately show ?thesis using streaks_put unfolding ae(2) by (metis put_cache_simps(2) cred_state.select_convs(1) cred_state.surjective cred_state.update_convs(3))
next
  case False
  then show ?thesis
    using assms streaks_put [OF assms(1), of "getStreamCache st i\<lparr>errorCount := 0, lastErrorTime := 0\<rparr>" "[]" i]
    by (cases err) (auto simp: recordTURNAllocationResult_def cache_streak_def)
qed

lemma cred_run_streaks:
  assumes "streaks st S" "cred_run ops st = (outs, st')" "streak_run (streamsPerCache st) ops S = (ds, S')"
  shows "List.map_filter noted outs = ds \<and> streaks st' S'"
  using assms
proof (induction ops arbitrary: st S outs ds)
  case (Cons op1 ops)
  obtain out s where st: "cred_step op1 st = (out, s)" by fastforce
  obtain os where run: "cred_run ops s = (os, st')" "outs = out # os" using Cons.prems(2) st by (auto split: prod.split_asm)
  show ?case
  proof (cases op1)
    case (CredRead now link i)
    then show ?thesis using Cons st run by (auto simp: map_filter_simps split: option.split_asm)
  next
    case (CredFetch now env link i)
    obtain r where cf: "cached_or_fetch now env link i st = (r, s)" "noted out = None"
      using st CredFetch by (auto split: prod.split_asm sum.split_asm)
    with cached_or_fetch_streaks [OF Cons.prems(1) cf(1)] Cons.IH [of s S os ds] Cons.prems(3) run CredFetch
    show ?thesis by (simp add: map_filter_simps)
  next
    case (CredAllocation now i err)
    obtain d where al: "recordTURNAllocationResult now i err st = (d, s)" "out = Noted d"
      using st CredAllocation by (auto split: prod.split_asm)
    let ?k = "go_div i (streamsPerCache st)"
    have k: "?k = getCacheID st i" by (simp add: getCacheID_def)
    obtain d' x where sp: "(if err = None then (False, []) else if isAuthError err then streak_error (now div ns_per_s) (S ?k) else (False, S ?k)) = (d', x)"
      by (metis surj_pair)
    note al' = alloc_streaks [OF Cons.prems(1) al(1) k sp]
    obtain ds' where ds: "streak_run (streamsPerCache st) ops (S(?k := x)) = (ds', S')" "ds = d' # ds'"
      using Cons.prems(3) unfolding CredAllocation streak_run.simps Let_def sp by (auto split: prod.split_asm)
    have "streaks s (S(?k := x))" and ids: "streamsPerCache s = streamsPerCache st" and "d = d'" using al' by blast+
    from Cons.IH [OF this(1) run(1), unfolded ids, OF ds(1)] this(3) show ?thesis
      using run(2) ds(2) al(2) by (simp add: map_filter_simps)
  qed
qed (simp add: map_filter_simps)


end
