(* ===== verification/Client_Connections.thy ===== *)
theory Client_Connections
  imports Credentials Dtls_Auth Session_Auth Go_Net
begin

text \<open>
  \<open>src/client/main.go\<close>: one connection of the client, from TURN credentials to the authenticated DTLS session on the
  relay (\<open>createDTLSConnection\<close>), the KCP and smux session on top of it (\<open>createSmuxSession\<close>), the DTLS client of the
  plain UDP mode (\<open>dtlsFunc\<close>), and the packet bridges. The TURN, DTLS, KCP and smux libraries and the
  network are the record \<open>connect_env\<close>: which calls fail, which certificates the peer shows and what it answers. What is opened and
  closed is logged in order.
\<close>

section \<open>Parameters and outcomes\<close>

record turn_params =
  tp_host :: string
  tp_port :: string
  tp_link :: string
  tp_authentication :: ClientAuthentication
  tp_token :: "string option"

datatype conn_error =
    ErrCreds string | ErrParseTurn | ErrResolveTurn | ErrDialTurn | ErrTurnClient | ErrTurnListen | ErrAllocate string
  | ErrCertificate | ErrDTLSConfig dtls_error | ErrDTLSClient | ErrHandshake | ErrClientAuth auth_error | ErrKCP | ErrSmux
  | ErrContext

datatype resource = TurnSocket | TurnClient | RelayConn | DtlsConn | StreamCounter | KcpSession | SmuxSession

record connect_env =
  ce_now :: int
  ce_fetch :: fetch_env
  ce_resolves :: "string \<Rightarrow> bool"
  ce_dial_ok :: bool
  ce_client_ok :: bool
  ce_listen_ok :: bool
  ce_allocate :: "string option"
  ce_allocate_now :: int
  ce_crypto :: crypto
  ce_chain_ok :: "string list \<Rightarrow> bool"
  ce_dtls_ok :: bool
  ce_handshake_ok :: bool
  ce_peer :: "string list"
  ce_conn :: conn_io
  ce_kcp_ok :: bool
  ce_smux_ok :: bool

record conn_log =
  conn_opened :: "resource list"
  conn_closed :: "resource list"

section \<open>Setting up a connection\<close>

text \<open>The address of the TURN server: the one of the credentials, with host and port overridden by the flags.\<close>

definition turn_address :: "turn_params \<Rightarrow> string \<Rightarrow> string option" where
  "turn_address tp rawURL =
     (case SplitHostPort rawURL of
        None \<Rightarrow> None
      | Some (urlhost, urlport) \<Rightarrow>
          Some (JoinHostPort (if tp_host tp \<noteq> [] then tp_host tp else urlhost) (if tp_port tp \<noteq> [] then tp_port tp else urlport)))"

text \<open>Steps 1 to 3: credentials, TURN client and allocation; the error, the clean-up functions so far, the caches.\<close>

definition turn_stage :: "turn_params \<Rightarrow> connect_env \<Rightarrow> int \<Rightarrow> cred_state \<Rightarrow> conn_error option \<times> resource list \<times> cred_state" where
  "turn_stage tp env i st =
     (case getVkCredsCached (ce_now env) (ce_fetch env) (tp_link tp) i st of
        (Inl e, st1) \<Rightarrow> (Some (ErrCreds e), [], st1)
      | (Inr (user, pass, rawURL), st1) \<Rightarrow>
          (case turn_address tp rawURL of
             None \<Rightarrow> (Some ErrParseTurn, [], st1)
           | Some turnServerAddr \<Rightarrow>
               if \<not> ce_resolves env turnServerAddr then (Some ErrResolveTurn, [], st1)
               else if \<not> ce_dial_ok env then (Some ErrDialTurn, [], st1)
               else if \<not> ce_client_ok env then (Some ErrTurnClient, [TurnSocket], st1)
               else if \<not> ce_listen_ok env then (Some ErrTurnListen, [TurnSocket, TurnClient], st1)
               else let (_, st2) = recordTURNAllocationResult (ce_allocate_now env) i (ce_allocate env) st1 in
                 case ce_allocate env of
                   Some e \<Rightarrow> (Some (ErrAllocate e), [TurnSocket, TurnClient], st2)
                 | None \<Rightarrow> (None, [TurnSocket, TurnClient, RelayConn], st2)))"

text \<open>Handshake and authentication on a created DTLS client.\<close>

definition secure_session :: "turn_params \<Rightarrow> connect_env \<Rightarrow> client_option list \<Rightarrow> conn_error option" where
  "secure_session tp env opts =
     (if \<not> (ce_handshake_ok env \<and> peer_accepted (ce_crypto env) (ce_chain_ok env) opts (ce_peer env)) then Some ErrHandshake
      else case tp_token tp of
        None \<Rightarrow> None
      | Some token \<Rightarrow> map_option ErrClientAuth (fst (Authenticate (ce_conn env) token)))"

text \<open>Step 4: the error and whether a DTLS connection was created.\<close>

definition dtls_stage :: "turn_params \<Rightarrow> connect_env \<Rightarrow> conn_error option \<times> bool" where
  "dtls_stage tp env =
     (case GenerateSelfSigned (ce_crypto env) of
        None \<Rightarrow> (Some ErrCertificate, False)
      | Some cert \<Rightarrow>
          (case clientDTLSOptions cert (tp_authentication tp) of
             Inl e \<Rightarrow> (Some (ErrDTLSConfig e), False)
           | Inr options \<Rightarrow>
               if \<not> ce_dtls_ok env then (Some ErrDTLSClient, False) else (secure_session tp env options, True)))"

text \<open>The clean-up functions of the connection, or the error; what was opened and closed; the caches; the change of \<open>connectedStreams\<close>.\<close>

definition createDTLSConnection ::
  "turn_params \<Rightarrow> connect_env \<Rightarrow> int \<Rightarrow> cred_state \<Rightarrow> (conn_error + resource list) \<times> conn_log \<times> cred_state" where
  "createDTLSConnection tp env i st =
     (case turn_stage tp env i st of
        (Some e, fns, st') \<Rightarrow> (Inl e, \<lparr>conn_opened = fns, conn_closed = rev fns\<rparr>, st')
      | (None, fns, st') \<Rightarrow>
          (case dtls_stage tp env of
             (Some e, created) \<Rightarrow>
               (let d = (if created then [DtlsConn] else [])
                in (Inl e, \<lparr>conn_opened = fns @ d, conn_closed = d @ rev fns\<rparr>, st'))
           | (None, _) \<Rightarrow>
               (let fns' = fns @ [DtlsConn, StreamCounter] in (Inr fns', \<lparr>conn_opened = fns', conn_closed = []\<rparr>, st'))))"

text \<open>The clean-up function: under its \<open>sync.Once\<close>, everything in reverse order.\<close>

record cleanup_fn =
  cleanup_ran :: bool
  cleanup_fns :: "resource list"

definition run_cleanup :: "cleanup_fn \<Rightarrow> conn_log \<Rightarrow> cleanup_fn \<times> conn_log" where
  "run_cleanup c l =
     (if cleanup_ran c then (c, l)
      else (c\<lparr>cleanup_ran := True\<rparr>, l\<lparr>conn_closed := conn_closed l @ rev (cleanup_fns c)\<rparr>))"

definition createSmuxSession ::
  "turn_params \<Rightarrow> connect_env \<Rightarrow> int \<Rightarrow> cred_state \<Rightarrow> (conn_error + resource list) \<times> conn_log \<times> cred_state" where
  "createSmuxSession tp env i st =
     (case createDTLSConnection tp env i st of
        (Inl e, l, st') \<Rightarrow> (Inl e, l, st')
      | (Inr fns, l, st') \<Rightarrow>
          if \<not> ce_kcp_ok env then (Inl ErrKCP, l\<lparr>conn_closed := conn_closed l @ rev fns\<rparr>, st')
          else if \<not> ce_smux_ok env then
            (Inl ErrSmux, l\<lparr>conn_opened := conn_opened l @ [KcpSession], conn_closed := conn_closed l @ KcpSession # rev fns\<rparr>, st')
          else (Inr (fns @ [KcpSession, SmuxSession]), l\<lparr>conn_opened := conn_opened l @ [KcpSession, SmuxSession]\<rparr>, st'))"

text \<open>Its clean-up function: smux and KCP each time, the connection below under its \<open>sync.Once\<close>.\<close>

definition cleanupAll :: "cleanup_fn \<times> conn_log \<Rightarrow> cleanup_fn \<times> conn_log" where
  "cleanupAll x = (case x of (c, l) \<Rightarrow> run_cleanup c (l\<lparr>conn_closed := conn_closed l @ [SmuxSession, KcpSession]\<rparr>))"

section \<open>The DTLS client of the UDP mode\<close>

text \<open>With the number of handshakes under way (the semaphore holds three), whether the context ends while waiting for a place, and
  the number while this handshake runs.\<close>

definition handshakeSem_size :: nat where "handshakeSem_size = 3"

definition dtlsFunc :: "turn_params \<Rightarrow> connect_env \<Rightarrow> bool \<Rightarrow> nat \<Rightarrow> (conn_error option \<times> conn_log \<times> nat) option" where
  "dtlsFunc tp env ctx_ends running =
     (case GenerateSelfSigned (ce_crypto env) of
        None \<Rightarrow> Some (Some ErrCertificate, \<lparr>conn_opened = [], conn_closed = []\<rparr>, running)
      | Some cert \<Rightarrow>
          (case clientDTLSOptions cert (tp_authentication tp) of
             Inl e \<Rightarrow> Some (Some (ErrDTLSConfig e), \<lparr>conn_opened = [], conn_closed = []\<rparr>, running)
           | Inr options \<Rightarrow>
               if running < handshakeSem_size then
                 if \<not> ce_dtls_ok env then Some (Some ErrDTLSClient, \<lparr>conn_opened = [], conn_closed = []\<rparr>, running + 1)
                 else case secure_session tp env options of
                   Some e \<Rightarrow> Some (Some e, \<lparr>conn_opened = [DtlsConn], conn_closed = [DtlsConn]\<rparr>, running + 1)
                 | None \<Rightarrow> Some (None, \<lparr>conn_opened = [DtlsConn], conn_closed = []\<rparr>, running + 1)
               else if ctx_ends then Some (Some ErrContext, \<lparr>conn_opened = [], conn_closed = []\<rparr>, running)
               else None))"

section \<open>The bridge between a TURN allocation and the DTLS pipe\<close>

text \<open>Packets read from the DTLS pipe with the address they came from, and from the relay; writes may fail.\<close>

datatype bridge_event = PipePacket string "string option" bool | RelayPacket string bool | PipeReadFails | RelayReadFails

record bridge =
  internalPipeAddr :: "string option"
  to_relay :: "string list"
  to_pipe :: "(string \<times> string) list"
  bridge_done :: bool

definition bridge_buffer :: nat where "bridge_buffer = 2048"

definition bridge_step :: "bridge_event \<Rightarrow> bridge \<Rightarrow> bridge" where
  "bridge_step ev b =
     (if bridge_done b then b
      else case ev of
        PipeReadFails \<Rightarrow> b\<lparr>bridge_done := True\<rparr>
      | RelayReadFails \<Rightarrow> b\<lparr>bridge_done := True\<rparr>
      | PipePacket p addr ok \<Rightarrow>
          b\<lparr>internalPipeAddr := (case addr of None \<Rightarrow> internalPipeAddr b | Some a \<Rightarrow> Some a),
            to_relay := to_relay b @ [take bridge_buffer p], bridge_done := \<not> ok\<rparr>
      | RelayPacket p ok \<Rightarrow>
          (case internalPipeAddr b of
             None \<Rightarrow> b
           | Some a \<Rightarrow> b\<lparr>to_pipe := to_pipe b @ [(a, take bridge_buffer p)], bridge_done := \<not> ok\<rparr>))"

definition bridgeTURNPackets :: "bridge_event list \<Rightarrow> bridge" where
  "bridgeTURNPackets evs = fold bridge_step evs \<lparr>internalPipeAddr = None, to_relay = [], to_pipe = [], bridge_done = False\<rparr>"

section \<open>Nothing leaks and nothing unauthenticated is used\<close>

lemma turn_stage_fns:
  "turn_stage tp env i st = (None, fns, st') \<Longrightarrow> fns = [TurnSocket, TurnClient, RelayConn] \<and> ce_allocate env = None"
  "turn_stage tp env i st = (Some e, fns, st') \<Longrightarrow> \<exists>m. fns = take m [TurnSocket, TurnClient]"
  by (auto simp: turn_stage_def Let_def take_Cons' split: sum.split_asm prod.split_asm option.split_asm if_split_asm
      intro: exI [of _ 0] exI [of _ "1"] exI [of _ "2"])

text \<open>The peer's certificate has the pinned digest or the insecure switch was given, and the server has accepted the token.\<close>

definition secured :: "turn_params \<Rightarrow> connect_env \<Rightarrow> bool" where
  "secured tp env \<longleftrightarrow>
     (auth_mode (tp_authentication tp) = authenticationInsecure \<or>
      auth_mode (tp_authentication tp) = authenticationPinned \<and>
        verifyRawCertificateFingerprint (ce_crypto env) (expected_pin (tp_authentication tp)) (ce_peer env) = None) \<and>
     (\<forall>token. tp_token tp = Some token \<longrightarrow> fst (Authenticate (ce_conn env) token) = None)"

lemma secure_session_secured:
  assumes "clientDTLSOptions cert (tp_authentication tp) = Inr opts" "secure_session tp env opts = None"
  shows "secured tp env"
  using assms
  by (auto simp: secured_def secure_session_def clientDTLSOptions_def Options_def peer_accepted_def
      split: authenticationMode.split_asm sum.split_asm if_split_asm option.split_asm)

lemma dtls_stage_secured: "dtls_stage tp env = (None, created) \<Longrightarrow> secured tp env"
  using secure_session_secured
  by (auto simp: dtls_stage_def split: option.split_asm sum.split_asm if_split_asm)

lemma createDTLS_cases:
  assumes "createDTLSConnection tp env i st = (r, l, st')"
  shows "case r of
      Inl e \<Rightarrow> conn_closed l = rev (conn_opened l) \<and> distinct (conn_opened l)
    | Inr fns \<Rightarrow> fns = [TurnSocket, TurnClient, RelayConn, DtlsConn, StreamCounter] \<and> conn_opened l = fns \<and> conn_closed l = [] \<and>
        secured tp env"
proof -
  obtain te fns st1 where ts: "turn_stage tp env i st = (te, fns, st1)" by (metis surj_pair)
  show ?thesis
  proof (cases te)
    case None
    with turn_stage_fns(1) ts have fns: "fns = [TurnSocket, TurnClient, RelayConn]" by blast
    obtain de created where ds: "dtls_stage tp env = (de, created)" by fastforce
    with dtls_stage_secured [of tp env created] show ?thesis
      using assms ts None fns by (cases de) (auto simp: createDTLSConnection_def Let_def)
  next
    case (Some e)
    with turn_stage_fns(2) ts obtain m where "fns = take m [TurnSocket, TurnClient]" by blast
    then have "distinct fns" by (metis distinct_take distinct_length_2_or_more distinct_singleton resource.distinct(1))
    with assms ts Some show ?thesis by (auto simp: createDTLSConnection_def)
  qed
qed

lemma cleanup_once:
  "((\<lambda>(c, l). run_cleanup c l) ^^ Suc n) (\<lparr>cleanup_ran = False, cleanup_fns = fns\<rparr>, l) =
     (\<lparr>cleanup_ran = True, cleanup_fns = fns\<rparr>, l\<lparr>conn_closed := conn_closed l @ rev fns\<rparr>)"
  by (induction n) (simp_all add: run_cleanup_def)

lemma cleanupAll_once:
  "(cleanupAll ^^ Suc n) (\<lparr>cleanup_ran = False, cleanup_fns = fns\<rparr>, l) =
     (\<lparr>cleanup_ran = True, cleanup_fns = fns\<rparr>,
      l\<lparr>conn_closed := conn_closed l @ [SmuxSession, KcpSession] @ rev fns @ concat (replicate n [SmuxSession, KcpSession])\<rparr>)"
proof (induction n)
  case (Suc n)
  let ?c = "\<lparr>cleanup_ran = True, cleanup_fns = fns\<rparr>"
  have again: "cleanupAll (?c, m) = (?c, m\<lparr>conn_closed := conn_closed m @ [SmuxSession, KcpSession]\<rparr>)" for m
    by (simp add: cleanupAll_def run_cleanup_def)
  have rep: "concat (replicate (Suc n) xs) = concat (replicate n xs) @ xs" for xs :: "resource list"
    using arg_cong [OF replicate_append_same [of n xs], of concat] by simp
  have "(cleanupAll ^^ Suc (Suc n)) (\<lparr>cleanup_ran = False, cleanup_fns = fns\<rparr>, l) =
      cleanupAll ((cleanupAll ^^ Suc n) (\<lparr>cleanup_ran = False, cleanup_fns = fns\<rparr>, l))" by simp
  then show ?case unfolding Suc again rep by simp
qed (simp add: cleanupAll_def run_cleanup_def)


definition example_turn :: turn_params where
  "example_turn = \<lparr>tp_host = [], tp_port = ''3478'', tp_link = ''L'',
     tp_authentication = \<lparr>auth_mode = authenticationPinned, expected_pin = Sum256 example_crypto ''der''\<rparr>, tp_token = Some ''k''\<rparr>"

definition example_connect :: connect_env where
  "example_connect = \<lparr>ce_now = 100, ce_fetch = example_fetch\<lparr>fe_chain := \<lambda>_. Inr (''u'', ''p'', ''10.0.0.7:19302'')\<rparr>,
     ce_resolves = (\<lambda>a. a = ''10.0.0.7:3478''), ce_dial_ok = True, ce_client_ok = True, ce_listen_ok = True, ce_allocate = None,
     ce_allocate_now = 200, ce_crypto = example_crypto\<lparr>GenerateSelfSigned := Some \<lparr>cert_chain = [], cert_key = [], cert_leaf = None\<rparr>\<rparr>,
     ce_chain_ok = (\<lambda>_. False), ce_dtls_ok = True, ce_handshake_ok = True, ce_peer = [''der''], ce_conn = datagram_conn authOK,
     ce_kcp_ok = True, ce_smux_ok = True\<rparr>"


section \<open>The bridge\<close>

text \<open>Nothing goes to the DTLS pipe before its first packet has shown its address, and afterwards everything that fits the buffer is delivered to
  the address seen last.\<close>

lemma bridge_learns_address:
  "list_all (\<lambda>ev. case ev of PipePacket _ _ _ \<Rightarrow> False | _ \<Rightarrow> True) evs \<Longrightarrow>
     to_pipe (bridgeTURNPackets evs) = [] \<and> internalPipeAddr (bridgeTURNPackets evs) = None"
proof -
  have "list_all (\<lambda>ev. case ev of PipePacket _ _ _ \<Rightarrow> False | _ \<Rightarrow> True) evs \<Longrightarrow> internalPipeAddr b = None \<Longrightarrow>
      to_pipe (fold bridge_step evs b) = to_pipe b \<and> internalPipeAddr (fold bridge_step evs b) = None" for b
    by (induction evs arbitrary: b) (auto simp: bridge_step_def split: bridge_event.split_asm)
  then show "list_all (\<lambda>ev. case ev of PipePacket _ _ _ \<Rightarrow> False | _ \<Rightarrow> True) evs \<Longrightarrow>
     to_pipe (bridgeTURNPackets evs) = [] \<and> internalPipeAddr (bridgeTURNPackets evs) = None"
    by (simp add: bridgeTURNPackets_def)
qed

lemma bridge_delivers:
  assumes "list_all (\<lambda>p. length p \<le> bridge_buffer) (p # ps)"
  shows "bridgeTURNPackets (PipePacket p (Some a) True # map (\<lambda>q. RelayPacket q True) ps) =
    \<lparr>internalPipeAddr = Some a, to_relay = [p], to_pipe = map (\<lambda>q. (a, q)) ps, bridge_done = False\<rparr>"
proof -
  have "list_all (\<lambda>p. length p \<le> bridge_buffer) ps \<Longrightarrow>
      fold bridge_step (map (\<lambda>q. RelayPacket q True) ps) \<lparr>internalPipeAddr = Some a, to_relay = rs, to_pipe = xs, bridge_done = False\<rparr> =
      \<lparr>internalPipeAddr = Some a, to_relay = rs, to_pipe = xs @ map (\<lambda>q. (a, q)) ps, bridge_done = False\<rparr>" for rs xs
    by (induction ps arbitrary: xs) (simp_all add: bridge_step_def)
  then show ?thesis using assms by (simp add: bridgeTURNPackets_def bridge_step_def)
qed

end
