(* ===== verification/Session_Pool.thy ===== *)
theory Session_Pool
  imports Metrics_Registry
begin

text \<open>
  The smux session pool of \<open>src/client/main.go\<close>: which session a new TCP connection tries, in which order,
  and for how long. A session is the index of its object. What the smux library answers, how long it
  takes and which sessions are in the pool at each round are the environment's; times are nanoseconds.
\<close>

section \<open>The pool\<close>

record sessionPool =
  pool_sessions :: "nat list"
  pool_counter :: u64
  pool_registry :: registry

definition pool_add :: "nat \<Rightarrow> sessionPool \<Rightarrow> sessionPool" where
  "pool_add s p = p\<lparr>pool_sessions := pool_sessions p @ [s], pool_registry := gauge SessionOpened (pool_registry p)\<rparr>"

fun remove_first :: "nat \<Rightarrow> nat list \<Rightarrow> nat list option" where
  "remove_first s [] = None"
| "remove_first s (x # xs) = (if x = s then Some xs else map_option ((#) x) (remove_first s xs))"

definition pool_remove :: "nat \<Rightarrow> sessionPool \<Rightarrow> sessionPool" where
  "pool_remove s p =
     (case remove_first s (pool_sessions p) of
        None \<Rightarrow> p
      | Some xs \<Rightarrow> p\<lparr>pool_sessions := xs, pool_registry := gauge SessionClosed (pool_registry p)\<rparr>)"

definition pool_count :: "sessionPool \<Rightarrow> nat" where
  "pool_count p = length (pool_sessions p)"

text \<open>The loop over the pool, from \<open>start\<close> on; \<open>sort.SliceStable\<close> by load.\<close>

definition candidates :: "(nat \<Rightarrow> bool) \<Rightarrow> (nat \<Rightarrow> int) \<Rightarrow> sessionPool \<Rightarrow> nat list \<times> sessionPool" where
  "candidates IsClosed NumStreams p =
     (let n = length (pool_sessions p) in
      if n = 0 then ([], p)
      else let counter = pool_counter p + 1;
               start = unat counter mod n;
               cs = filter (\<lambda>s. \<not> IsClosed s) (map (\<lambda>i. pool_sessions p ! ((start + i) mod n)) [0..<n])
           in (sort_key NumStreams cs, p\<lparr>pool_counter := counter\<rparr>))"

section \<open>Opening a stream\<close>

datatype open_error = OpenFailedWith nat | OpenCtxDone | OpenTimedOut

text \<open>What the goroutine, the context and the timer of \<open>openPooledStream\<close> decide, and whether it closes the session.\<close>

definition openPooledStream :: "open_error + nat \<Rightarrow> (open_error + nat) \<times> bool" where
  "openPooledStream outcome =
     (case outcome of
        Inr stream \<Rightarrow> (Inr stream, False)
      | Inl (OpenFailedWith e) \<Rightarrow> (Inl (OpenFailedWith e), False)
      | Inl OpenCtxDone \<Rightarrow> (Inl OpenCtxDone, True)
      | Inl OpenTimedOut \<Rightarrow> (Inl OpenTimedOut, True))"

record pool_env =
  round_pool :: "nat \<Rightarrow> sessionPool"
  round_closed :: "nat \<Rightarrow> nat \<Rightarrow> bool"
  round_load :: "nat \<Rightarrow> nat \<Rightarrow> int"
  attempt_outcome :: "nat \<Rightarrow> nat \<Rightarrow> int \<Rightarrow> open_error + nat"
  attempt_time :: "nat \<Rightarrow> nat \<Rightarrow> int \<Rightarrow> int"
  sleep_cancelled :: "nat \<Rightarrow> bool"
  sleep_time :: "nat \<Rightarrow> int \<Rightarrow> int"

datatype pool_error = BadWait | BadAttempt | AllRejected open_error | NoActiveSessions | PoolCtxDone

record open_attempt =
  at_round :: nat
  at_session :: nat
  at_timeout :: int
  at_result :: "open_error + nat"
  at_closed :: bool

record open_state =
  op_now :: int
  op_lastErr :: "open_error option"
  op_log :: "open_attempt list"

text \<open>The inner loop: the stream, if a candidate gave one, and the state.\<close>

fun try_candidates :: "pool_env \<Rightarrow> nat \<Rightarrow> int \<Rightarrow> int \<Rightarrow> nat list \<Rightarrow> open_state \<Rightarrow> nat option \<times> open_state" where
  "try_candidates env r deadline maxAttempt [] st = (None, st)"
| "try_candidates env r deadline maxAttempt (s # ss) st =
     (let remaining = deadline - op_now st in
      if remaining \<le> 0 then (None, st)
      else let timeout = (if remaining < maxAttempt then remaining else maxAttempt);
               (result, closed) = openPooledStream (attempt_outcome env r s timeout);
               st' = st\<lparr>op_now := op_now st + attempt_time env r s timeout,
                        op_log := op_log st @ [\<lparr>at_round = r, at_session = s, at_timeout = timeout, at_result = result, at_closed = closed\<rparr>]\<rparr>
           in case result of
                Inr stream \<Rightarrow> (Some stream, st')
              | Inl e \<Rightarrow> try_candidates env r deadline maxAttempt ss (st'\<lparr>op_lastErr := Some e\<rparr>))"

definition poll_interval :: int where "poll_interval = 25 * 1000000"

fun open_rounds :: "nat \<Rightarrow> pool_env \<Rightarrow> nat \<Rightarrow> int \<Rightarrow> int \<Rightarrow> open_state \<Rightarrow> ((pool_error + nat) \<times> open_state) option" where
  "open_rounds 0 env r deadline maxAttempt st = None"
| "open_rounds (Suc fuel) env r deadline maxAttempt st =
     (case try_candidates env r deadline maxAttempt (fst (candidates (round_closed env r) (round_load env r) (round_pool env r))) st of
        (Some stream, st') \<Rightarrow> Some (Inr stream, st')
      | (None, st') \<Rightarrow>
          let remaining = deadline - op_now st' in
          if remaining \<le> 0 then
            Some (Inl (case op_lastErr st' of Some e \<Rightarrow> AllRejected e | None \<Rightarrow> NoActiveSessions), st')
          else let poll = (if remaining < poll_interval then remaining else poll_interval);
                   st'' = st'\<lparr>op_now := op_now st' + sleep_time env r poll\<rparr>
               in if sleep_cancelled env r then Some (Inl PoolCtxDone, st'')
                  else open_rounds fuel env (Suc r) deadline maxAttempt st'')"

definition openStreamWithAttemptTimeout ::
  "nat \<Rightarrow> pool_env \<Rightarrow> int \<Rightarrow> int \<Rightarrow> int \<Rightarrow> ((pool_error + nat) \<times> open_state) option" where
  "openStreamWithAttemptTimeout fuel env start wait maxAttempt =
     (let st = \<lparr>op_now = start, op_lastErr = None, op_log = []\<rparr> in
      if wait \<le> 0 then Some (Inl BadWait, st)
      else if maxAttempt \<le> 0 then Some (Inl BadAttempt, st)
      else open_rounds fuel env 0 (start + wait) maxAttempt st)"

definition openStream :: "nat \<Rightarrow> pool_env \<Rightarrow> int \<Rightarrow> int \<Rightarrow> ((pool_error + nat) \<times> open_state) option" where
  "openStream fuel env start wait = openStreamWithAttemptTimeout fuel env start wait 1000000000"

section \<open>The order of the candidates\<close>

lemma remove_first_spec:
  "remove_first s xs = (if s \<in> set xs then Some (remove1 s xs) else None)"
  by (induction xs) auto

lemma pool_gauge:
  "activeSessions (pool_registry (pool_add s p)) = activeSessions (pool_registry p) + 1"
  "activeSessions (pool_registry (pool_remove s p)) = activeSessions (pool_registry p) - (if s \<in> set (pool_sessions p) then 1 else 0)"
  "pool_sessions (pool_remove s (pool_add s p)) = (if s \<in> set (pool_sessions p) then remove1 s (pool_sessions p) @ [s] else pool_sessions p)"
  by (auto simp: pool_add_def pool_remove_def remove_first_spec remove1_append)

lemma mset_rotate: "mset (rotate n xs) = mset xs"
  by (metis append_take_drop_id mset_append rotate_drop_take union_commute)

lemma walk_is_rotation:
  "xs \<noteq> [] \<Longrightarrow> map (\<lambda>i. xs ! ((start + i) mod length xs)) [0..<length xs] = rotate start xs"
  by (rule nth_equalityI) (simp_all add: nth_rotate)

text \<open>
  C22. The candidates of a new connection are exactly the sessions of the pool that are not closed,
  in order of load; sessions of equal load are in the pool's order rotated by the
  counter, which advances with each call. So the index loop and the stable sort are the
  least-loaded order with round-robin ties, and no open session is left out or tried twice.
\<close>

theorem candidates_order:
  "let (cs, p') = candidates IsClosed NumStreams p;
       open_sessions = filter (\<lambda>s. \<not> IsClosed s) (rotate (unat (pool_counter p')) (pool_sessions p)) in
    cs = sort_key NumStreams open_sessions \<and> mset cs = filter_mset (\<lambda>s. \<not> IsClosed s) (mset (pool_sessions p)) \<and>
    sorted (map NumStreams cs) \<and>
    (\<forall>k. filter (\<lambda>s. NumStreams s = k) cs = filter (\<lambda>s. NumStreams s = k) open_sessions) \<and>
    (pool_sessions p = [] \<or> pool_counter p' = pool_counter p + 1)"
proof (cases "pool_sessions p = []")
  case True
  then show ?thesis by (simp add: candidates_def)
next
  case False
  let ?c = "pool_counter p + 1" and ?n = "length (pool_sessions p)"
  let ?o = "filter (\<lambda>s. \<not> IsClosed s) (rotate (unat ?c) (pool_sessions p))"
  have rot: "map (\<lambda>i. pool_sessions p ! ((unat ?c mod ?n + i) mod ?n)) [0..<?n] = rotate (unat ?c) (pool_sessions p)"
    using walk_is_rotation [OF False, of "unat ?c mod ?n"] by (metis rotate_conv_mod)
  have c: "candidates IsClosed NumStreams p = (sort_key NumStreams ?o, p\<lparr>pool_counter := ?c\<rparr>)"
    using False by (simp add: candidates_def Let_def rot)
  have stable: "filter (\<lambda>s. NumStreams s = k) (sort_key NumStreams ?o) = filter (\<lambda>s. NumStreams s = k) ?o" for k
    using sort_key_stable [of NumStreams k ?o] .
  show ?thesis
    unfolding c using stable by (simp add: mset_rotate)
qed

section \<open>Opening is bounded\<close>

text \<open>What the timers promise: an attempt takes no negative time, and a poll is never shorter than its timer.\<close>

definition timers_ok :: "pool_env \<Rightarrow> bool" where
  "timers_ok env \<longleftrightarrow> (\<forall>r s t. 0 < t \<longrightarrow> 0 \<le> attempt_time env r s t) \<and> (\<forall>r t. sleep_cancelled env r \<or> t \<le> sleep_time env r t)"

text \<open>What they promise when nothing is late: attempts end by their timeout, polls on time.\<close>

definition timers_prompt :: "pool_env \<Rightarrow> bool" where
  "timers_prompt env \<longleftrightarrow> (\<forall>r s t. attempt_time env r s t \<le> t) \<and> (\<forall>r t. sleep_time env r t \<le> t)"

text \<open>An attempt as the code may make it: with a positive timeout within the limits, on a candidate of its round,
  and closing the session only when the attempt was cut off.\<close>

definition attempt_ok :: "pool_env \<Rightarrow> int \<Rightarrow> open_attempt \<Rightarrow> bool" where
  "attempt_ok env maxAttempt a \<longleftrightarrow>
     0 < at_timeout a \<and> at_timeout a \<le> maxAttempt \<and>
     at_session a \<in> set (pool_sessions (round_pool env (at_round a))) \<and> \<not> round_closed env (at_round a) (at_session a) \<and>
     (at_closed a \<longleftrightarrow> at_result a = Inl OpenCtxDone \<or> at_result a = Inl OpenTimedOut)"

definition open_ok :: "pool_env \<Rightarrow> int \<Rightarrow> int \<Rightarrow> open_state \<Rightarrow> bool" where
  "open_ok env deadline maxAttempt st \<longleftrightarrow>
     list_all (attempt_ok env maxAttempt) (op_log st) \<and> (op_lastErr st = None \<longleftrightarrow> op_log st = []) \<and>
     list_all (\<lambda>a. isl (at_result a)) (op_log st) \<and>
     (timers_prompt env \<longrightarrow> op_now st \<le> deadline)"

lemma prompt_times:
  "timers_prompt env \<Longrightarrow> attempt_time env r s t \<le> t" "timers_prompt env \<Longrightarrow> sleep_time env r t \<le> t"
  by (simp_all add: timers_prompt_def)

lemma candidates_live:
  "s \<in> set (fst (candidates c l p)) \<Longrightarrow> s \<in> set (pool_sessions p) \<and> \<not> c s"
  by (auto simp: candidates_def Let_def split: if_split_asm)

lemma openPooledStream_closes:
  "openPooledStream o1 = (result, closed) \<Longrightarrow>
     result = o1 \<and> (closed \<longleftrightarrow> result = Inl OpenCtxDone \<or> result = Inl OpenTimedOut)"
  by (auto simp: openPooledStream_def split: sum.split_asm open_error.split_asm)

lemma try_candidates_spec:
  assumes "try_candidates env r deadline maxAttempt ss st = (res, st')" "0 < maxAttempt" "timers_ok env"
    and "open_ok env deadline maxAttempt st"
    and "\<And>s. s \<in> set ss \<Longrightarrow> s \<in> set (pool_sessions (round_pool env r)) \<and> \<not> round_closed env r s"
  shows "op_now st \<le> op_now st' \<and>
    (res = None \<longrightarrow> open_ok env deadline maxAttempt st') \<and>
    (\<forall>x. res = Some x \<longrightarrow> list_all (attempt_ok env maxAttempt) (op_log st') \<and> op_log st' \<noteq> [] \<and> at_result (last (op_log st')) = Inr x \<and>
       (timers_prompt env \<longrightarrow> op_now st' \<le> deadline))"
  using assms(1,4,5)
proof (induction ss arbitrary: st)
  case (Cons s ss)
  show ?case
  proof (cases "deadline - op_now st \<le> 0")
    case True
    then show ?thesis using Cons.prems by simp
  next
    case False
    define t where "t = (if deadline - op_now st < maxAttempt then deadline - op_now st else maxAttempt)"
    have t: "0 < t" "t \<le> maxAttempt" "t \<le> deadline - op_now st" using False assms(2) by (auto simp: t_def)
    obtain result closed where op: "openPooledStream (attempt_outcome env r s t) = (result, closed)" by fastforce
    define a where "a = \<lparr>at_round = r, at_session = s, at_timeout = t, at_result = result, at_closed = closed\<rparr>"
    define st1 where "st1 = st\<lparr>op_now := op_now st + attempt_time env r s t, op_log := op_log st @ [a]\<rparr>"
    have ok: "attempt_ok env maxAttempt a"
      using t Cons.prems(3) [of s] openPooledStream_closes [OF op] by (auto simp: attempt_ok_def a_def)
    have adv: "op_now st \<le> op_now st1" using assms(3) t(1) by (simp add: timers_ok_def st1_def)
    have prompt: "timers_prompt env \<longrightarrow> op_now st1 \<le> deadline"
      using t(3) prompt_times(1) [of env r s t] by (auto simp: st1_def)
    have rec: "try_candidates env r deadline maxAttempt (s # ss) st =
        (case result of Inr x \<Rightarrow> (Some x, st1) | Inl e \<Rightarrow> try_candidates env r deadline maxAttempt ss (st1\<lparr>op_lastErr := Some e\<rparr>))"
      using False by (cases result) (simp_all add: t_def [symmetric] op a_def st1_def Let_def)
    show ?thesis
    proof (cases result)
      case (Inr x)
      then have "res = Some x" "st' = st1" using Cons.prems(1) unfolding rec by simp_all
      then show ?thesis
        using adv prompt ok Cons.prems(2) Inr by (simp add: st1_def open_ok_def a_def)
    next
      case (Inl e)
      have "open_ok env deadline maxAttempt (st1\<lparr>op_lastErr := Some e\<rparr>)"
        using Cons.prems(2) prompt ok Inl by (simp add: open_ok_def st1_def) (simp add: a_def)
      from Cons.IH [OF _ this Cons.prems(3)] show ?thesis
        using Cons.prems(1) Inl adv unfolding rec by fastforce
    qed
  qed
qed simp

definition open_answer_ok :: "pool_env \<Rightarrow> int \<Rightarrow> int \<Rightarrow> (pool_error + nat) \<times> open_state \<Rightarrow> bool" where
  "open_answer_ok env deadline maxAttempt answer \<longleftrightarrow>
     list_all (attempt_ok env maxAttempt) (op_log (snd answer)) \<and>
     (timers_prompt env \<longrightarrow> op_now (snd answer) \<le> deadline) \<and>
     (case fst answer of
        Inr x \<Rightarrow> op_log (snd answer) \<noteq> [] \<and> at_result (last (op_log (snd answer))) = Inr x
      | Inl PoolCtxDone \<Rightarrow> list_all (\<lambda>a. isl (at_result a)) (op_log (snd answer))
      | Inl e \<Rightarrow> deadline \<le> op_now (snd answer) \<and> list_all (\<lambda>a. isl (at_result a)) (op_log (snd answer)) \<and>
          (e = NoActiveSessions \<longleftrightarrow> op_log (snd answer) = []))"

lemma open_rounds_spec:
  assumes "timers_ok env" "0 < maxAttempt" "open_ok env deadline maxAttempt st"
    and "deadline - op_now st \<le> poll_interval * int fuel"
  shows "\<exists>answer. open_rounds (Suc fuel) env r deadline maxAttempt st = Some answer \<and> open_answer_ok env deadline maxAttempt answer"
  using assms(3,4)
proof (induction fuel arbitrary: st r)
  case (0 st r)
  obtain res st' where tr: "try_candidates env r deadline maxAttempt
      (fst (candidates (round_closed env r) (round_load env r) (round_pool env r))) st = (res, st')" by fastforce
  note spec = try_candidates_spec [OF tr assms(2,1) 0(1) candidates_live [of _ "round_closed env r" "round_load env r" "round_pool env r"]]
  then show ?case
    using 0(2) tr by (cases res) (auto simp: open_answer_ok_def open_ok_def Let_def split: option.split)
next
  case (Suc fuel st r)
  obtain res st' where tr: "try_candidates env r deadline maxAttempt
      (fst (candidates (round_closed env r) (round_load env r) (round_pool env r))) st = (res, st')" by fastforce
  note spec = try_candidates_spec [OF tr assms(2,1) Suc.prems(1) candidates_live [of _ "round_closed env r" "round_load env r" "round_pool env r"]]
  show ?case
  proof (cases "res = None \<and> 0 < deadline - op_now st'")
    case False
    then show ?thesis
      using tr spec by (cases res) (auto simp: open_answer_ok_def open_ok_def Let_def split: option.split)
  next
    case True
    define poll where "poll = (if deadline - op_now st' < poll_interval then deadline - op_now st' else poll_interval)"
    define st2 where "st2 = st'\<lparr>op_now := op_now st' + sleep_time env r poll\<rparr>"
    have ok: "open_ok env deadline maxAttempt st2"
      using spec True prompt_times(2) [of env r poll] by (auto simp: open_ok_def st2_def poll_def)
    have rec: "open_rounds (Suc (Suc fuel)) env r deadline maxAttempt st =
        (if sleep_cancelled env r then Some (Inl PoolCtxDone, st2) else open_rounds (Suc fuel) env (Suc r) deadline maxAttempt st2)"
      using tr True by (subst open_rounds.simps(2)) (simp add: Let_def poll_def st2_def del: open_rounds.simps)
    show ?thesis
    proof (cases "sleep_cancelled env r")
      case True
      then show ?thesis using rec ok by (simp add: open_answer_ok_def open_ok_def)
    next
      case False
      then have "poll \<le> sleep_time env r poll" using assms(1) by (auto simp: timers_ok_def)
      then have "deadline - op_now st2 \<le> poll_interval * int fuel"
        using Suc.prems(2) spec True by (auto simp: st2_def poll_def poll_interval_def split: if_split_asm)
      from Suc.IH [OF ok this, of "Suc r"] show ?thesis using rec False by simp
    qed
  qed
qed

text \<open>
  C23. Opening a stream is bounded and fair to the pool. With timers that never fire early the call returns, after at most one
  round more than there are poll intervals in the wait. A stream it returns comes from its last attempt. Every attempt is made on a session
  of the pool that was open when its round began, with a positive timeout of at most the attempt limit, and closes that
  session only if the attempt timed out or the context ended. A failure other than the context's is reported
  only once the wait is over and every attempt has failed, and as ``no active sessions'' exactly when there was none
  to try. If no timer is late, the call ends by its deadline.
\<close>

theorem open_stream_bounded:
  assumes "timers_ok env" "0 < wait" "0 < maxAttempt" "wait \<le> poll_interval * int fuel"
  shows "\<exists>answer st. openStreamWithAttemptTimeout (Suc fuel) env start wait maxAttempt = Some (answer, st) \<and>
    list_all (attempt_ok env maxAttempt) (op_log st) \<and> (timers_prompt env \<longrightarrow> op_now st \<le> start + wait) \<and>
    (case answer of
       Inr x \<Rightarrow> op_log st \<noteq> [] \<and> at_result (last (op_log st)) = Inr x
     | Inl PoolCtxDone \<Rightarrow> list_all (\<lambda>a. isl (at_result a)) (op_log st)
     | Inl e \<Rightarrow> start + wait \<le> op_now st \<and> list_all (\<lambda>a. isl (at_result a)) (op_log st) \<and> (e = NoActiveSessions \<longleftrightarrow> op_log st = []))"
proof -
  let ?st = "\<lparr>op_now = start, op_lastErr = None, op_log = []\<rparr>"
  have "open_ok env (start + wait) maxAttempt ?st" using assms(2) by (simp add: open_ok_def)
  from open_rounds_spec [OF assms(1,3) this, of fuel 0] assms(4) obtain answer where
    a: "open_rounds (Suc fuel) env 0 (start + wait) maxAttempt ?st = Some answer" "open_answer_ok env (start + wait) maxAttempt answer"
    by auto
  have "openStreamWithAttemptTimeout (Suc fuel) env start wait maxAttempt = Some (fst answer, snd answer)"
    using a(1) assms(2,3) by (simp add: openStreamWithAttemptTimeout_def Let_def del: open_rounds.simps)
  then show ?thesis using a(2) unfolding open_answer_ok_def by blast
qed

definition example_pool_env :: pool_env where
  "example_pool_env = \<lparr>round_pool = (\<lambda>_. \<lparr>pool_sessions = [4, 5, 6], pool_counter = 0, pool_registry = empty_registry None\<rparr>),
     round_closed = (\<lambda>_ s. s = 5), round_load = (\<lambda>_ s. if s = 4 then 9 else 1),
     attempt_outcome = (\<lambda>_ s _. if s = 4 then Inr 7 else Inl OpenTimedOut),
     attempt_time = (\<lambda>_ _ t. t), sleep_cancelled = (\<lambda>_. False), sleep_time = (\<lambda>_ t. t)\<rparr>"

theorem open_stream_bounded_witness:
  "\<exists>st. openStreamWithAttemptTimeout 2 example_pool_env 0 1000 600 = Some (Inr 7, st) \<and> op_now st = 1000 \<and>
     map at_session (op_log st) = [6, 4] \<and> map at_timeout (op_log st) = [600, 400] \<and> map at_closed (op_log st) = [True, False] \<and>
     list_all (attempt_ok example_pool_env 600) (op_log st)"
proof -
  have "timers_ok example_pool_env" by (simp add: timers_ok_def example_pool_env_def)
  moreover have "(1000 :: int) \<le> poll_interval * int 1" by (simp add: poll_interval_def)
  ultimately obtain answer st where r: "openStreamWithAttemptTimeout (Suc 1) example_pool_env 0 1000 600 = Some (answer, st)"
      "list_all (attempt_ok example_pool_env 600) (op_log st)"
    using open_stream_bounded [of example_pool_env 1000 600 1 0] by auto
  have "(case openStreamWithAttemptTimeout (Suc 1) example_pool_env 0 1000 600 of None \<Rightarrow> False
      | Some (answer, st) \<Rightarrow> answer = Inr 7 \<and> op_now st = 1000 \<and> map at_session (op_log st) = [6, 4] \<and>
          map at_timeout (op_log st) = [600, 400] \<and> map at_closed (op_log st) = [True, False])"
    by code_simp
  with r show ?thesis by (auto simp: numeral_2_eq_2)
qed

end
