(* ===== verification/Client_Loops.thy ===== *)
theory Client_Loops
  imports Client_Connections Session_Pool Bond_Supervisor
begin

text \<open>
  \<open>src/client/main.go\<close>: the loops that keep the client's sessions and paths alive: \<open>maintainVLESSSession\<close> for the session pool,
  \<open>maintainVLESSBondPath\<close> for the paths of a bond, \<open>oneTurnConnectionLoop\<close> and \<open>oneDtlsConnectionLoop\<close> for the UDP
  mode. A loop is a function of its rounds: what setting up gives and where the context ends.
\<close>

section \<open>Errors that end the application\<close>

definition client_auth_rejected :: "conn_error \<Rightarrow> bool" where
  "client_auth_rejected e \<longleftrightarrow> e = ErrClientAuth AuthRejected"

text \<open>The texts that come from outside are those of the credentials and the allocation.\<close>

definition fatal_captcha :: "conn_error \<Rightarrow> bool" where
  "fatal_captcha e = (case e of ErrCreds s \<Rightarrow> isFatalCaptchaError (Some s) | ErrAllocate s \<Rightarrow> isFatalCaptchaError (Some s) | _ \<Rightarrow> False)"

definition ends_application :: "conn_error \<Rightarrow> bool" where
  "ends_application e \<longleftrightarrow> client_auth_rejected e \<or> fatal_captcha e"

section \<open>Sessions of the pool\<close>

datatype session_event = SessUp nat | SessRemoved nat | SessCleaned nat

record sess_round =
  sr_ctx_top :: bool
  sr_env :: connect_env
  sr_session :: nat
  sr_retry_cancelled :: bool
  sr_ctx_ends :: bool
  sr_ctx_after :: bool
  sr_wait_cancelled :: bool

record maintainer =
  mt_creds :: cred_state
  mt_pool :: sessionPool
  mt_log :: "session_event list"
  app_cancelled :: bool

definition session_up :: "nat \<Rightarrow> maintainer \<Rightarrow> maintainer" where
  "session_up n s = s\<lparr>mt_pool := pool_add n (mt_pool s), mt_log := mt_log s @ [SessUp n]\<rparr>"

definition session_down :: "nat \<Rightarrow> maintainer \<Rightarrow> maintainer" where
  "session_down n s = s\<lparr>mt_pool := pool_remove n (mt_pool s), mt_log := mt_log s @ [SessRemoved n, SessCleaned n]\<rparr>"

text \<open>One round: whether the loop goes on, and the state.\<close>

definition session_round :: "turn_params \<Rightarrow> int \<Rightarrow> sess_round \<Rightarrow> maintainer \<Rightarrow> bool \<times> maintainer" where
  "session_round tp i r s =
     (if sr_ctx_top r then (False, s)
      else case createSmuxSession tp (sr_env r) i (mt_creds s) of
        (Inl e, _, st) \<Rightarrow>
          (let s' = s\<lparr>mt_creds := st\<rparr> in
           if ends_application e then (False, s'\<lparr>app_cancelled := True\<rparr>) else (\<not> sr_retry_cancelled r, s'))
      | (Inr _, _, st) \<Rightarrow>
          (let s' = session_down (sr_session r) (session_up (sr_session r) (s\<lparr>mt_creds := st\<rparr>)) in
           if sr_ctx_ends r \<or> sr_ctx_after r then (False, s')
           else (\<not> sr_wait_cancelled r,
                 s'\<lparr>mt_pool := (mt_pool s')\<lparr>pool_registry := gauge SessionReconnected (pool_registry (mt_pool s'))\<rparr>\<rparr>)))"

fun maintainVLESSSession :: "turn_params \<Rightarrow> int \<Rightarrow> sess_round list \<Rightarrow> maintainer \<Rightarrow> maintainer" where
  "maintainVLESSSession tp i [] s = s"
| "maintainVLESSSession tp i (r # rs) s =
     (let (more_rounds, s') = session_round tp i r s in if more_rounds then maintainVLESSSession tp i rs s' else s')"

section \<open>Paths of a bond\<close>

text \<open>A non-blocking send to the channel of set-up errors.\<close>

definition reportVLESSBondPathSetupError ::
  "nat \<Rightarrow> int \<Rightarrow> bond_error \<Rightarrow> (int \<times> bond_error) list \<Rightarrow> (int \<times> bond_error) list" where
  "reportVLESSBondPathSetupError capacity pathID err events =
     (if length events < capacity then events @ [(pathID, err)] else events)"

datatype path_event = PathDialled | PathCleaned | PathHanded | PathReported bond_error

record path_round =
  pr_ctx_top :: bool
  pr_env :: connect_env
  pr_retry_cancelled :: bool
  pr_ctx_dialled :: bool
  pr_ctx_ready :: bool
  pr_ctx_ends :: bool
  pr_ctx_after :: bool
  pr_wait_cancelled :: bool

record path_loop =
  pl_creds :: cred_state
  pl_events :: "(int \<times> bond_error) list"
  pl_registry :: registry
  pl_log :: "path_event list"
  pl_app_cancelled :: bool

definition path_log :: "path_event list \<Rightarrow> path_loop \<Rightarrow> path_loop" where
  "path_log evs s = s\<lparr>pl_log := pl_log s @ evs\<rparr>"

text \<open>The hello exchange on the new connection.\<close>

definition path_hello :: "BondHello \<Rightarrow> conn_io \<Rightarrow> bond_error option" where
  "path_hello hello conn =
     (case fst (WriteBondHelloConfig conn hello) of
        Some e \<Rightarrow> Some e
      | None \<Rightarrow> if Version hello = BondProtocolV2 then ReadBondHelloAck conn else None)"

definition bond_path_round :: "turn_params \<Rightarrow> int \<Rightarrow> BondHello \<Rightarrow> nat \<Rightarrow> path_round \<Rightarrow> path_loop \<Rightarrow> bool \<times> path_loop" where
  "bond_path_round tp i hello capacity r s =
     (if pr_ctx_top r then (False, s)
      else case createDTLSConnection tp (pr_env r) i (pl_creds s) of
        (Inl e, _, st) \<Rightarrow>
          (let s' = s\<lparr>pl_creds := st\<rparr> in
           if ends_application e then (False, s'\<lparr>pl_app_cancelled := True\<rparr>) else (\<not> pr_retry_cancelled r, s'))
      | (Inr _, _, st) \<Rightarrow>
          (let s' = s\<lparr>pl_creds := st\<rparr> in
           if pr_ctx_dialled r then (False, path_log [PathDialled, PathCleaned] s')
           else case path_hello hello (ce_conn (pr_env r)) of
             Some e \<Rightarrow>
               (\<not> pr_retry_cancelled r,
                path_log [PathDialled, PathReported e, PathCleaned]
                  (s'\<lparr>pl_events := reportVLESSBondPathSetupError capacity i e (pl_events s')\<rparr>))
           | None \<Rightarrow>
               if pr_ctx_ready r then (False, path_log [PathDialled, PathCleaned] s')
               else let s'' = path_log [PathDialled, PathHanded] s' in
                 if pr_ctx_ends r \<or> pr_ctx_after r then (False, s'')
                 else (\<not> pr_wait_cancelled r, s''\<lparr>pl_registry := gauge PathReconnected (pl_registry s'')\<rparr>)))"

fun maintainVLESSBondPath :: "turn_params \<Rightarrow> int \<Rightarrow> BondHello \<Rightarrow> nat \<Rightarrow> path_round list \<Rightarrow> path_loop \<Rightarrow> path_loop" where
  "maintainVLESSBondPath tp i hello capacity [] s = s"
| "maintainVLESSBondPath tp i hello capacity (r # rs) s =
     (let (more_rounds, s') = bond_path_round tp i hello capacity r s
      in if more_rounds then maintainVLESSBondPath tp i hello capacity rs s' else s')"

section \<open>The UDP mode\<close>

datatype loop_wait = ShutDown | WaitFor int

text \<open>What \<open>oneTurnConnectionLoop\<close> does after an error, at a time, with the lockout time in seconds.\<close>

definition turn_loop_wait :: "string \<Rightarrow> int \<Rightarrow> int \<Rightarrow> loop_wait" where
  "turn_loop_wait err now lockout =
     (if isFatalCaptchaError (Some err) then ShutDown
      else if str_contains err ''CAPTCHA_WAIT_REQUIRED'' then
        if \<not> str_contains err ''global lockout active'' then WaitFor (60 * ns_per_s)
        else let sleepDuration = lockout * ns_per_s - now in WaitFor (if sleepDuration < 0 then 5 * ns_per_s else sleepDuration)
      else WaitFor (2 * ns_per_s))"

text \<open>What \<open>oneDtlsConnectionLoop\<close> does after an error; the random number is below twenty.\<close>

definition dtls_loop_wait :: "conn_error option \<times> string \<Rightarrow> int \<Rightarrow> int \<Rightarrow> int \<Rightarrow> loop_wait" where
  "dtls_loop_wait err now lockout rand =
     (if fst err = Some (ErrClientAuth AuthRejected) then ShutDown
      else if now div ns_per_s < lockout \<and> str_contains (snd err) ''context deadline exceeded'' then WaitFor 0
      else WaitFor ((10 + rand) * ns_per_s))"

text \<open>A loop over the results of its rounds: the waits it makes and whether it shut the application down; a cancelled wait ends it.\<close>

fun retry_loop :: "('e \<Rightarrow> loop_wait) \<Rightarrow> ('e option \<times> bool) list \<Rightarrow> int list \<times> bool" where
  "retry_loop w [] = ([], False)"
| "retry_loop w ((None, _) # rs) = retry_loop w rs"
| "retry_loop w ((Some e, wait_cancelled) # rs) =
     (case w e of
        ShutDown \<Rightarrow> ([], True)
      | WaitFor d \<Rightarrow> if wait_cancelled then ([d], False) else (let (ds, down) = retry_loop w rs in (d # ds, down)))"

definition oneTurnConnectionLoop :: "((string \<times> int \<times> int) option \<times> bool) list \<Rightarrow> int list \<times> bool" where
  "oneTurnConnectionLoop rounds = retry_loop (\<lambda>(err, now, lockout). turn_loop_wait err now lockout) rounds"

definition oneDtlsConnectionLoop :: "(((conn_error option \<times> string) \<times> int \<times> int \<times> int) option \<times> bool) list \<Rightarrow> int list \<times> bool" where
  "oneDtlsConnectionLoop rounds = retry_loop (\<lambda>(err, now, lockout, rand). dtls_loop_wait err now lockout rand) rounds"

section \<open>Every session is given back\<close>

definition session_life :: "nat \<Rightarrow> session_event list" where
  "session_life n = [SessUp n, SessRemoved n, SessCleaned n]"

lemma session_round_trip:
  assumes "n \<notin> set (pool_sessions (mt_pool s))"
  shows "pool_sessions (mt_pool (session_down n (session_up n s))) = pool_sessions (mt_pool s)"
    and "activeSessions (pool_registry (mt_pool (session_down n (session_up n s)))) = activeSessions (pool_registry (mt_pool s))"
    and "mt_log (session_down n (session_up n s)) = mt_log s @ session_life n"
  using assms
  by (auto simp: session_up_def session_down_def pool_add_def pool_remove_def remove_first_spec session_life_def remove1_append)

text \<open>What a round may do to the pool, the gauge, the log and the application.\<close>

definition round_ok :: "maintainer \<Rightarrow> maintainer \<Rightarrow> nat list \<Rightarrow> bool \<Rightarrow> bool" where
  "round_ok s s' ns fatal \<longleftrightarrow>
     pool_sessions (mt_pool s') = pool_sessions (mt_pool s) \<and>
     activeSessions (pool_registry (mt_pool s')) = activeSessions (pool_registry (mt_pool s)) \<and>
     mt_log s' = mt_log s @ concat (map session_life ns) \<and> (app_cancelled s' \<longleftrightarrow> app_cancelled s \<or> fatal)"

lemma round_ok_refl: "round_ok s s [] False"
  by (simp add: round_ok_def)

lemma round_ok_trans: "round_ok s t ns f \<Longrightarrow> round_ok t u ms g \<Longrightarrow> round_ok s u (ns @ ms) (f \<or> g)"
  by (auto simp: round_ok_def)

lemma session_round_ok:
  assumes "session_round tp i r s = (go_on, s')" "sr_session r \<notin> set (pool_sessions (mt_pool s))"
  shows "\<exists>ns fatal. set ns \<subseteq> {sr_session r} \<and> round_ok s s' ns fatal \<and> (fatal \<longrightarrow> \<not> go_on \<and>
    (\<exists>e. ends_application e \<and> fst (createSmuxSession tp (sr_env r) i (mt_creds s)) = Inl e))"
proof -
  obtain res l st where c: "createSmuxSession tp (sr_env r) i (mt_creds s) = (res, l, st)" by (metis surj_pair)
  show ?thesis
  proof (cases "sr_ctx_top r")
    case True
    then have "s' = s" using assms(1) by (simp add: session_round_def)
    then have "round_ok s s' [] False" by (simp add: round_ok_refl)
    then show ?thesis by (metis empty_set empty_subsetI)
  next
    case False
    show ?thesis
    proof (cases res)
      case (Inl e)
      then have "round_ok s s' [] (ends_application e)" "ends_application e \<longrightarrow> \<not> go_on"
        using assms(1) c False by (auto simp: session_round_def round_ok_def Let_def split: if_split_asm)
      then show ?thesis using c Inl by (metis empty_set empty_subsetI fst_conv)
    next
      case (Inr fns)
      have "round_ok s s' [sr_session r] False"
        using assms c False Inr session_round_trip [of "sr_session r" "s\<lparr>mt_creds := st\<rparr>"]
        by (auto simp: session_round_def round_ok_def Let_def session_down_def session_up_def split: if_split_asm)
      then show ?thesis by (metis empty_set insert_is_Un list.simps(15) subset_refl)
    qed
  qed
qed

definition fatal_setup :: "turn_params \<Rightarrow> int \<Rightarrow> sess_round list \<Rightarrow> bool" where
  "fatal_setup tp i rounds \<longleftrightarrow>
     (\<exists>r e st. r \<in> set rounds \<and> ends_application e \<and> fst (createSmuxSession tp (sr_env r) i st) = Inl e)"

lemma fatal_setup_Cons: "fatal_setup tp i rounds \<Longrightarrow> fatal_setup tp i (r # rounds)"
  by (auto simp: fatal_setup_def)

lemma maintain_rounds:
  assumes "list_all (\<lambda>r. sr_session r \<notin> set (pool_sessions (mt_pool s))) rounds"
  shows "\<exists>ns fatal. set ns \<subseteq> sr_session ` set rounds \<and> round_ok s (maintainVLESSSession tp i rounds s) ns fatal \<and>
    (fatal \<longrightarrow> fatal_setup tp i rounds)"
  using assms
proof (induction rounds arbitrary: s)
  case Nil
  then show ?case using round_ok_refl [of s] by (intro exI [of _ "[]"] exI [of _ False]) simp
next
  case (Cons r rounds)
  obtain go_on t where rd: "session_round tp i r s = (go_on, t)" by fastforce
  have "sr_session r \<notin> set (pool_sessions (mt_pool s))" using Cons.prems by simp
  from session_round_ok [OF rd this] obtain ns f where
    ok: "set ns \<subseteq> {sr_session r}" "round_ok s t ns f" "f \<longrightarrow> \<not> go_on" "f \<longrightarrow> fatal_setup tp i (r # rounds)"
    unfolding fatal_setup_def by (metis list.set_intros(1))
  show ?case
  proof (cases go_on)
    case True
    have "list_all (\<lambda>r. sr_session r \<notin> set (pool_sessions (mt_pool t))) rounds"
      using Cons.prems ok(2) by (simp add: round_ok_def)
    from Cons.IH [OF this] obtain ms g where ih: "set ms \<subseteq> sr_session ` set rounds"
      "round_ok t (maintainVLESSSession tp i rounds t) ms g" "g \<longrightarrow> fatal_setup tp i rounds" by blast
    have "round_ok s (maintainVLESSSession tp i (r # rounds) s) (ns @ ms) g"
      using round_ok_trans [OF ok(2) ih(2)] ok(3) True rd by simp
    moreover have "set (ns @ ms) \<subseteq> sr_session ` set (r # rounds)" using ok(1) ih(1) by auto
    ultimately show ?thesis using ih(3) fatal_setup_Cons by blast
  next
    case False
    then have "round_ok s (maintainVLESSSession tp i (r # rounds) s) ns f" using ok(2) rd by simp
    moreover have "set ns \<subseteq> sr_session ` set (r # rounds)" using ok(1) by auto
    ultimately show ?thesis using ok(4) by blast
  qed
qed

text \<open>
  C7. A session maintainer leaks nothing. For every sequence of rounds, with set-up failures, lost sessions and the end of
  the context anywhere: each session that was put into the pool has been taken out and cleaned up, in that order and once, before the next one is set up, so
  that the pool and the session gauge are as before when the loop ends; and the application is shut down only if a set-up failed because the
  server rejected the token or a captcha was fatal, which also ends the loop.
\<close>

theorem session_maintainer:
  assumes "list_all (\<lambda>r. sr_session r \<notin> set (pool_sessions (mt_pool s))) rounds" "\<not> app_cancelled s"
  shows "let s' = maintainVLESSSession tp i rounds s in
    pool_sessions (mt_pool s') = pool_sessions (mt_pool s) \<and>
    activeSessions (pool_registry (mt_pool s')) = activeSessions (pool_registry (mt_pool s)) \<and>
    (\<exists>ns. set ns \<subseteq> sr_session ` set rounds \<and> mt_log s' = mt_log s @ concat (map session_life ns)) \<and>
    (app_cancelled s' \<longrightarrow> fatal_setup tp i rounds)"
proof -
  from maintain_rounds [OF assms(1)] obtain ns fatal where
    "set ns \<subseteq> sr_session ` set rounds" "round_ok s (maintainVLESSSession tp i rounds s) ns fatal" "fatal \<longrightarrow> fatal_setup tp i rounds"
    by blast
  then show ?thesis using assms(2) unfolding round_ok_def Let_def by blast
qed

definition example_maintainer :: maintainer where
  "example_maintainer = \<lparr>mt_creds = new_cred_state 10 (empty_registry None) 0,
     mt_pool = \<lparr>pool_sessions = [1], pool_counter = 0, pool_registry = empty_registry None\<rparr>, mt_log = [], app_cancelled = False\<rparr>"

definition example_round :: sess_round where
  "example_round = \<lparr>sr_ctx_top = False, sr_env = example_connect, sr_session = 7, sr_retry_cancelled = False,
     sr_ctx_ends = False, sr_ctx_after = False, sr_wait_cancelled = False\<rparr>"

theorem session_maintainer_witness:
  "let s' = maintainVLESSSession example_turn 3 [example_round, example_round\<lparr>sr_env := example_connect\<lparr>ce_conn := datagram_conn authDenied\<rparr>\<rparr>]
        example_maintainer in
    pool_sessions (mt_pool s') = [1] \<and> mt_log s' = session_life 7 \<and> app_cancelled s'"
proof -
  let ?rounds = "[example_round, example_round\<lparr>sr_env := example_connect\<lparr>ce_conn := datagram_conn authDenied\<rparr>\<rparr>]"
  have "list_all (\<lambda>r. sr_session r \<notin> set (pool_sessions (mt_pool example_maintainer))) ?rounds" "\<not> app_cancelled example_maintainer"
    by (simp_all add: example_round_def example_maintainer_def)
  note th = session_maintainer [OF this, of example_turn 3]
  have "mt_log (maintainVLESSSession example_turn 3 ?rounds example_maintainer) = session_life 7 \<and>
      app_cancelled (maintainVLESSSession example_turn 3 ?rounds example_maintainer)"
    by code_simp
  with th show ?thesis unfolding Let_def by (simp add: example_maintainer_def)
qed

section \<open>Every path is handed over or cleaned up\<close>

text \<open>What a round may add to the log of a path.\<close>

definition path_block :: "turn_params \<Rightarrow> BondHello \<Rightarrow> path_round \<Rightarrow> path_event list \<Rightarrow> bool" where
  "path_block tp hello r b \<longleftrightarrow>
     b = [] \<or> b = [PathDialled, PathCleaned] \<or>
     (\<exists>e. b = [PathDialled, PathReported e, PathCleaned] \<and> path_hello hello (ce_conn (pr_env r)) = Some e) \<or>
     b = [PathDialled, PathHanded] \<and> path_hello hello (ce_conn (pr_env r)) = None \<and> secured tp (pr_env r)"

lemma report_bounded:
  "length evs \<le> capacity \<Longrightarrow> length (reportVLESSBondPathSetupError capacity i e evs) \<le> capacity"
  by (simp add: reportVLESSBondPathSetupError_def)

definition path_step_ok :: "turn_params \<Rightarrow> BondHello \<Rightarrow> nat \<Rightarrow> path_round \<Rightarrow> path_loop \<Rightarrow> path_loop \<Rightarrow> bool" where
  "path_step_ok tp hello capacity r s s' \<longleftrightarrow>
     (\<exists>b. path_block tp hello r b \<and> pl_log s' = pl_log s @ b \<and>
        (length (pl_events s) \<le> capacity \<longrightarrow> length (pl_events s') \<le> capacity))"

lemma path_step_okI:
  "path_block tp hello r b \<Longrightarrow> pl_log s' = pl_log s @ b \<Longrightarrow> (length (pl_events s) \<le> capacity \<Longrightarrow> length (pl_events s') \<le> capacity) \<Longrightarrow>
     path_step_ok tp hello capacity r s s'"
  unfolding path_step_ok_def by blast

lemma bond_path_round_ok: "path_step_ok tp hello capacity r s (snd (bond_path_round tp i hello capacity r s))"
proof (cases "pr_ctx_top r")
  case True
  then show ?thesis by (intro path_step_okI [of _ _ _ "[]"]) (simp_all add: path_block_def bond_path_round_def)
next
  case False
  obtain res l st where c: "createDTLSConnection tp (pr_env r) i (pl_creds s) = (res, l, st)" by (metis surj_pair)
  show ?thesis
  proof (cases res)
    case (Inl e)
    with c False show ?thesis
      by (intro path_step_okI [of _ _ _ "[]"]) (simp_all add: path_block_def bond_path_round_def Let_def)
  next
    case (Inr fns)
    have sec: "secured tp (pr_env r)" using createDTLS_cases [OF c] Inr by simp
    note round = bond_path_round_def Let_def path_log_def path_block_def
    show ?thesis
    proof (cases "pr_ctx_dialled r \<or> path_hello hello (ce_conn (pr_env r)) = None \<and> pr_ctx_ready r")
      case True
      with c False Inr show ?thesis
        by (intro path_step_okI [of _ _ _ "[PathDialled, PathCleaned]"]) (auto simp: round)
    next
      case live: False
      show ?thesis
      proof (cases "path_hello hello (ce_conn (pr_env r))")
        case None
        with c False Inr live sec show ?thesis
          by (intro path_step_okI [of _ _ _ "[PathDialled, PathHanded]"]) (simp_all add: round)
      next
        case (Some e)
        with c False Inr live show ?thesis
          by (intro path_step_okI [of _ _ _ "[PathDialled, PathReported e, PathCleaned]"]) (simp_all add: round report_bounded)
      qed
    qed
  qed
qed


section \<open>Retries of the UDP mode\<close>

text \<open>During a lockout the loop sleeps at least until its end, and no error is retried at once by the TURN loop unless the lockout is just over.\<close>

lemma turn_lockout_respected:
  assumes "str_contains err ''CAPTCHA_WAIT_REQUIRED''" "str_contains err ''global lockout active''" "turn_loop_wait err now lockout = WaitFor d"
  shows "lockout * ns_per_s \<le> now + d"
  using assms by (auto simp: turn_loop_wait_def Let_def ns_per_s_def split: if_split_asm)

lemma lockout_error_waits:
  "turn_loop_wait (''failed to get TURN credentials: '' @ ''CAPTCHA_WAIT_REQUIRED: global lockout active'') now lockout =
     WaitFor (if lockout * ns_per_s < now then 5 * ns_per_s else lockout * ns_per_s - now)"
proof -
  have "isFatalCaptchaError (Some (''failed to get TURN credentials: '' @ ''CAPTCHA_WAIT_REQUIRED: global lockout active'')) = False"
    "str_contains (''failed to get TURN credentials: '' @ ''CAPTCHA_WAIT_REQUIRED: global lockout active'') ''CAPTCHA_WAIT_REQUIRED''"
    "str_contains (''failed to get TURN credentials: '' @ ''CAPTCHA_WAIT_REQUIRED: global lockout active'') ''global lockout active''"
    by code_simp+
  then show ?thesis by (simp only: turn_loop_wait_def) (simp add: Let_def)
qed

lemma retry_loop_shutdown:
  "snd (retry_loop w rounds) \<Longrightarrow> \<exists>e b. (Some e, b) \<in> set rounds \<and> w e = ShutDown"
  by (induction w rounds rule: retry_loop.induct) (auto split: loop_wait.split_asm if_split_asm prod.split_asm)

end
