(* ===== verification/Pipe_Copy.thy ===== *)
theory Pipe_Copy
  imports Go_Prelude
begin

text \<open>
  \<open>src/tcputil/pipe.go\<close>: copying between two connections with half-closes. A direction is a goroutine that copies until its source ends
  or something fails, then closes the write side of its destination; what \<open>io.Copy\<close> and
  \<open>CloseWrite\<close> answer is the environment's. The loop of \<open>Pipe\<close> is a function of the events its
  \<open>select\<close> sees, in their order.
\<close>

datatype direction = LeftFromRight | RightFromLeft

datatype pipe_error =
    CopyFailed direction nat | NoCloseWrite direction | CloseWriteFailed direction nat
  | HalfCloseTimeout direction | HalfCloseCancelled direction | BadTimeout direction | PipeContext

definition defaultHalfCloseTimeout :: int where "defaultHalfCloseTimeout = 1000000000"

section \<open>One direction\<close>

text \<open>What \<open>closeWriteBounded\<close> waits for first: the result of \<open>CloseWrite\<close> (an error, \<open>net.ErrClosed\<close>
  or success), the end of the context, or the timer.\<close>

datatype close_write = WriteSideClosed | AlreadyClosed | CloseWriteError nat | CloseWriteCancelled | CloseWriteTimesOut

text \<open>The error as the caller counts it, and whether the connection was closed altogether.\<close>

definition closeWriteBounded :: "direction \<Rightarrow> int \<Rightarrow> close_write \<Rightarrow> pipe_error option \<times> bool" where
  "closeWriteBounded d timeout w =
     (if timeout \<le> 0 then (Some (BadTimeout d), True)
      else case w of
        WriteSideClosed \<Rightarrow> (None, False)
      | AlreadyClosed \<Rightarrow> (None, False)
      | CloseWriteError e \<Rightarrow> (Some (CloseWriteFailed d e), False)
      | CloseWriteCancelled \<Rightarrow> (Some (HalfCloseCancelled d), True)
      | CloseWriteTimesOut \<Rightarrow> (Some (HalfCloseTimeout d), True))"

record copy_env =
  copy_data :: string
  copy_error :: "nat option"
  has_CloseWrite :: bool
  close_write :: close_write

record copy_result =
  res_err :: "pipe_error option"
  res_written :: string
  res_half_close :: bool
  res_full_close :: bool

definition copyDirection :: "int \<Rightarrow> direction \<Rightarrow> copy_env \<Rightarrow> copy_result" where
  "copyDirection timeout d env =
     (case copy_error env of
        Some e \<Rightarrow> \<lparr>res_err = Some (CopyFailed d e), res_written = copy_data env, res_half_close = False, res_full_close = False\<rparr>
      | None \<Rightarrow>
          if \<not> has_CloseWrite env then
            \<lparr>res_err = Some (NoCloseWrite d), res_written = copy_data env, res_half_close = False, res_full_close = False\<rparr>
          else let (err, closed) = closeWriteBounded d timeout (close_write env) in
            \<lparr>res_err = err, res_written = copy_data env, res_half_close = (0 < timeout), res_full_close = closed\<rparr>)"

section \<open>The loop\<close>

datatype pipe_event = DirectionEnds direction | ContextEnds | SeesContext

record pipe_state =
  ended :: "direction list"
  ctx_done :: bool
  firstErr :: "pipe_error option"
  cancelled :: bool

definition pipe_init :: pipe_state where
  "pipe_init = \<lparr>ended = [], ctx_done = False, firstErr = None, cancelled = False\<rparr>"

definition pipe_returned :: "pipe_state \<Rightarrow> bool" where
  "pipe_returned s \<longleftrightarrow> length (ended s) = 2"

text \<open>An event that cannot happen (a second result of a direction, the context before it ended, anything after the loop) changes nothing.\<close>

definition pipe_step :: "(direction \<Rightarrow> pipe_error option) \<Rightarrow> pipe_event \<Rightarrow> pipe_state \<Rightarrow> pipe_state" where
  "pipe_step err ev s =
     (if pipe_returned s then s
      else case ev of
        DirectionEnds d \<Rightarrow>
          if d \<in> set (ended s) then s
          else if err d \<noteq> None \<and> firstErr s = None \<and> \<not> ctx_done s
               then s\<lparr>ended := ended s @ [d], firstErr := err d, cancelled := True\<rparr>
               else s\<lparr>ended := ended s @ [d]\<rparr>
      | ContextEnds \<Rightarrow> s\<lparr>ctx_done := True\<rparr>
      | SeesContext \<Rightarrow>
          if \<not> ctx_done s then s
          else s\<lparr>firstErr := (if firstErr s = None then Some PipeContext else firstErr s), cancelled := True\<rparr>)"

definition pipe_run :: "(direction \<Rightarrow> pipe_error option) \<Rightarrow> pipe_event list \<Rightarrow> pipe_state" where
  "pipe_run err evs = fold (pipe_step err) evs pipe_init"

datatype deadline_call = InterruptBoth | ClearBoth

text \<open>The deadlines \<open>Pipe\<close> sets: the interruption runs when the copy context ends, at the latest when the loop is over.\<close>

definition pipe_deadlines :: "pipe_state \<Rightarrow> deadline_call list" where
  "pipe_deadlines s = (if pipe_returned s then [InterruptBoth, ClearBoth] else if cancelled s \<or> ctx_done s then [InterruptBoth] else [])"

definition pipeWithHalfCloseTimeout ::
  "int \<Rightarrow> (direction \<Rightarrow> copy_env) \<Rightarrow> pipe_event list \<Rightarrow> pipe_state" where
  "pipeWithHalfCloseTimeout timeout env evs = pipe_run (\<lambda>d. res_err (copyDirection timeout d (env d))) evs"

definition Pipe :: "(direction \<Rightarrow> copy_env) \<Rightarrow> pipe_event list \<Rightarrow> pipe_state" where
  "Pipe env evs = pipeWithHalfCloseTimeout defaultHalfCloseTimeout env evs"

section \<open>Correctness\<close>

text \<open>The first error of the directions that have ended.\<close>

fun first_failure :: "(direction \<Rightarrow> pipe_error option) \<Rightarrow> direction list \<Rightarrow> pipe_error option" where
  "first_failure err [] = None"
| "first_failure err (d # ds) = (if err d = None then first_failure err ds else err d)"

definition pipe_inv :: "(direction \<Rightarrow> pipe_error option) \<Rightarrow> pipe_state \<Rightarrow> bool" where
  "pipe_inv err s \<longleftrightarrow> distinct (ended s) \<and> length (ended s) \<le> 2 \<and>
     (cancelled s \<longleftrightarrow> firstErr s \<noteq> None) \<and>
     (\<not> ctx_done s \<longrightarrow> firstErr s = first_failure err (ended s)) \<and>
     (firstErr s \<noteq> None \<longrightarrow> ctx_done s \<and> firstErr s = Some PipeContext \<or> (\<exists>d \<in> set (ended s). err d = firstErr s))"

lemma first_failure_snoc:
  "first_failure err (ds @ [d]) = (if first_failure err ds = None then err d else first_failure err ds)"
  by (induction ds) auto

lemma first_failure_None: "first_failure err ds = None \<longleftrightarrow> list_all (\<lambda>d. err d = None) ds"
  by (induction ds) auto

lemma pipe_step_inv:
  assumes "pipe_inv err s"
  shows "pipe_inv err (pipe_step err ev s)"
proof (cases ev)
  case (DirectionEnds d)
  show ?thesis
  proof (cases "pipe_returned s \<or> d \<in> set (ended s)")
    case True
    then show ?thesis using assms by (auto simp: pipe_step_def DirectionEnds)
  next
    case False
    then have "length (ended s) < 2" using assms by (auto simp: pipe_inv_def pipe_returned_def)
    with False assms show ?thesis
      by (cases "err d \<noteq> None \<and> firstErr s = None \<and> \<not> ctx_done s")
        (auto simp: pipe_step_def DirectionEnds pipe_inv_def first_failure_snoc)
  qed
qed (use assms in \<open>auto simp: pipe_step_def pipe_inv_def\<close>)

lemma pipe_run_inv: "pipe_inv err (pipe_run err evs)"
proof -
  have "pipe_inv err s \<Longrightarrow> pipe_inv err (fold (pipe_step err) evs s)" for s
    by (induction evs arbitrary: s) (simp_all add: pipe_step_inv)
  moreover have "pipe_inv err pipe_init" by (simp add: pipe_inv_def pipe_init_def)
  ultimately show ?thesis by (simp add: pipe_run_def)
qed

lemma both_ended:
  fixes ds :: "direction list"
  assumes "distinct ds" "length ds = 2"
  shows "d \<in> set ds"
proof -
  obtain a b where "ds = [a, b]" using assms(2) by (auto simp: length_Suc_conv numeral_2_eq_2)
  then show ?thesis using assms(1) by (cases a; cases b; cases d) auto
qed

lemma copyDirection_clean:
  "res_err (copyDirection timeout d env) = None \<Longrightarrow>
     copy_error env = None \<and> res_half_close (copyDirection timeout d env) \<and> \<not> res_full_close (copyDirection timeout d env)"
  by (auto simp: copyDirection_def closeWriteBounded_def split: option.split_asm if_split_asm close_write.split_asm)

lemma copyDirection_written: "res_written (copyDirection timeout d env) = copy_data env"
  by (auto simp: copyDirection_def split: option.split prod.split)

text \<open>
  C27. Half-closes are kept and failures end both directions. For every order in which the directions end and the context
  is cancelled: the call returns only when both directions have ended; as long as the context lives, its error is that of the
  first direction to fail, and none exactly if neither failed; a direction that ended cleanly
  has delivered everything it read and then closed only the write side, and neither connection is interrupted while the other direction goes on; a
  failure or a cancelled context interrupts both connections at once, and on return the deadlines are cleared.
\<close>

theorem pipe_half_close:
  assumes "pipeWithHalfCloseTimeout timeout env evs = s"
  shows "(pipe_returned s \<longrightarrow> LeftFromRight \<in> set (ended s) \<and> RightFromLeft \<in> set (ended s) \<and> pipe_deadlines s = [InterruptBoth, ClearBoth]) \<and>
    (\<not> ctx_done s \<longrightarrow> firstErr s = first_failure (\<lambda>d. res_err (copyDirection timeout d (env d))) (ended s) \<and>
       (pipe_returned s \<longrightarrow> (firstErr s = None \<longleftrightarrow> (\<forall>d. res_err (copyDirection timeout d (env d)) = None)))) \<and>
    (\<forall>d. d \<in> set (ended s) \<and> res_err (copyDirection timeout d (env d)) = None \<longrightarrow>
       res_written (copyDirection timeout d (env d)) = copy_data (env d) \<and> copy_error (env d) = None \<and>
       res_half_close (copyDirection timeout d (env d)) \<and> \<not> res_full_close (copyDirection timeout d (env d))) \<and>
    (\<not> ctx_done s \<and> \<not> pipe_returned s \<longrightarrow>
       (pipe_deadlines s = [] \<longleftrightarrow> list_all (\<lambda>d. res_err (copyDirection timeout d (env d)) = None) (ended s))) \<and>
    (ctx_done s \<longrightarrow> InterruptBoth \<in> set (pipe_deadlines s))"
proof -
  let ?err = "\<lambda>d. res_err (copyDirection timeout d (env d))"
  have inv: "pipe_inv ?err s" using pipe_run_inv assms by (auto simp: pipeWithHalfCloseTimeout_def)
  have both: "d \<in> set (ended s)" if "pipe_returned s" for d
    using that inv by (intro both_ended) (simp_all add: pipe_returned_def pipe_inv_def)
  have err: "firstErr s = first_failure ?err (ended s)" if "\<not> ctx_done s"
    using inv that by (simp add: pipe_inv_def)
  have all: "firstErr s = None \<longleftrightarrow> (\<forall>d. ?err d = None)" if "pipe_returned s" "\<not> ctx_done s"
    using err [OF that(2)] both [OF that(1)] by (simp add: first_failure_None list_all_iff) blast
  have quiet: "pipe_deadlines s = [] \<longleftrightarrow> list_all (\<lambda>d. ?err d = None) (ended s)" if "\<not> ctx_done s" "\<not> pipe_returned s"
    using err [OF that(1)] inv that first_failure_None [of ?err "ended s"] by (simp add: pipe_deadlines_def pipe_inv_def)
  have dl: "pipe_returned s \<Longrightarrow> pipe_deadlines s = [InterruptBoth, ClearBoth]" "ctx_done s \<Longrightarrow> InterruptBoth \<in> set (pipe_deadlines s)"
    by (simp_all add: pipe_deadlines_def)
  show ?thesis
    using both err all quiet dl copyDirection_clean copyDirection_written by blast
qed

definition example_copy :: "direction \<Rightarrow> copy_env" where
  "example_copy d = \<lparr>copy_data = ''abc'', copy_error = None, has_CloseWrite = True, close_write = WriteSideClosed\<rparr>"

theorem pipe_half_close_witness:
  "pipe_deadlines (Pipe example_copy [DirectionEnds RightFromLeft]) = [] \<and>
   firstErr (Pipe example_copy [DirectionEnds RightFromLeft, DirectionEnds LeftFromRight]) = None \<and>
   LeftFromRight \<in> set (ended (Pipe example_copy [DirectionEnds RightFromLeft, DirectionEnds LeftFromRight]))"
proof -
  have "\<not> ctx_done (Pipe example_copy [DirectionEnds RightFromLeft])" "\<not> pipe_returned (Pipe example_copy [DirectionEnds RightFromLeft])"
    "list_all (\<lambda>d. res_err (copyDirection defaultHalfCloseTimeout d (example_copy d)) = None) (ended (Pipe example_copy [DirectionEnds RightFromLeft]))"
    "pipe_returned (Pipe example_copy [DirectionEnds RightFromLeft, DirectionEnds LeftFromRight])"
    "firstErr (Pipe example_copy [DirectionEnds RightFromLeft, DirectionEnds LeftFromRight]) = None"
    by code_simp+
  then show ?thesis
    using pipe_half_close [of defaultHalfCloseTimeout example_copy "[DirectionEnds RightFromLeft]", OF refl]
      pipe_half_close [of defaultHalfCloseTimeout example_copy "[DirectionEnds RightFromLeft, DirectionEnds LeftFromRight]", OF refl]
    unfolding Pipe_def by blast
qed

end
