(* ===== verification/Go_Float.thy ===== *)
theory Go_Float
  imports Complex_Main "HOL-Library.Log_Nat"
begin

text \<open>
  Go's \<open>float64\<close>: IEEE 754 binary64 values, rounding to nearest with ties to even, subnormal numbers and overflow to infinity,
  over exact rationals. The two zeros are one value: no operation of the program tells them apart. The order is the one of
  \<open>sort.Float64s\<close>, which puts NaN first.
\<close>

section \<open>Values\<close>

datatype float64 = NaN | NegInf | Fin rat | PosInf

fun float_rank :: "float64 \<Rightarrow> nat" where
  "float_rank NaN = 0"
| "float_rank NegInf = 1"
| "float_rank (Fin _) = 2"
| "float_rank PosInf = 3"

fun fin_val :: "float64 \<Rightarrow> rat" where
  "fin_val (Fin r) = r"
| "fin_val _ = 0"

instantiation float64 :: linorder
begin

definition less_eq_float64 :: "float64 \<Rightarrow> float64 \<Rightarrow> bool" where
  "x \<le> y \<longleftrightarrow> float_rank x < float_rank y \<or> float_rank x = float_rank y \<and> fin_val x \<le> fin_val y"

definition less_float64 :: "float64 \<Rightarrow> float64 \<Rightarrow> bool" where
  "x < y \<longleftrightarrow> float_rank x < float_rank y \<or> float_rank x = float_rank y \<and> fin_val x < fin_val y"

instance
proof
  fix x y z :: float64
  show "(x < y) = (x \<le> y \<and> \<not> y \<le> x)" "x \<le> x" "x \<le> y \<or> y \<le> x"
    by (auto simp: less_eq_float64_def less_float64_def)
  show "x \<le> z" if "x \<le> y" "y \<le> z" using that by (auto simp: less_eq_float64_def)
  show "x = y" if "x \<le> y" "y \<le> x" using that by (cases x; cases y) (auto simp: less_eq_float64_def)
qed

end

lemma Fin_le_iff [simp]: "Fin a \<le> Fin b \<longleftrightarrow> a \<le> b"
  by (simp add: less_eq_float64_def)

text \<open>The comparisons of the language, which are false on NaN.\<close>

definition float_lt :: "float64 \<Rightarrow> float64 \<Rightarrow> bool" where
  "float_lt x y \<longleftrightarrow> x \<noteq> NaN \<and> y \<noteq> NaN \<and> x < y"

definition float_le :: "float64 \<Rightarrow> float64 \<Rightarrow> bool" where
  "float_le x y \<longleftrightarrow> x \<noteq> NaN \<and> y \<noteq> NaN \<and> x \<le> y"

definition IsInf :: "float64 \<Rightarrow> bool" where
  "IsInf x \<longleftrightarrow> x = PosInf \<or> x = NegInf"

section \<open>Rounding\<close>

definition round_even :: "rat \<Rightarrow> int" where
  "round_even x =
     (let f = \<lfloor>x\<rfloor>; d = x - of_int f in if d < 1 / 2 then f else if 1 / 2 < d then f + 1 else if even f then f else f + 1)"

text \<open>The exponent \<open>e\<close> with \<open>2\<^sup>e \<le> x < 2\<^sup>e\<^sup>+\<^sup>1\<close>.\<close>

definition binary_exponent :: "rat \<Rightarrow> int" where
  "binary_exponent x =
     (let (p, q) = quotient_of x; e = int (floorlog 2 (nat p)) - int (floorlog 2 (nat q))
      in if x < 2 powi e then e - 1 else e)"

definition ulp_exponent :: "rat \<Rightarrow> int" where
  "ulp_exponent x = max (binary_exponent x - 52) (- 1074)"

definition round_at :: "int \<Rightarrow> rat \<Rightarrow> rat" where
  "round_at u x = of_int (round_even (x / 2 powi u)) * 2 powi u"

definition round64 :: "rat \<Rightarrow> rat" where
  "round64 x =
     (if x = 0 then 0 else if x < 0 then - round_at (ulp_exponent (- x)) (- x) else round_at (ulp_exponent x) x)"

definition float_of :: "rat \<Rightarrow> float64" where
  "float_of x =
     (let r = round64 x in if 2 ^ 1024 \<le> r then PosInf else if r \<le> - (2 ^ 1024) then NegInf else Fin r)"

section \<open>Arithmetic\<close>

fun float_add :: "float64 \<Rightarrow> float64 \<Rightarrow> float64" where
  "float_add (Fin a) (Fin b) = float_of (a + b)"
| "float_add NaN _ = NaN"
| "float_add _ NaN = NaN"
| "float_add PosInf NegInf = NaN"
| "float_add NegInf PosInf = NaN"
| "float_add PosInf _ = PosInf"
| "float_add _ PosInf = PosInf"
| "float_add NegInf _ = NegInf"
| "float_add _ NegInf = NegInf"

fun float_neg :: "float64 \<Rightarrow> float64" where
  "float_neg (Fin a) = Fin (- a)"
| "float_neg PosInf = NegInf"
| "float_neg NegInf = PosInf"
| "float_neg NaN = NaN"

definition float_sub :: "float64 \<Rightarrow> float64 \<Rightarrow> float64" where
  "float_sub x y = float_add x (float_neg y)"

text \<open>Division by two.\<close>

fun float_halve :: "float64 \<Rightarrow> float64" where
  "float_halve (Fin a) = float_of (a / 2)"
| "float_halve x = x"

text \<open>The values that occur: those that rounding leaves alone and that are in range.\<close>

definition is_float :: "float64 \<Rightarrow> bool" where
  "is_float x \<longleftrightarrow> (case x of Fin r \<Rightarrow> round64 r = r \<and> - (2 ^ 1024) < r \<and> r < 2 ^ 1024 | _ \<Rightarrow> True)"

section \<open>Rounding is monotone\<close>

lemma round_even_bounds: "\<lfloor>x\<rfloor> \<le> round_even x" "round_even x \<le> \<lfloor>x\<rfloor> + 1"
  by (simp_all add: round_even_def Let_def)

lemma round_even_of_int [simp]: "round_even (of_int n) = n"
  by (simp add: round_even_def)

lemma round_even_mono: "x \<le> y \<Longrightarrow> round_even x \<le> round_even y"
proof (cases "\<lfloor>x\<rfloor> = \<lfloor>y\<rfloor>")
  case True
  assume "x \<le> y"
  with True show ?thesis by (auto simp: round_even_def Let_def)
next
  case False
  assume "x \<le> y"
  then have "\<lfloor>x\<rfloor> + 1 \<le> \<lfloor>y\<rfloor>" using False floor_mono [of x y] by linarith
  then show ?thesis using round_even_bounds [of x] round_even_bounds [of y] by linarith
qed

lemma round_even_double: "0 \<le> x \<Longrightarrow> of_int (round_even x) \<le> 2 * x"
proof -
  assume x: "0 \<le> x"
  define f where "f = \<lfloor>x\<rfloor>"
  have f: "of_int f \<le> x" "0 \<le> f" using x by (simp_all add: f_def)
  have "f = 0 \<or> 1 \<le> f" using f(2) by linarith
  then show ?thesis
  proof
    assume "f = 0"
    then show ?thesis using x by (auto simp: round_even_def Let_def f_def [symmetric])
  next
    assume "1 \<le> f"
    then have one: "1 \<le> x" using f(1) by (metis le_floor_iff f_def of_int_1)
    have "of_int (round_even x) \<le> x + 1 / 2 \<or> of_int (round_even x) \<le> x"
      using f(1) by (auto simp: round_even_def Let_def f_def [symmetric])
    then show ?thesis using one by linarith
  qed
qed

lemma floorlog_two_bounds:
  assumes "0 < p"
  shows "2 powi (int (floorlog 2 (nat p)) - 1) \<le> (of_int p :: rat)" "(of_int p :: rat) < 2 powi (int (floorlog 2 (nat p)))"
proof -
  define l where "l = floorlog 2 (nat p)"
  have b: "2 ^ (l - 1) \<le> nat p" "nat p < 2 ^ l"
    using floorlog_bounds [of "nat p" 2] assms by (simp_all add: l_def)
  have pos: "0 < l" using b(2) assms by (cases l) auto
  have p: "(of_int p :: rat) = of_nat (nat p)" using assms by simp
  have "(2 :: rat) ^ (l - 1) \<le> of_nat (nat p)" using b(1) by (metis of_nat_le_iff of_nat_numeral of_nat_power)
  moreover have "(2 :: rat) powi (int l - 1) = 2 ^ (l - 1)"
    using pos by (simp add: power_int_nonneg_exp nat_diff_distrib flip: of_nat_diff)
  moreover have "of_nat (nat p) < (2 :: rat) ^ l" using b(2) by (metis of_nat_less_iff of_nat_numeral of_nat_power)
  ultimately show "2 powi (int (floorlog 2 (nat p)) - 1) \<le> (of_int p :: rat)"
    "(of_int p :: rat) < 2 powi (int (floorlog 2 (nat p)))"
    unfolding l_def [symmetric] p by simp_all
qed

lemma binary_exponent_bounds:
  assumes "0 < x"
  shows "2 powi binary_exponent x \<le> x" "x < 2 powi (binary_exponent x + 1)"
proof -
  obtain p q where pq: "quotient_of x = (p, q)" by fastforce
  have q: "0 < q" using quotient_of_denom_pos [OF pq] .
  have x: "x = of_int p / of_int q" using quotient_of_div [OF pq] .
  have p: "0 < p" using assms q unfolding x by (simp add: zero_less_divide_iff)
  define m n where "m = int (floorlog 2 (nat p))" and "n = int (floorlog 2 (nat q))"
  note bp = floorlog_two_bounds [OF p, folded m_def] and bq = floorlog_two_bounds [OF q, folded n_def]
  have "2 powi (m - 1) / 2 powi n \<le> x"
    unfolding x using bp(1) bq(2) q p by (intro frac_le) simp_all
  then have lo: "2 powi (m - n - 1) \<le> x" by (simp add: power_int_diff mult.commute)
  have "x < 2 powi m / 2 powi (n - 1)"
    unfolding x using bp(2) bq(1) q p by (intro frac_less) simp_all
  then have hi: "x < 2 powi (m - n + 1)" by (simp add: power_int_diff power_int_add field_simps)
  have "binary_exponent x = (if x < 2 powi (m - n) then m - n - 1 else m - n)"
    by (simp add: binary_exponent_def pq Let_def m_def n_def)
  then show "2 powi binary_exponent x \<le> x" "x < 2 powi (binary_exponent x + 1)"
    using lo hi by (auto simp: algebra_simps)
qed

lemma binary_exponent_mono:
  assumes "0 < x" "x \<le> y"
  shows "binary_exponent x \<le> binary_exponent y"
proof (rule ccontr)
  assume "\<not> ?thesis"
  then have "(2 :: rat) powi (binary_exponent y + 1) \<le> 2 powi binary_exponent x" by (intro power_int_increasing) simp_all
  then show False using binary_exponent_bounds [of x] binary_exponent_bounds [of y] assms by linarith
qed

lemma powi_quotient_int:
  assumes "u \<le> e"
  shows "(2 :: rat) powi e / 2 powi u = of_int (2 ^ nat (e - u))"
  using assms by (simp add: power_int_nonneg_exp flip: power_int_diff)

lemma round_at_mono: "x \<le> y \<Longrightarrow> round_at u x \<le> round_at u y"
  unfolding round_at_def by (intro mult_right_mono) (simp_all add: round_even_mono divide_right_mono)

lemma round_at_powi:
  assumes "u \<le> e"
  shows "round_at u (2 powi e) = 2 powi e"
proof -
  note q = powi_quotient_int [OF assms]
  have "round_at u (2 powi e) = of_int (2 ^ nat (e - u)) * 2 powi u" unfolding round_at_def q round_even_of_int ..
  also have "\<dots> = 2 powi e" using q by (simp add: field_simps)
  finally show ?thesis .
qed

lemma ulp_exponent_mono: "0 < x \<Longrightarrow> x \<le> y \<Longrightarrow> ulp_exponent x \<le> ulp_exponent y"
  using binary_exponent_mono [of x y] by (auto simp: ulp_exponent_def)

lemma round_at_positive_mono:
  assumes "0 < x" "x \<le> y"
  shows "round_at (ulp_exponent x) x \<le> round_at (ulp_exponent y) y"
proof (cases "ulp_exponent x = ulp_exponent y")
  case True
  then show ?thesis using round_at_mono [OF assms(2)] by simp
next
  case False
  define e where "e = binary_exponent y"
  have u: "ulp_exponent x < ulp_exponent y" using False ulp_exponent_mono [OF assms] by linarith
  then have e: "ulp_exponent y = e - 52" "binary_exponent x < e"
    using binary_exponent_mono [OF assms] by (auto simp: ulp_exponent_def e_def)
  have "(2 :: rat) powi (binary_exponent x + 1) \<le> 2 powi e" using e(2) by (intro power_int_increasing) simp_all
  then have "x \<le> 2 powi e" using binary_exponent_bounds(2) [OF assms(1)] by linarith
  then have "round_at (ulp_exponent x) x \<le> 2 powi e"
    using round_at_mono [of x "2 powi e" "ulp_exponent x"] round_at_powi [of "ulp_exponent x" e] u e(1) by simp
  also have "\<dots> \<le> round_at (ulp_exponent y) y"
    using round_at_mono [of "2 powi e" y "ulp_exponent y"] round_at_powi [of "ulp_exponent y" e]
      binary_exponent_bounds(1) [of y] assms e(1) by (simp add: e_def)
  finally show ?thesis .
qed

lemma round_at_nonneg: "0 \<le> x \<Longrightarrow> 0 \<le> round_at u x"
  using round_at_mono [of 0 x u] by (simp add: round_at_def round_even_def)

lemma round64_zero [simp]: "round64 0 = 0"
  by (simp add: round64_def)

lemma round64_nonneg: "0 \<le> x \<Longrightarrow> 0 \<le> round64 x"
  by (simp add: round64_def round_at_nonneg)

lemma round64_mono: "0 \<le> x \<Longrightarrow> x \<le> y \<Longrightarrow> round64 x \<le> round64 y"
  using round_at_positive_mono [of x y] round64_nonneg [of y] by (cases "x = 0") (auto simp: round64_def)

lemma round64_double:
  assumes "0 \<le> x"
  shows "round64 x \<le> 2 * x"
proof (cases "x = 0")
  case False
  define u where "u = ulp_exponent x"
  have "of_int (round_even (x / 2 powi u)) * 2 powi u \<le> 2 * (x / 2 powi u) * 2 powi u"
    using assms by (intro mult_right_mono round_even_double) simp_all
  then show ?thesis using assms False by (simp add: round64_def round_at_def u_def)
qed simp

section \<open>The values rounding leaves alone\<close>

text \<open>Every value is a multiple of the least one.\<close>

lemma float_multiple:
  assumes "round64 x = x" "0 \<le> x"
  obtains k where "x = of_int k * 2 powi (- 1074)"
proof (cases "x = 0")
  case True
  then show ?thesis using that [of 0] by simp
next
  case False
  define u where "u = ulp_exponent x"
  have u: "- 1074 \<le> u" by (simp add: u_def ulp_exponent_def)
  have "x = of_int (round_even (x / 2 powi u)) * 2 powi u" using assms False by (simp add: round64_def round_at_def u_def)
  moreover have "(2 :: rat) powi u = of_int (2 ^ nat (u + 1074)) * 2 powi (- 1074)"
    using powi_quotient_int [OF u] by (simp add: field_simps)
  ultimately show ?thesis using that [of "round_even (x / 2 powi u) * 2 ^ nat (u + 1074)"] by (metis of_int_mult mult.assoc)
qed

text \<open>What is a multiple of its unit in the last place is exact.\<close>

lemma round64_exact:
  assumes "x = of_int k * 2 powi v" "0 < x" "ulp_exponent x \<le> v"
  shows "round64 x = x"
proof -
  define w where "w = ulp_exponent x"
  have "x / 2 powi w = of_int k * (2 powi v / 2 powi w)" using assms(1) by simp
  also have "\<dots> = of_int (k * 2 ^ nat (v - w))" using powi_quotient_int [of w v] assms(3) by (simp add: w_def)
  finally have "round_at w x = x" by (simp add: round_at_def del: of_int_mult of_int_power) (simp add: field_simps)
  then show ?thesis using assms(2) by (simp add: round64_def w_def)
qed

lemma binary_exponent_less: "0 < x \<Longrightarrow> x < 2 powi e \<Longrightarrow> binary_exponent x < e"
proof (rule ccontr)
  assume x: "0 < x" "x < 2 powi e" and "\<not> binary_exponent x < e"
  then have "(2 :: rat) powi e \<le> 2 powi binary_exponent x" by (intro power_int_increasing) simp_all
  then show False using binary_exponent_bounds(1) [OF x(1)] x(2) by linarith
qed

text \<open>A multiple of the least value that is below the least normal values is exact.\<close>

lemma small_multiple_exact:
  assumes "x = of_int k * 2 powi (- 1074)" "0 \<le> x" "x < 2 powi (- 1021)"
  shows "round64 x = x"
proof (cases "x = 0")
  case False
  then have pos: "0 < x" using assms(2) by simp
  then have "ulp_exponent x \<le> - 1074" using binary_exponent_less [OF pos assms(3)] by (simp add: ulp_exponent_def)
  then show ?thesis using round64_exact [OF assms(1) pos] by simp
qed simp

text \<open>A mantissa of 53 bits is exact.\<close>

lemma mantissa_exact:
  assumes "x = of_int n * 2 powi u" "0 \<le> n" "n \<le> 2 ^ 53" "- 1074 \<le> u"
  shows "round64 x = x"
proof (cases "n = 0 \<or> n = 2 ^ 53")
  case True
  then show ?thesis
  proof
    assume "n = 2 ^ 53"
    then have x: "x = of_int 1 * 2 powi (u + 53)" using assms(1) by (simp add: power_int_add)
    have "x < 2 powi (u + 54)" unfolding x by (simp add: power_int_strict_increasing)
    then have "ulp_exponent x \<le> u + 53" using binary_exponent_less [of x "u + 54"] assms(4) x by (simp add: ulp_exponent_def)
    then show ?thesis using round64_exact [OF x] x by simp
  qed (simp add: assms(1))
next
  case False
  then have pos: "0 < x" using assms(1,2) by simp
  have "of_int n < (2 :: rat) ^ 53" using assms(3) False by (metis less_le of_int_less_iff of_int_numeral of_int_power)
  then have "x < 2 powi (u + 53)" unfolding assms(1) by (simp add: power_int_add mult.commute)
  then have "ulp_exponent x \<le> u" using binary_exponent_less [OF pos] assms(4) by (fastforce simp: ulp_exponent_def)
  then show ?thesis using round64_exact [OF assms(1) pos] by simp
qed

lemma round64_idem:
  assumes "0 \<le> x"
  shows "round64 (round64 x) = round64 x"
proof (cases "x = 0")
  case False
  then have pos: "0 < x" using assms by simp
  define u n where "u = ulp_exponent x" and "n = round_even (x / 2 powi u)"
  have y: "round64 x = of_int n * 2 powi u" using pos by (simp add: round64_def round_at_def u_def n_def)
  have "binary_exponent x + 1 \<le> u + 53" by (simp add: u_def ulp_exponent_def)
  then have "(2 :: rat) powi (binary_exponent x + 1) \<le> 2 powi (u + 53)" by (intro power_int_increasing) simp_all
  then have "x \<le> 2 powi (u + 53)" using binary_exponent_bounds(2) [OF pos] by linarith
  then have "x / 2 powi u \<le> of_int (2 ^ 53)" by (simp add: power_int_add field_simps)
  then have "n \<le> 2 ^ 53" using round_even_mono [of "x / 2 powi u" "of_int (2 ^ 53)"] unfolding n_def by (simp only: round_even_of_int)
  moreover have "0 \<le> n" using round_even_mono [of "of_int 0" "x / 2 powi u"] pos unfolding n_def by (simp only: round_even_of_int) simp
  ultimately show ?thesis using mantissa_exact [OF y] by (simp add: u_def ulp_exponent_def)
qed simp

text \<open>Halving a value that is not among the smallest is exact.\<close>

lemma halve_exact:
  assumes "round64 x = x" "2 powi (- 1021) \<le> x"
  shows "round64 (x / 2) = x / 2"
proof -
  have pos: "0 < x" using assms(2) by (metis less_le_trans zero_less_power_int zero_less_numeral)
  have lo: "- 1021 \<le> binary_exponent x"
  proof (rule ccontr)
    assume "\<not> ?thesis"
    then have "(2 :: rat) powi (binary_exponent x + 1) \<le> 2 powi (- 1021)" by (intro power_int_increasing) simp_all
    then show False using binary_exponent_bounds(2) [OF pos] assms(2) by linarith
  qed
  define u where "u = binary_exponent x - 52"
  have "ulp_exponent x = u" using lo by (simp add: ulp_exponent_def u_def)
  then have x: "x = of_int (round_even (x / 2 powi u)) * 2 powi u"
    using assms(1) pos by (simp add: round64_def round_at_def)
  then have half: "x / 2 = of_int (round_even (x / 2 powi u)) * 2 powi (u - 1)" by (simp add: power_int_diff)
  have "x / 2 < 2 powi (u + 52)"
    using binary_exponent_bounds(2) [OF pos] by (simp add: u_def power_int_add)
  then have "ulp_exponent (x / 2) \<le> u - 1"
    using binary_exponent_less [of "x / 2" "u + 52"] pos lo by (simp add: ulp_exponent_def u_def)
  then show ?thesis using round64_exact [OF half] pos by simp
qed

section \<open>The middle of two values\<close>

text \<open>The midpoint \<open>lower + (upper - lower) / 2\<close> as it is computed stays between the two and in range.\<close>

lemma midpoint_step:
  assumes "round64 l = l" "round64 u = u" "0 \<le> l" "l \<le> u"
  shows "0 \<le> round64 (round64 (u - l) / 2)" "round64 (round64 (u - l) / 2) \<le> u - l"
proof -
  let ?d = "round64 (u - l)"
  have d: "0 \<le> ?d" "?d \<le> 2 * (u - l)" using assms round64_nonneg round64_double [of "u - l"] by simp_all
  show "0 \<le> round64 (?d / 2)" using d by (intro round64_nonneg) simp
  obtain j k where jk: "u = of_int j * 2 powi (- 1074)" "l = of_int k * 2 powi (- 1074)"
    using float_multiple [OF assms(2)] float_multiple [OF assms(1,3)] assms(3,4) by (metis order_trans)
  have diff: "u - l = of_int (j - k) * 2 powi (- 1074)" unfolding jk by (simp add: algebra_simps)
  show "round64 (?d / 2) \<le> u - l"
  proof (cases "u - l < 2 powi (- 1021)")
    case True
    then have "?d = u - l" using small_multiple_exact [OF diff] assms by simp
    then show ?thesis using round64_mono [of "(u - l) / 2" "u - l"] assms(4) by simp
  next
    case False
    have exact: "round64 (2 powi (- 1021)) = 2 powi (- 1021)" by (rule mantissa_exact [of _ 1 "- 1021"]) simp_all
    have "2 powi (- 1021) \<le> ?d" using round64_mono [of "2 powi (- 1021)" "u - l"] False exact by simp
    then show ?thesis using halve_exact [of ?d] d(2) round64_idem [of "u - l"] assms(4) by simp
  qed
qed

lemma float_of_in_range:
  assumes "0 \<le> x" "x \<le> u" "is_float (Fin u)"
  shows "float_of x = Fin (round64 x)" "is_float (Fin (round64 x))" "round64 x \<le> u"
proof -
  have r: "0 \<le> round64 x" "round64 x \<le> u" "u < 2 ^ 1024"
    using round64_nonneg [OF assms(1)] round64_mono [OF assms(1,2)] assms(3) by (simp_all add: is_float_def)
  have "- (2 ^ 1024) < (0 :: rat)" by simp
  then have "- (2 ^ 1024) < round64 x" using r(1) by (rule order_less_le_trans)
  moreover have "round64 x < 2 ^ 1024" using r(2,3) by (rule order_le_less_trans)
  ultimately show "float_of x = Fin (round64 x)" "is_float (Fin (round64 x))"
    using round64_idem [OF assms(1)] by (simp_all add: float_of_def is_float_def Let_def)
  show "round64 x \<le> u" by (rule r(2))
qed

lemma midpoint_between:
  assumes "is_float (Fin l)" "is_float (Fin u)" "0 \<le> l" "l \<le> u"
  obtains m where "float_add (Fin l) (float_halve (float_sub (Fin u) (Fin l))) = Fin m" "is_float (Fin m)" "l \<le> m" "m \<le> u"
proof -
  define d h where "d = round64 (u - l)" and "h = round64 (d / 2)"
  have fl: "round64 l = l" "round64 u = u" using assms(1,2) by (simp_all add: is_float_def)
  have h: "0 \<le> h" "h \<le> u - l" using midpoint_step [OF fl assms(3,4)] by (simp_all add: h_def d_def)
  have sub: "float_sub (Fin u) (Fin l) = Fin d" "is_float (Fin d)" "0 \<le> d"
    using float_of_in_range [of "u - l" u] assms round64_nonneg [of "u - l"] by (simp_all add: float_sub_def d_def)
  have halve: "float_halve (Fin d) = Fin h" using float_of_in_range(1) [of "d / 2" d] sub by (simp add: h_def)
  have "l \<le> round64 (l + h)" using round64_mono [of l "l + h"] assms(3) h(1) fl(1) by simp
  moreover have "float_of (l + h) = Fin (round64 (l + h))" "is_float (Fin (round64 (l + h)))" "round64 (l + h) \<le> u"
    using float_of_in_range [of "l + h" u] assms h by simp_all
  ultimately show ?thesis using that [of "round64 (l + h)"] unfolding sub(1) halve by simp
qed

text \<open>The conversion from \<open>uint64\<close>.\<close>

lemma float_of_nonneg_int:
  assumes "0 \<le> n" "n < 2 ^ 64"
  shows "\<exists>r. float_of (of_int n) = Fin r \<and> 0 \<le> r \<and> is_float (Fin r)"
proof -
  have big: "is_float (Fin (2 ^ 64))"
    using mantissa_exact [of "2 ^ 64" 1 64] by (simp add: is_float_def)
  have "of_int n \<le> (2 ^ 64 :: rat)" using assms(2) by (metis less_imp_le of_int_le_iff of_int_numeral of_int_power)
  then show ?thesis
    using float_of_in_range(1,2) [OF _ _ big, of "of_int n"] round64_nonneg [of "of_int n"] assms(1) by auto
qed

end
