(* ===== verification/Bench_Stats.thy ===== *)
theory Bench_Stats
  imports Go_Float Go_Net Metrics_Registry "HOL-Library.Product_Lexorder"
begin

text \<open>
  The benchmark's measurements: \<open>src/baseline/baseline.go\<close> (scenarios, cases, medians and summaries),
  \<open>src/baseline/metrics.go\<close> (differences of metric snapshots), \<open>src/baseline/iperf.go\<close> and the arguments built in
  \<open>src/baseline/command_iperf.go\<close>. The JSON decoder's outcome on a report of iperf3 is an argument.
\<close>

section \<open>Scenarios and cases\<close>

definition MinimumRuns :: int where "MinimumRuns = 3"

definition DirectionUpload :: string where "DirectionUpload = ''upload''"
definition DirectionDownload :: string where "DirectionDownload = ''download''"

record Scenario =
  scn_Name :: string
  TURNTransport :: string
  ProxyMode :: string
  scn_Sessions :: int

record bench_case =
  Direction :: string
  Parallel :: int

datatype bench_error =
    BadScenarioName | BadTransport | BadProxyMode | BadSessionCount
  | BadDirection | BadParallel
  | EmptySample | InvalidValue float64
  | InvalidMeasurementCase bench_error | NoMeasurements | TooFewRuns string nat
  | ThroughputError string bench_error | RetransmitError string bench_error
  | CounterDecreased string
  | IPerfDecode | IPerfTrailing | IPerfReported string | IPerfNoSums | IPerfBadRates | IPerfBadCPU
  | BadDuration | BadTarget | BadTargetPort
  | WrongProtocol string | WrongStreams int | WrongReverse bool

definition is_alnum :: "char \<Rightarrow> bool" where
  "is_alnum c \<longleftrightarrow> is_digit c \<or> 65 \<le> byte_val c \<and> byte_val c \<le> 90 \<or> 97 \<le> byte_val c \<and> byte_val c \<le> 122"

text \<open>The pattern \<open>^[A-Za-z0-9][A-Za-z0-9._-]{0,63}$\<close>.\<close>

fun scenarioNamePattern :: "string \<Rightarrow> bool" where
  "scenarioNamePattern [] = False"
| "scenarioNamePattern (c # cs) \<longleftrightarrow>
     is_alnum c \<and> length cs \<le> 63 \<and> list_all (\<lambda>c. is_alnum c \<or> c \<in> set ''._-'') cs"

definition Scenario_Validate :: "Scenario \<Rightarrow> bench_error option" where
  "Scenario_Validate s =
     (if \<not> scenarioNamePattern (scn_Name s) then Some BadScenarioName
      else if TURNTransport s \<noteq> ''tcp'' \<and> TURNTransport s \<noteq> ''udp'' then Some BadTransport
      else if ProxyMode s \<noteq> ''multi-session'' \<and> ProxyMode s \<noteq> ''bond'' then Some BadProxyMode
      else if scn_Sessions s < 1 \<or> scn_Sessions s > 64 then Some BadSessionCount
      else None)"

definition Case_Validate :: "bench_case \<Rightarrow> bench_error option" where
  "Case_Validate c =
     (if Direction c \<noteq> DirectionUpload \<and> Direction c \<noteq> DirectionDownload then Some BadDirection
      else if Parallel c < 1 \<or> Parallel c > 128 then Some BadParallel
      else None)"

definition Slug :: "bench_case \<Rightarrow> string" where
  "Slug c = Direction c @ ''-p'' @ Itoa (Parallel c)"

section \<open>Medians\<close>

definition invalid_sample :: "float64 \<Rightarrow> bool" where
  "invalid_sample v \<longleftrightarrow> v = NaN \<or> IsInf v \<or> float_lt v (Fin 0)"

definition Median :: "float64 list \<Rightarrow> bench_error + float64" where
  "Median values =
     (if values = [] then Inl EmptySample
      else case find invalid_sample values of
        Some v \<Rightarrow> Inl (InvalidValue v)
      | None \<Rightarrow>
          let ordered = sort values; middle = length ordered div 2 in
          if length ordered mod 2 = 1 then Inr (ordered ! middle)
          else let lower = ordered ! (middle - 1)
               in Inr (float_add lower (float_halve (float_sub (ordered ! middle) lower))))"

section \<open>iperf3 reports\<close>

record iperfSum =
  sum_Seconds :: float64
  sum_Bytes :: u64
  sum_BitsPerSecond :: float64
  sum_Retransmits :: u64

record iperfDocument =
  doc_Error :: string
  doc_Version :: string
  doc_SystemInfo :: string
  doc_Protocol :: string
  doc_NumStreams :: int
  doc_Duration :: float64
  doc_Reverse :: bool
  doc_SumSent :: "iperfSum option"
  doc_SumReceived :: "iperfSum option"
  doc_HostTotal :: float64
  doc_RemoteTotal :: float64
  doc_SenderTCPCongestion :: string

record IPerfSummary =
  ip_Version :: string
  ip_System :: string
  Protocol :: string
  RequestedStreams :: int
  Reverse :: bool
  ip_Seconds :: float64
  SentBytes :: u64
  ReceivedBytes :: u64
  SenderBitsPerSecond :: float64
  BitsPerSecond :: float64
  ip_RetransmittedSegments :: u64
  HostCPUPercent :: float64
  RemoteCPUPercent :: float64
  SenderTCPCongestionControl :: string

text \<open>\<open>boolish.UnmarshalJSON\<close>: the value, or an error.\<close>

definition boolish_UnmarshalJSON :: "string \<Rightarrow> bool option" where
  "boolish_UnmarshalJSON data =
     (let s = TrimSpace data in
      if s = ''true'' \<or> s = ''1'' then Some True else if s = ''false'' \<or> s = ''0'' then Some False else None)"

definition validRate :: "float64 \<Rightarrow> bool" where
  "validRate v \<longleftrightarrow> float_le (Fin 0) v \<and> v \<noteq> NaN \<and> \<not> IsInf v"

text \<open>What decoding a second value after the document gives: the end of the data, a value, or an error.\<close>

datatype json_trailer = TrailerEOF | TrailerValue | TrailerError

definition ParseIPerfJSON :: "iperfDocument option \<times> json_trailer \<Rightarrow> bench_error + IPerfSummary" where
  "ParseIPerfJSON decoded =
     (case decoded of
        (None, _) \<Rightarrow> Inl IPerfDecode
      | (Some document, trailing) \<Rightarrow>
          if trailing \<noteq> TrailerEOF then Inl IPerfTrailing
          else if doc_Error document \<noteq> [] then Inl (IPerfReported (doc_Error document))
          else case (case doc_SumSent document of None \<Rightarrow> doc_SumReceived document | Some s \<Rightarrow> Some s,
                     case doc_SumReceived document of None \<Rightarrow> doc_SumSent document | Some s \<Rightarrow> Some s) of
            (Some sent, Some received) \<Rightarrow>
              if float_le (sum_Seconds received) (Fin 0) \<or> \<not> validRate (sum_BitsPerSecond received) \<or>
                 \<not> validRate (sum_BitsPerSecond sent) then Inl IPerfBadRates
              else if \<not> validRate (doc_HostTotal document) \<or> \<not> validRate (doc_RemoteTotal document) then Inl IPerfBadCPU
              else Inr \<lparr>ip_Version = doc_Version document, ip_System = doc_SystemInfo document,
                        Protocol = doc_Protocol document, RequestedStreams = doc_NumStreams document,
                        Reverse = doc_Reverse document, ip_Seconds = sum_Seconds received,
                        SentBytes = sum_Bytes sent, ReceivedBytes = sum_Bytes received,
                        SenderBitsPerSecond = sum_BitsPerSecond sent, BitsPerSecond = sum_BitsPerSecond received,
                        ip_RetransmittedSegments = sum_Retransmits sent, HostCPUPercent = doc_HostTotal document,
                        RemoteCPUPercent = doc_RemoteTotal document,
                        SenderTCPCongestionControl = doc_SenderTCPCongestion document\<rparr>
          | _ \<Rightarrow> Inl IPerfNoSums)"

definition validateIPerfCase :: "bench_case \<Rightarrow> IPerfSummary \<Rightarrow> bench_error option" where
  "validateIPerfCase c summary =
     (if \<not> EqualFold (Protocol summary) ''TCP'' then Some (WrongProtocol (Protocol summary))
      else if RequestedStreams summary \<noteq> Parallel c then Some (WrongStreams (RequestedStreams summary))
      else let wantReverse = (Direction c = DirectionDownload) in
        if Reverse summary \<noteq> wantReverse then Some (WrongReverse (Reverse summary)) else None)"

definition IPerfArguments :: "string \<Rightarrow> int \<Rightarrow> bench_case \<Rightarrow> bench_error + string list" where
  "IPerfArguments target durationSeconds c =
     (case Case_Validate c of
        Some e \<Rightarrow> Inl e
      | None \<Rightarrow>
          if durationSeconds < 1 \<or> durationSeconds > 300 then Inl BadDuration
          else case SplitHostPort target of
            None \<Rightarrow> Inl BadTarget
          | Some (host, port) \<Rightarrow>
              if TrimSpace host = [] \<or> host \<noteq> TrimSpace host then Inl BadTarget
              else if (case Atoi port of None \<Rightarrow> True | Some n \<Rightarrow> n < 1 \<or> n > 65535) then Inl BadTargetPort
              else Inr ([''-c'', host, ''-p'', port, ''-J'', ''-t'', Itoa durationSeconds, ''-P'', Itoa (Parallel c)] @
                        (if Direction c = DirectionDownload then [''-R''] else [])))"

section \<open>Summaries\<close>

record Measurement =
  m_Case :: bench_case
  m_IPerf :: IPerfSummary

record CaseSummary =
  cs_Case :: bench_case
  cs_Runs :: int
  MedianBitsPerSecond :: float64
  MinimumBitsPerSecond :: float64
  MaximumBitsPerSecond :: float64
  MedianRetransmittedSegments :: float64

definition directionOrder :: "string \<Rightarrow> int" where
  "directionOrder direction = (if direction = DirectionUpload then 0 else 1)"

text \<open>The comparison of cases: by direction, then by the number of flows. Valid cases with equal keys are equal.\<close>

definition case_less :: "bench_case \<Rightarrow> bench_case \<Rightarrow> bool" where
  "case_less a b \<longleftrightarrow>
     (if Direction a \<noteq> Direction b then directionOrder (Direction a) < directionOrder (Direction b)
      else Parallel a < Parallel b)"

definition case_key :: "bench_case \<Rightarrow> int \<times> int" where
  "case_key c = (directionOrder (Direction c), Parallel c)"

text \<open>The keys of the map of groups, sorted.\<close>

definition sorted_cases :: "bench_case list \<Rightarrow> bench_case list" where
  "sorted_cases cs = sort_key case_key (remdups cs)"

definition summarize_case :: "bench_case \<Rightarrow> Measurement list \<Rightarrow> bench_error + CaseSummary" where
  "summarize_case c runs =
     (if int (length runs) < MinimumRuns then Inl (TooFewRuns (Slug c) (length runs))
      else let throughputs = map (\<lambda>m. BitsPerSecond (m_IPerf m)) runs;
               retransmits = map (\<lambda>m. float_of (of_int (uint (ip_RetransmittedSegments (m_IPerf m))))) runs in
        case Median throughputs of
          Inl e \<Rightarrow> Inl (ThroughputError (Slug c) e)
        | Inr medianThroughput \<Rightarrow>
            (case Median retransmits of
               Inl e \<Rightarrow> Inl (RetransmitError (Slug c) e)
             | Inr medianRetransmits \<Rightarrow>
                 let ordered = sort throughputs in
                 Inr \<lparr>cs_Case = c, cs_Runs = int (length runs), MedianBitsPerSecond = medianThroughput,
                      MinimumBitsPerSecond = ordered ! 0, MaximumBitsPerSecond = ordered ! (length ordered - 1),
                      MedianRetransmittedSegments = medianRetransmits\<rparr>))"

fun map_result :: "('a \<Rightarrow> 'e + 'b) \<Rightarrow> 'a list \<Rightarrow> 'e + 'b list" where
  "map_result f [] = Inr []"
| "map_result f (x # xs) =
     (case f x of
        Inl e \<Rightarrow> Inl e
      | Inr y \<Rightarrow> (case map_result f xs of Inl e \<Rightarrow> Inl e | Inr ys \<Rightarrow> Inr (y # ys)))"

definition Summarize :: "Measurement list \<Rightarrow> bench_error + CaseSummary list" where
  "Summarize ms =
     (case find (\<lambda>m. Case_Validate (m_Case m) \<noteq> None) ms of
        Some m \<Rightarrow> Inl (InvalidMeasurementCase (the (Case_Validate (m_Case m))))
      | None \<Rightarrow>
          if ms = [] then Inl NoMeasurements
          else map_result (\<lambda>c. summarize_case c (filter (\<lambda>m. m_Case m = c) ms)) (sorted_cases (map m_Case ms)))"

section \<open>Differences of snapshots\<close>

record KCPCounterDelta =
  kd_ApplicationBytesSent :: u64
  kd_ApplicationBytesReceived :: u64
  kd_ActiveOpens :: u64
  kd_PassiveOpens :: u64
  kd_InputErrors :: u64
  kd_ChecksumErrors :: u64
  kd_ProtocolInputErrors :: u64
  kd_PacketsReceived :: u64
  kd_PacketsSent :: u64
  kd_SegmentsReceived :: u64
  kd_SegmentsSent :: u64
  kd_InputBytes :: u64
  kd_OutputBytes :: u64
  kd_RetransmittedSegments :: u64
  kd_FastRetransmittedSegments :: u64
  kd_EarlyRetransmittedSegments :: u64
  kd_LostSegments :: u64
  kd_RepeatedSegments :: u64
  kd_FECRecoveredPackets :: u64
  kd_FECReportedErrors :: u64
  kd_FECParityShardsReceived :: u64
  kd_FECFullShardSets :: u64

record MetricDelta =
  md_ConnectionLimitRejections :: int
  md_BackendLimitRejections :: int
  md_PathReconnects :: int
  md_SessionReconnects :: int
  md_AuthFailures :: int
  md_QueueDrops :: int
  md_BytesRead :: u64
  md_BytesWritten :: u64
  md_ReadOperations :: u64
  md_WriteOperations :: u64
  md_ReadErrors :: u64
  md_WriteErrors :: u64
  md_WriteLatencySamples :: u64
  md_WriteLatencyTotalNanoseconds :: u64
  md_KCP :: KCPCounterDelta

text \<open>The two tables of counters: name, value before, value after.\<close>

definition intCounters :: "Snapshot \<Rightarrow> Snapshot \<Rightarrow> (string \<times> int \<times> int) list" where
  "intCounters before after =
     [(''connection_limit_rejections'', ConnectionLimitRejections before, ConnectionLimitRejections after),
      (''backend_limit_rejections'', BackendLimitRejections before, BackendLimitRejections after),
      (''path_reconnects'', PathReconnects before, PathReconnects after),
      (''session_reconnects'', SessionReconnects before, SessionReconnects after),
      (''auth_failures'', AuthFailures before, AuthFailures after),
      (''queue_drops'', QueueDrops before, QueueDrops after)]"

definition uintCounters :: "Snapshot \<Rightarrow> Snapshot \<Rightarrow> (string \<times> u64 \<times> u64) list" where
  "uintCounters before after =
     [(''bytes_read'', bytesRead (snap_traffic before), bytesRead (snap_traffic after)),
      (''bytes_written'', bytesWritten (snap_traffic before), bytesWritten (snap_traffic after)),
      (''read_operations'', readOperations (snap_traffic before), readOperations (snap_traffic after)),
      (''write_operations'', writeOperations (snap_traffic before), writeOperations (snap_traffic after)),
      (''read_errors'', readErrors (snap_traffic before), readErrors (snap_traffic after)),
      (''write_errors'', writeErrors (snap_traffic before), writeErrors (snap_traffic after)),
      (''write_latency_samples'', writeLatencySamples (snap_traffic before), writeLatencySamples (snap_traffic after)),
      (''write_latency_total_nanoseconds'', writeLatencyTotalNS (snap_traffic before), writeLatencyTotalNS (snap_traffic after)),
      (''kcp.application_bytes_sent'', ApplicationBytesSent (KCP before), ApplicationBytesSent (KCP after)),
      (''kcp.application_bytes_received'', ApplicationBytesReceived (KCP before), ApplicationBytesReceived (KCP after)),
      (''kcp.active_opens'', KcpActiveOpens (KCP before), KcpActiveOpens (KCP after)),
      (''kcp.passive_opens'', KcpPassiveOpens (KCP before), KcpPassiveOpens (KCP after)),
      (''kcp.input_errors'', InputErrors (KCP before), InputErrors (KCP after)),
      (''kcp.checksum_errors'', ChecksumErrors (KCP before), ChecksumErrors (KCP after)),
      (''kcp.protocol_input_errors'', ProtocolInputErrors (KCP before), ProtocolInputErrors (KCP after)),
      (''kcp.packets_received'', PacketsReceived (KCP before), PacketsReceived (KCP after)),
      (''kcp.packets_sent'', PacketsSent (KCP before), PacketsSent (KCP after)),
      (''kcp.segments_received'', SegmentsReceived (KCP before), SegmentsReceived (KCP after)),
      (''kcp.segments_sent'', SegmentsSent (KCP before), SegmentsSent (KCP after)),
      (''kcp.input_bytes'', InputBytes (KCP before), InputBytes (KCP after)),
      (''kcp.output_bytes'', OutputBytes (KCP before), OutputBytes (KCP after)),
      (''kcp.retransmitted_segments'', RetransmittedSegments (KCP before), RetransmittedSegments (KCP after)),
      (''kcp.fast_retransmitted_segments'', FastRetransmittedSegments (KCP before), FastRetransmittedSegments (KCP after)),
      (''kcp.early_retransmitted_segments'', EarlyRetransmittedSegments (KCP before), EarlyRetransmittedSegments (KCP after)),
      (''kcp.lost_segments'', LostSegments (KCP before), LostSegments (KCP after)),
      (''kcp.repeated_segments'', RepeatedSegments (KCP before), RepeatedSegments (KCP after)),
      (''kcp.fec_recovered_packets'', FECRecoveredPackets (KCP before), FECRecoveredPackets (KCP after)),
      (''kcp.fec_reported_errors'', FECReportedErrors (KCP before), FECReportedErrors (KCP after)),
      (''kcp.fec_parity_shards_received'', FECParityShardsReceived (KCP before), FECParityShardsReceived (KCP after)),
      (''kcp.fec_full_shard_sets'', FECFullShardSets (KCP before), FECFullShardSets (KCP after))]"

definition metric_delta :: "Snapshot \<Rightarrow> Snapshot \<Rightarrow> MetricDelta" where
  "metric_delta before after = \<lparr>
          md_ConnectionLimitRejections = ConnectionLimitRejections after - ConnectionLimitRejections before,
          md_BackendLimitRejections = BackendLimitRejections after - BackendLimitRejections before,
          md_PathReconnects = PathReconnects after - PathReconnects before,
          md_SessionReconnects = SessionReconnects after - SessionReconnects before,
          md_AuthFailures = AuthFailures after - AuthFailures before,
          md_QueueDrops = QueueDrops after - QueueDrops before,
          md_BytesRead = bytesRead (snap_traffic after) - bytesRead (snap_traffic before),
          md_BytesWritten = bytesWritten (snap_traffic after) - bytesWritten (snap_traffic before),
          md_ReadOperations = readOperations (snap_traffic after) - readOperations (snap_traffic before),
          md_WriteOperations = writeOperations (snap_traffic after) - writeOperations (snap_traffic before),
          md_ReadErrors = readErrors (snap_traffic after) - readErrors (snap_traffic before),
          md_WriteErrors = writeErrors (snap_traffic after) - writeErrors (snap_traffic before),
          md_WriteLatencySamples = writeLatencySamples (snap_traffic after) - writeLatencySamples (snap_traffic before),
          md_WriteLatencyTotalNanoseconds = writeLatencyTotalNS (snap_traffic after) - writeLatencyTotalNS (snap_traffic before),
          md_KCP = \<lparr>
            kd_ApplicationBytesSent = ApplicationBytesSent (KCP after) - ApplicationBytesSent (KCP before),
            kd_ApplicationBytesReceived = ApplicationBytesReceived (KCP after) - ApplicationBytesReceived (KCP before),
            kd_ActiveOpens = KcpActiveOpens (KCP after) - KcpActiveOpens (KCP before),
            kd_PassiveOpens = KcpPassiveOpens (KCP after) - KcpPassiveOpens (KCP before),
            kd_InputErrors = InputErrors (KCP after) - InputErrors (KCP before),
            kd_ChecksumErrors = ChecksumErrors (KCP after) - ChecksumErrors (KCP before),
            kd_ProtocolInputErrors = ProtocolInputErrors (KCP after) - ProtocolInputErrors (KCP before),
            kd_PacketsReceived = PacketsReceived (KCP after) - PacketsReceived (KCP before),
            kd_PacketsSent = PacketsSent (KCP after) - PacketsSent (KCP before),
            kd_SegmentsReceived = SegmentsReceived (KCP after) - SegmentsReceived (KCP before),
            kd_SegmentsSent = SegmentsSent (KCP after) - SegmentsSent (KCP before),
            kd_InputBytes = InputBytes (KCP after) - InputBytes (KCP before),
            kd_OutputBytes = OutputBytes (KCP after) - OutputBytes (KCP before),
            kd_RetransmittedSegments = RetransmittedSegments (KCP after) - RetransmittedSegments (KCP before),
            kd_FastRetransmittedSegments = FastRetransmittedSegments (KCP after) - FastRetransmittedSegments (KCP before),
            kd_EarlyRetransmittedSegments = EarlyRetransmittedSegments (KCP after) - EarlyRetransmittedSegments (KCP before),
            kd_LostSegments = LostSegments (KCP after) - LostSegments (KCP before),
            kd_RepeatedSegments = RepeatedSegments (KCP after) - RepeatedSegments (KCP before),
            kd_FECRecoveredPackets = FECRecoveredPackets (KCP after) - FECRecoveredPackets (KCP before),
            kd_FECReportedErrors = FECReportedErrors (KCP after) - FECReportedErrors (KCP before),
            kd_FECParityShardsReceived = FECParityShardsReceived (KCP after) - FECParityShardsReceived (KCP before),
            kd_FECFullShardSets = FECFullShardSets (KCP after) - FECFullShardSets (KCP before)\<rparr>\<rparr>"

definition DiffMetrics :: "Snapshot \<Rightarrow> Snapshot \<Rightarrow> bench_error + MetricDelta" where
  "DiffMetrics before after =
     (case find (\<lambda>(_, b, a). b < 0 \<or> a < b) (intCounters before after) of
        Some (name, _, _) \<Rightarrow> Inl (CounterDecreased name)
      | None \<Rightarrow>
     (case find (\<lambda>(_, b, a). a < b) (uintCounters before after) of
        Some (name, _, _) \<Rightarrow> Inl (CounterDecreased name)
      | None \<Rightarrow> Inr (metric_delta before after)))"

text \<open>The values of a difference in the order of the tables.\<close>

definition delta_ints :: "MetricDelta \<Rightarrow> int list" where
  "delta_ints d = [md_ConnectionLimitRejections d, md_BackendLimitRejections d, md_PathReconnects d, md_SessionReconnects d, md_AuthFailures d, md_QueueDrops d]"

definition delta_uints :: "MetricDelta \<Rightarrow> u64 list" where
  "delta_uints d =
     [md_BytesRead d,
      md_BytesWritten d,
      md_ReadOperations d,
      md_WriteOperations d,
      md_ReadErrors d,
      md_WriteErrors d,
      md_WriteLatencySamples d,
      md_WriteLatencyTotalNanoseconds d,
      kd_ApplicationBytesSent (md_KCP d),
      kd_ApplicationBytesReceived (md_KCP d),
      kd_ActiveOpens (md_KCP d),
      kd_PassiveOpens (md_KCP d),
      kd_InputErrors (md_KCP d),
      kd_ChecksumErrors (md_KCP d),
      kd_ProtocolInputErrors (md_KCP d),
      kd_PacketsReceived (md_KCP d),
      kd_PacketsSent (md_KCP d),
      kd_SegmentsReceived (md_KCP d),
      kd_SegmentsSent (md_KCP d),
      kd_InputBytes (md_KCP d),
      kd_OutputBytes (md_KCP d),
      kd_RetransmittedSegments (md_KCP d),
      kd_FastRetransmittedSegments (md_KCP d),
      kd_EarlyRetransmittedSegments (md_KCP d),
      kd_LostSegments (md_KCP d),
      kd_RepeatedSegments (md_KCP d),
      kd_FECRecoveredPackets (md_KCP d),
      kd_FECReportedErrors (md_KCP d),
      kd_FECParityShardsReceived (md_KCP d),
      kd_FECFullShardSets (md_KCP d)]"

section \<open>The median lies in the middle\<close>

lemma valid_sample: "\<not> invalid_sample v \<Longrightarrow> \<exists>r. v = Fin r \<and> 0 \<le> r"
  by (cases v) (auto simp: invalid_sample_def IsInf_def float_lt_def less_float64_def)

lemma find_None_list_all: "find P xs = None \<longleftrightarrow> list_all (\<lambda>x. \<not> P x) xs"
  by (auto simp: find_None_iff list_all_iff)

text \<open>The middle element of an odd sample; of an even one a value between the two in the middle, which is again a float.\<close>

lemma median_middle:
  assumes "Median vs = Inr m" "list_all is_float vs"
  shows "sort vs ! ((length vs - 1) div 2) \<le> m" "m \<le> sort vs ! (length vs div 2)" "vs \<noteq> []"
    and "\<exists>r. m = Fin r \<and> 0 \<le> r" "is_float m" "list_all (\<lambda>v. \<not> invalid_sample v) vs"
proof -
  define srt where "srt = sort vs"
  have ne: "vs \<noteq> []" and ok: "list_all (\<lambda>v. \<not> invalid_sample v) vs"
    using assms(1) by (auto simp: Median_def find_None_list_all split: if_split_asm option.split_asm)
  have val: "\<exists>r. srt ! i = Fin r \<and> 0 \<le> r \<and> is_float (srt ! i)" if "i < length vs" for i
  proof -
    have "srt ! i \<in> set vs" using that by (metis srt_def length_sort nth_mem set_sort)
    then show ?thesis using ok assms(2) valid_sample unfolding list_all_iff by blast
  qed
  have "sort vs ! ((length vs - 1) div 2) \<le> m \<and> m \<le> sort vs ! (length vs div 2) \<and> (\<exists>r. m = Fin r \<and> 0 \<le> r) \<and> is_float m"
  proof (cases "length vs mod 2 = 1")
    case True
    then have "(length vs - 1) div 2 = length vs div 2" by presburger
    moreover have "m = srt ! (length vs div 2)"
      using assms(1) True by (auto simp: Median_def Let_def srt_def split: if_split_asm option.split_asm)
    ultimately show ?thesis using val [of "length vs div 2"] ne by (auto simp: srt_def)
  next
    case False
    define k where "k = length vs div 2"
    have "0 < length vs" using ne by simp
    then have k: "length vs = 2 * k" "0 < k" using False unfolding k_def by presburger+
    obtain l u where lu: "srt ! (k - 1) = Fin l" "0 \<le> l" "is_float (Fin l)" "srt ! k = Fin u" "is_float (Fin u)"
      using val [of "k - 1"] val [of k] k by (metis diff_less less_add_same_cancel1 mult_2 trans_less_add1 zero_less_one)
    have "srt ! (k - 1) \<le> srt ! k" using k by (intro sorted_nth_mono) (simp_all add: srt_def)
    then have le: "l \<le> u" using lu by simp
    have "m = float_add (Fin l) (float_halve (float_sub (Fin u) (Fin l)))"
      using assms(1) False lu by (auto simp: Median_def Let_def srt_def k_def split: if_split_asm option.split_asm)
    with midpoint_between [OF lu(3,5,2) le] obtain r where "m = Fin r" "is_float m" "l \<le> r" "r \<le> u" by metis
    moreover have "(length vs - 1) div 2 = k - 1" using k by presburger
    ultimately show ?thesis using lu by (auto simp: srt_def k_def)
  qed
  then show "sort vs ! ((length vs - 1) div 2) \<le> m" "m \<le> sort vs ! (length vs div 2)" "\<exists>r. m = Fin r \<and> 0 \<le> r" "is_float m" by auto
  show "vs \<noteq> []" "list_all (\<lambda>v. \<not> invalid_sample v) vs" by (fact ne, fact ok)
qed

lemma median_total: "vs \<noteq> [] \<Longrightarrow> list_all (\<lambda>v. \<not> invalid_sample v) vs \<Longrightarrow> \<exists>m. Median vs = Inr m"
  unfolding find_None_list_all [symmetric] by (auto simp: Median_def Let_def)

section \<open>Summaries cover every case once\<close>

lemma valid_case: "Case_Validate c = None \<longleftrightarrow> (Direction c = DirectionUpload \<or> Direction c = DirectionDownload) \<and> 1 \<le> Parallel c \<and> Parallel c \<le> 128"
  by (auto simp: Case_Validate_def)

lemma case_key_less:
  "Case_Validate a = None \<Longrightarrow> Case_Validate b = None \<Longrightarrow> case_less a b \<longleftrightarrow> case_key a < case_key b"
  by (auto simp: valid_case case_less_def case_key_def directionOrder_def DirectionUpload_def DirectionDownload_def)

lemma case_key_inj:
  "Case_Validate a = None \<Longrightarrow> Case_Validate b = None \<Longrightarrow> case_key a = case_key b \<Longrightarrow> a = b"
  by (auto simp: valid_case case_key_def directionOrder_def DirectionUpload_def DirectionDownload_def split: if_split_asm)

lemma sorted_cases_spec:
  assumes "\<forall>c \<in> set cs. Case_Validate c = None"
  shows "set (sorted_cases cs) = set cs" "distinct (sorted_cases cs)" "sorted_wrt case_less (sorted_cases cs)"
proof -
  let ?s = "sorted_cases cs"
  show set: "set ?s = set cs" and dist: "distinct ?s" by (simp_all add: sorted_cases_def)
  have "inj_on case_key (set ?s)" unfolding set using assms case_key_inj by (blast intro: inj_onI)
  then have "distinct (map case_key ?s)" using dist by (simp add: distinct_map)
  moreover have "sorted (map case_key ?s)" by (simp add: sorted_cases_def)
  ultimately have "sorted_wrt (<) (map case_key ?s)" by (simp add: strict_sorted_iff)
  then have "sorted_wrt (\<lambda>a b. case_key a < case_key b) ?s" by (simp add: sorted_wrt_map)
  then show "sorted_wrt case_less ?s" by (rule sorted_wrt_mono_rel [rotated]) (use set assms case_key_less in blast)
qed

lemma map_result_Inr: "map_result f xs = Inr ys \<Longrightarrow> list_all2 (\<lambda>x y. f x = Inr y) xs ys"
  by (induction xs arbitrary: ys) (auto split: sum.split_asm)

lemma map_result_Inl: "map_result f xs = Inl e \<Longrightarrow> \<exists>x \<in> set xs. f x = Inl e"
  by (induction xs) (auto split: sum.split_asm)

lemma retransmits_valid: "list_all (\<lambda>v. \<not> invalid_sample v \<and> is_float v) (map (\<lambda>m. float_of (of_int (uint (f m :: u64)))) ms)"
proof -
  have "\<not> invalid_sample (float_of (of_int (uint w))) \<and> is_float (float_of (of_int (uint w)))" for w :: u64
    using float_of_nonneg_int [of "uint w"] uint_lt2p [of w]
    by (auto simp: invalid_sample_def IsInf_def float_lt_def less_float64_def)
  then show ?thesis by (simp add: list_all_iff)
qed

text \<open>What a summary says of the runs of its case.\<close>

definition summary_ok :: "Measurement list \<Rightarrow> CaseSummary \<Rightarrow> bool" where
  "summary_ok runs s \<longleftrightarrow>
     3 \<le> length runs \<and> cs_Runs s = int (length runs) \<and>
     (let rates = map (\<lambda>m. BitsPerSecond (m_IPerf m)) runs in
      MinimumBitsPerSecond s = Min (set rates) \<and> MaximumBitsPerSecond s = Max (set rates) \<and>
      list_all (\<lambda>v. \<not> invalid_sample v) rates \<and>
      sort rates ! ((length rates - 1) div 2) \<le> MedianBitsPerSecond s \<and> MedianBitsPerSecond s \<le> sort rates ! (length rates div 2))"

lemma sort_ends:
  assumes "xs \<noteq> []"
  shows "sort xs ! 0 = Min (set xs)" "sort xs ! (length xs - 1) = Max (set xs)"
proof -
  define s where "s = sort xs"
  have s: "sorted s" "s \<noteq> []" "set xs = set s" "length xs = length s" using assms by (auto simp: s_def simp flip: length_greater_0_conv)
  have "s ! 0 \<le> x" "x \<le> s ! (length s - 1)" if "x \<in> set s" for x
    using that s(1) by (auto simp: in_set_conv_nth intro: sorted_nth_mono)
  then show "sort xs ! 0 = Min (set xs)" "sort xs ! (length xs - 1) = Max (set xs)"
    unfolding s_def [symmetric] s(3,4) using s(2) by (auto intro!: Min_eqI [symmetric] Max_eqI [symmetric])
qed

lemma summarize_case_ok:
  assumes "summarize_case c runs = Inr s" "list_all (\<lambda>m. is_float (BitsPerSecond (m_IPerf m))) runs"
  shows "cs_Case s = c" "summary_ok runs s"
proof -
  let ?rates = "map (\<lambda>m. BitsPerSecond (m_IPerf m)) runs"
  from assms(1) have len: "3 \<le> length runs" and med: "Median ?rates = Inr (MedianBitsPerSecond s)"
    and s: "cs_Case s = c" "cs_Runs s = int (length runs)" "MinimumBitsPerSecond s = sort ?rates ! 0"
      "MaximumBitsPerSecond s = sort ?rates ! (length ?rates - 1)"
    by (auto simp: summarize_case_def MinimumRuns_def Let_def split: if_split_asm sum.split_asm)
  show "cs_Case s = c" by (rule s)
  have fl: "list_all is_float ?rates" using assms(2) by (simp add: list_all_iff)
  note mm = median_middle [OF med fl]
  show "summary_ok runs s"
    unfolding summary_ok_def Let_def s sort_ends [OF mm(3)] using len mm(1,2,6) by simp
qed

lemma summarize_case_fails:
  assumes "summarize_case c runs = Inl e"
  shows "length runs < 3 \<or> (\<exists>m \<in> set runs. invalid_sample (BitsPerSecond (m_IPerf m)))"
proof (rule ccontr)
  assume no: "\<not> ?thesis"
  let ?rates = "map (\<lambda>m. BitsPerSecond (m_IPerf m)) runs"
  let ?retr = "map (\<lambda>m. float_of (of_int (uint (ip_RetransmittedSegments (m_IPerf m))))) runs"
  have "runs \<noteq> []" using no by auto
  then obtain m n where "Median ?rates = Inr m" "Median ?retr = Inr n"
    using median_total [of ?rates] median_total [of ?retr] no retransmits_valid [of "\<lambda>m. ip_RetransmittedSegments (m_IPerf m)" runs]
    by (auto simp: list_all_iff)
  then show False using assms no by (auto simp: summarize_case_def MinimumRuns_def Let_def)
qed

lemma summarize_case_fields: "summarize_case c runs = Inr s \<Longrightarrow> cs_Case s = c \<and> cs_Runs s = int (length runs)"
  by (auto simp: summarize_case_def Let_def split: if_split_asm sum.split_asm)

text \<open>When \<open>Summarize\<close> goes through the cases.\<close>

lemma Summarize_map:
  assumes "\<forall>m \<in> set ms. Case_Validate (m_Case m) = None" "ms \<noteq> []"
  shows "Summarize ms = map_result (\<lambda>c. summarize_case c (filter (\<lambda>m. m_Case m = c) ms)) (sorted_cases (map m_Case ms))"
    and "set (sorted_cases (map m_Case ms)) = set (map m_Case ms)" "sorted_wrt case_less (sorted_cases (map m_Case ms))"
proof -
  have "find (\<lambda>m. Case_Validate (m_Case m) \<noteq> None) ms = None" using assms(1) by (auto simp: find_None_iff)
  then show "Summarize ms = map_result (\<lambda>c. summarize_case c (filter (\<lambda>m. m_Case m = c) ms)) (sorted_cases (map m_Case ms))"
    using assms(2) by (simp add: Summarize_def)
  have "\<forall>c \<in> set (map m_Case ms). Case_Validate c = None" using assms(1) by simp
  from sorted_cases_spec(1,3) [OF this]
  show "set (sorted_cases (map m_Case ms)) = set (map m_Case ms)" "sorted_wrt case_less (sorted_cases (map m_Case ms))" .
qed

lemma Summarize_Inl:
  assumes "Summarize ms = Inl e"
  shows "ms = [] \<or> (\<exists>m \<in> set ms. Case_Validate (m_Case m) \<noteq> None \<or> length (filter (\<lambda>x. m_Case x = m_Case m) ms) < 3 \<or>
    invalid_sample (BitsPerSecond (m_IPerf m)))"
proof (cases "ms = [] \<or> (\<exists>m \<in> set ms. Case_Validate (m_Case m) \<noteq> None)")
  case True
  then show ?thesis by blast
next
  case False
  then have "\<forall>m \<in> set ms. Case_Validate (m_Case m) = None" "ms \<noteq> []" by auto
  note map = Summarize_map [OF this]
  obtain c where c: "c \<in> set (sorted_cases (map m_Case ms))" and fc: "summarize_case c (filter (\<lambda>m. m_Case m = c) ms) = Inl e"
    using map_result_Inl [of _ _ e] assms unfolding map(1) by blast
  obtain m where m: "m \<in> set ms" "c = m_Case m" using c unfolding map(2) set_map by blast
  show ?thesis using summarize_case_fails [OF fc] m unfolding set_filter by blast
qed

lemma Summarize_Inr:
  assumes "Summarize ms = Inr ss"
  shows "sorted_wrt case_less (map cs_Case ss)" "set (map cs_Case ss) = set (map m_Case ms)"
    and "s \<in> set ss \<Longrightarrow> summarize_case (cs_Case s) (filter (\<lambda>m. m_Case m = cs_Case s) ms) = Inr s"
proof -
  let ?cs = "sorted_cases (map m_Case ms)" and ?f = "\<lambda>c. summarize_case c (filter (\<lambda>m. m_Case m = c) ms)"
  have "ms \<noteq> []" "\<forall>m \<in> set ms. Case_Validate (m_Case m) = None"
    using assms by (auto simp: Summarize_def find_None_iff split: option.split_asm if_split_asm)
  note map = Summarize_map [OF this(2,1)]
  have all2: "list_all2 (\<lambda>c s. ?f c = Inr s) ?cs ss" using map_result_Inr assms unfolding map(1) .
  have nth: "?f (?cs ! i) = Inr (ss ! i)" if "i < length ss" for i
    using all2 that unfolding list_all2_conv_all_nth by simp
  have eq: "map cs_Case ss = ?cs"
  proof (rule nth_equalityI)
    show "length (map cs_Case ss) = length ?cs" using all2 by (simp add: list_all2_lengthD)
    show "map cs_Case ss ! i = ?cs ! i" if "i < length (map cs_Case ss)" for i
      using summarize_case_fields [OF nth [of i]] that by simp
  qed
  show "sorted_wrt case_less (map cs_Case ss)" "set (map cs_Case ss) = set (map m_Case ms)" unfolding eq by (fact map)+
  show "?f (cs_Case s) = Inr s" if s: "s \<in> set ss"
  proof -
    obtain i where i: "i < length ss" "s = ss ! i" using s unfolding in_set_conv_nth by blast
    then show ?thesis using nth [OF i(1)] summarize_case_fields [OF nth [OF i(1)]] by simp
  qed
qed

text \<open>
  C29. Benchmark summaries are right. From measurements whose rates are floats, \<open>Summarize\<close> gives one summary per measured case,
  in order of direction and number of flows; each counts all runs of its case, at least three, gives their true minimum and
  maximum, and a median that lies between the two middle values, rounding of the arithmetic included. It fails only if there is no measurement,
  or one with an invalid case, a case with fewer than three runs, or a rate that is not a finite number from zero on.
\<close>

theorem bench_summaries:
  assumes "list_all (\<lambda>m. is_float (BitsPerSecond (m_IPerf m))) ms"
  shows "case Summarize ms of
      Inr ss \<Rightarrow> sorted_wrt case_less (map cs_Case ss) \<and> set (map cs_Case ss) = set (map m_Case ms) \<and>
        (\<forall>s \<in> set ss. summary_ok (filter (\<lambda>m. m_Case m = cs_Case s) ms) s)
    | Inl _ \<Rightarrow> ms = [] \<or> (\<exists>m \<in> set ms. Case_Validate (m_Case m) \<noteq> None \<or> length (filter (\<lambda>x. m_Case x = m_Case m) ms) < 3 \<or>
        invalid_sample (BitsPerSecond (m_IPerf m)))"
proof (cases "Summarize ms")
  case (Inl e)
  then show ?thesis using Summarize_Inl [OF Inl] by simp
next
  case (Inr ss)
  have "summary_ok (filter (\<lambda>m. m_Case m = cs_Case s) ms) s" if "s \<in> set ss" for s
    using summarize_case_ok(2) [OF Summarize_Inr(3) [OF Inr that]] assms by (simp add: list_all_iff)
  then show ?thesis using Summarize_Inr(1,2) [OF Inr] unfolding Inr by simp
qed

definition example_measurement :: "int \<Rightarrow> Measurement" where
  "example_measurement n = \<lparr>m_Case = \<lparr>Direction = ''upload'', Parallel = 8\<rparr>,
     m_IPerf = \<lparr>ip_Version = [], ip_System = [], Protocol = ''TCP'', RequestedStreams = 8, Reverse = False, ip_Seconds = Fin 20,
       SentBytes = 0, ReceivedBytes = 0, SenderBitsPerSecond = Fin (of_int n), BitsPerSecond = Fin (of_int n),
       ip_RetransmittedSegments = 2, HostCPUPercent = Fin 1, RemoteCPUPercent = Fin 1, SenderTCPCongestionControl = []\<rparr>\<rparr>"

lemma example_rate: "0 \<le> n \<Longrightarrow> n \<le> 1000 \<Longrightarrow> is_float (BitsPerSecond (m_IPerf (example_measurement n)))"
proof -
  assume n: "0 \<le> n" "n \<le> 1000"
  have "round64 (of_int n) = of_int n" using n by (intro mantissa_exact [of _ n 0]) simp_all
  moreover have "(of_int n :: rat) < 2 ^ 1024" "- (2 ^ 1024) < (of_int n :: rat)"
    using n by (auto intro: order_le_less_trans [of _ "of_int 1000"] order_less_le_trans [of _ "of_int 0"])
  ultimately show ?thesis by (simp add: example_measurement_def is_float_def)
qed

theorem bench_summaries_witness:
  "\<exists>s. Summarize (map example_measurement [40, 10, 20, 30]) = Inr [s] \<and> cs_Runs s = 4 \<and>
     MinimumBitsPerSecond s = Fin 10 \<and> MaximumBitsPerSecond s = Fin 40 \<and> Fin 20 \<le> MedianBitsPerSecond s \<and> MedianBitsPerSecond s \<le> Fin 30"
proof -
  let ?ms = "map example_measurement [40, 10, 20, 30]" and ?c = "\<lparr>Direction = ''upload'', Parallel = 8\<rparr>"
  have cases: "m_Case (example_measurement n) = ?c" for n by (simp add: example_measurement_def)
  have rates: "map (\<lambda>m. BitsPerSecond (m_IPerf m)) ?ms = [Fin 40, Fin 10, Fin 20, Fin 30]" by (simp add: example_measurement_def)
  have fl: "list_all (\<lambda>m. is_float (BitsPerSecond (m_IPerf m))) ?ms" using example_rate by simp
  note main = bench_summaries [OF fl]
  have "\<not> isl (Summarize ?ms)"
    using main by (cases "Summarize ?ms")
      (auto simp: cases Case_Validate_def DirectionUpload_def example_measurement_def invalid_sample_def IsInf_def float_lt_def less_float64_def)
  then obtain ss where ss: "Summarize ?ms = Inr ss" by (cases "Summarize ?ms") auto
  then have props: "sorted_wrt case_less (map cs_Case ss)" "set (map cs_Case ss) = {?c}"
    "\<forall>s \<in> set ss. summary_ok (filter (\<lambda>m. m_Case m = cs_Case s) ?ms) s"
    using main by (simp_all add: cases)
  have irr: "\<not> case_less ?c ?c" by (simp add: case_less_def)
  obtain s where s: "ss = [s]" "cs_Case s = ?c"
  proof (cases ss rule: list.exhaust)
    case Nil
    then show ?thesis using props(2) by simp
  next
    case (Cons s rest)
    have "rest = []" using props(1,2) irr unfolding Cons by (cases rest) auto
    then show ?thesis using that [of s] props(2) Cons by simp
  qed
  have "summary_ok ?ms s" using props(3) s by (simp add: cases)
  moreover have "sort [Fin 40, Fin 10, Fin 20, Fin 30] = [Fin 10, Fin 20, Fin 30, Fin 40]" by (simp add: less_eq_float64_def)
  ultimately show ?thesis
    unfolding summary_ok_def Let_def rates ss s(1) by (intro exI [of _ s]) (auto simp: min_def max_def less_eq_float64_def)
qed

text \<open>A difference of snapshots accounts for every counter, without wrap-around, and is refused exactly when a counter went back.\<close>

lemma delta_tables:
  "delta_ints (metric_delta before after) = map (\<lambda>(_, b, a). a - b) (intCounters before after)"
  "delta_uints (metric_delta before after) = map (\<lambda>(_, b, a). a - b) (uintCounters before after)"
  by (simp_all only: delta_ints_def delta_uints_def metric_delta_def intCounters_def uintCounters_def list.map prod.case
      MetricDelta.select_convs KCPCounterDelta.select_convs)

lemma find_entry: "find P xs = None \<longleftrightarrow> (\<forall>x \<in> set xs. \<not> P x)"
  by (auto simp: find_None_iff)

lemma DiffMetrics_Inr:
  "DiffMetrics before after = Inr d \<longleftrightarrow> d = metric_delta before after \<and>
     find (\<lambda>(_, b, a). b < 0 \<or> a < b) (intCounters before after) = None \<and>
     find (\<lambda>(_, b, a). a < b) (uintCounters before after) = None"
  unfolding DiffMetrics_def
  by (cases "find (\<lambda>(_, b, a). b < 0 \<or> a < b) (intCounters before after)";
      cases "find (\<lambda>(_, b, a). a < b) (uintCounters before after)") auto

lemma diff_metrics_adds:
  assumes "DiffMetrics before after = Inr d"
  shows "list_all2 (\<lambda>(_, b, a) v. b + v = a) (intCounters before after) (delta_ints d)"
    and "list_all2 (\<lambda>(_, b, a) v. uint b + uint v = uint a) (uintCounters before after) (delta_uints d)"
proof -
  have d: "d = metric_delta before after" and fine: "\<forall>x \<in> set (uintCounters before after). \<not> (case x of (_, b, a) \<Rightarrow> a < b)"
    using assms unfolding DiffMetrics_Inr find_entry by blast+
  have sub: "uint b + uint (a - b) = uint a" if "\<not> a < b" for a b :: u64
    using that by (simp add: uint_minus_simple_alt not_less)
  have ints: "list_all2 (\<lambda>(_, b, a) v. b + v = a) xs (map (\<lambda>(_, b, a). a - b) xs)" for xs :: "(string \<times> int \<times> int) list"
    by (induction xs) auto
  have uints: "\<forall>x \<in> set xs. \<not> (case x of (_, b, a) \<Rightarrow> a < b) \<Longrightarrow>
      list_all2 (\<lambda>(_, b, a) v. uint b + uint v = uint a) xs (map (\<lambda>(_, b, a). a - b) xs)" for xs :: "(string \<times> u64 \<times> u64) list"
    by (induction xs) (auto simp: sub)
  show "list_all2 (\<lambda>(_, b, a) v. b + v = a) (intCounters before after) (delta_ints d)"
    unfolding d delta_tables by (rule ints)
  show "list_all2 (\<lambda>(_, b, a) v. uint b + uint v = uint a) (uintCounters before after) (delta_uints d)"
    unfolding d delta_tables by (rule uints [OF fine])
qed

end
