(* ===== verification/Bench_Harness.thy ===== *)
theory Bench_Harness
  imports Bench_Stats
begin

text \<open>
  The benchmark harness of \<open>src/baseline/runner.go\<close>: what a run's configuration must satisfy, and the run itself. iperf3, the
  metrics endpoint, the clock, sleeping and the file system are outcomes of the environment, given for each operation of the matrix; the harness'
  effects are the report, the copy of it on disk, and the log of what it ran, wrote and waited for.
\<close>

section \<open>Configuration\<close>

definition ns_second :: int where "ns_second = 1000000000"

record RunConfig =
  rc_Scenario :: Scenario
  rc_Revision :: string
  rc_Target :: string
  rc_IPerfExecutable :: string
  rc_DiagnosticsURL :: string
  rc_OutputDirectory :: string
  rc_Runs :: int
  rc_WarmupRuns :: int
  rc_DurationSeconds :: int
  rc_Settle :: int
  rc_Cooldown :: int
  rc_Cases :: "bench_case list"
  rc_Notes :: string

datatype op_error = MetricsBeforeFailed | MetricsAfterFailed | CommandFailed | BadResult bench_error

datatype run_error =
    BadScenario bench_error | BadRevision | BadRunTarget | BadRunPort | NoExecutable | NoDiagnosticsURL | NoOutputDirectory
  | BadRunCount | BadWarmupCount | BadRunDuration | BadSettle | BadCooldown | NoCases | BadCase bench_error
  | DuplicateCase string | NotesTooLong
  | NilContext | NilDependencies | OutputExists | OutputUnchecked | VersionFailed | InitialFetchFailed
  | NoActiveSession | NoActivePath | OutputNotCreated | WriteFailed string
  | WarmupFailed string int op_error | RunFailed string int op_error | SleepInterrupted | SummaryFailed bench_error

fun validate_cases :: "bench_case list \<Rightarrow> bench_case list \<Rightarrow> run_error option" where
  "validate_cases seen [] = None"
| "validate_cases seen (c # cs) =
     (case Case_Validate c of
        Some e \<Rightarrow> Some (BadCase e)
      | None \<Rightarrow> if c \<in> set seen then Some (DuplicateCase (Slug c)) else validate_cases (c # seen) cs)"

definition RunConfig_Validate :: "RunConfig \<Rightarrow> run_error option" where
  "RunConfig_Validate c =
     (case Scenario_Validate (rc_Scenario c) of
        Some e \<Rightarrow> Some (BadScenario e)
      | None \<Rightarrow>
          if TrimSpace (rc_Revision c) = [] \<or> length (rc_Revision c) > 128 then Some BadRevision
          else case SplitHostPort (rc_Target c) of
            None \<Rightarrow> Some BadRunTarget
          | Some (host, rawPort) \<Rightarrow>
              if TrimSpace host = [] \<or> host \<noteq> TrimSpace host then Some BadRunTarget
              else if (case Atoi rawPort of None \<Rightarrow> True | Some port \<Rightarrow> port < 1 \<or> port > 65535) then Some BadRunPort
              else if TrimSpace (rc_IPerfExecutable c) = [] then Some NoExecutable
              else if TrimSpace (rc_DiagnosticsURL c) = [] then Some NoDiagnosticsURL
              else if TrimSpace (rc_OutputDirectory c) = [] then Some NoOutputDirectory
              else if rc_Runs c < MinimumRuns \<or> rc_Runs c > 20 then Some BadRunCount
              else if rc_WarmupRuns c < 0 \<or> rc_WarmupRuns c > 5 then Some BadWarmupCount
              else if rc_DurationSeconds c < 1 \<or> rc_DurationSeconds c > 300 then Some BadRunDuration
              else if rc_Settle c < 0 \<or> rc_Settle c > 30 * ns_second then Some BadSettle
              else if rc_Cooldown c < 0 \<or> rc_Cooldown c > 300 * ns_second then Some BadCooldown
              else if rc_Cases c = [] then Some NoCases
              else case validate_cases [] (rc_Cases c) of
                Some e \<Rightarrow> Some e
              | None \<Rightarrow> if length (rc_Notes c) > 4096 then Some NotesTooLong else None)"

section \<open>Reports\<close>

record CommandResult =
  Arguments :: "string list"
  Stdout :: string
  Stderr :: string

record ArtifactFiles =
  IPerfJSON :: string
  IPerfStderr :: string
  MetricsBefore :: string
  MetricsAfter :: string

record WarmupRecord =
  wr_Case :: bench_case
  wr_Index :: int
  wr_StartedAt :: int
  wr_FinishedAt :: int
  wr_Arguments :: "string list"
  wr_IPerf :: IPerfSummary
  wr_Files :: ArtifactFiles

record RunRecord =
  run_Case :: bench_case
  run_Index :: int
  run_StartedAt :: int
  run_FinishedAt :: int
  run_Arguments :: "string list"
  run_IPerf :: IPerfSummary
  MetricsDelta :: MetricDelta
  run_Files :: ArtifactFiles

record Report =
  SchemaVersion :: int
  Status :: string
  rep_Error :: "run_error option"
  rep_Scenario :: Scenario
  rep_Revision :: string
  rep_Target :: string
  rep_IPerfExecutable :: string
  IPerfVersion :: string
  rep_DiagnosticsURL :: string
  RunsRequested :: int
  rep_WarmupRuns :: int
  rep_DurationSeconds :: int
  rep_Settle :: int
  rep_Cooldown :: int
  rep_Cases :: "bench_case list"
  rep_Notes :: string
  StartedAt :: int
  FinishedAt :: "int option"
  InitialMetrics :: string
  Warmups :: "WarmupRecord list"
  Runs :: "RunRecord list"
  Summaries :: "CaseSummary list"

section \<open>The environment and the effects\<close>

text \<open>What happens around one operation of the matrix. \<open>None\<close> is a failed fetch; the Booleans say whether the call succeeds.\<close>

record op_outcome =
  oo_before :: "Snapshot option"
  oo_started :: int
  oo_result :: CommandResult
  oo_command :: bool
  oo_finished :: int
  oo_settled :: bool
  oo_after :: "Snapshot option"
  oo_persisted :: bool
  oo_cooled :: bool

datatype output_state = OutputFree | OutputTaken | OutputUnknown

text \<open>\<open>he_op\<close>: measured or warm-up, case, index. \<open>he_decode\<close> is the JSON decoder on iperf3's output.\<close>

record harness_env =
  he_ctx_nil :: bool
  he_deps_nil :: bool
  he_output :: output_state
  he_version :: "string option"
  he_initial :: "Snapshot option"
  he_mkdir :: bool
  he_start :: int
  he_initial_written :: bool
  he_report_created :: bool
  he_write :: "string \<Rightarrow> bool"
  he_decode :: "string \<Rightarrow> iperfDocument option \<times> json_trailer"
  he_op :: "bool \<Rightarrow> bench_case \<Rightarrow> int \<Rightarrow> op_outcome"
  he_end :: int
  he_end_persisted :: bool

datatype bench_event = FetchedMetrics | RanIPerf bench_case int | SleptFor int | WroteFile string

record harness_state =
  hs_report :: Report
  hs_disk :: "Report option"
  hs_log :: "bench_event list"
  hs_completed :: int

definition log_events :: "bench_event list \<Rightarrow> harness_state \<Rightarrow> harness_state" where
  "log_events evs w = w\<lparr>hs_log := hs_log w @ evs\<rparr>"

definition persistReport :: "bool \<Rightarrow> harness_state \<Rightarrow> run_error option \<times> harness_state" where
  "persistReport ok w =
     (if ok then (None, w\<lparr>hs_disk := Some (hs_report w)\<rparr>) else (Some (WriteFailed ''report.json''), w))"

text \<open>Files written one after the other, up to the first that cannot be.\<close>

fun write_files :: "(string \<Rightarrow> bool) \<Rightarrow> string list \<Rightarrow> harness_state \<Rightarrow> run_error option \<times> harness_state" where
  "write_files can [] w = (None, w)"
| "write_files can (f # fs) w = (if can f then write_files can fs (log_events [WroteFile f] w) else (Some (WriteFailed f), w))"

definition writeIPerfArtifacts ::
  "(string \<Rightarrow> bool) \<Rightarrow> string \<Rightarrow> harness_state \<Rightarrow> run_error option \<times> ArtifactFiles \<times> harness_state" where
  "writeIPerfArtifacts can stem w =
     (let files = \<lparr>IPerfJSON = stem @ ''.iperf.json'', IPerfStderr = stem @ ''.iperf.stderr.txt'', MetricsBefore = [], MetricsAfter = []\<rparr>;
          (e, w') = write_files can [IPerfJSON files, IPerfStderr files] w in (e, files, w'))"

definition writeRunArtifacts ::
  "(string \<Rightarrow> bool) \<Rightarrow> string \<Rightarrow> Snapshot option \<Rightarrow> harness_state \<Rightarrow> run_error option \<times> ArtifactFiles \<times> harness_state" where
  "writeRunArtifacts can stem after w =
     (case writeIPerfArtifacts can stem w of
        (Some e, files, w1) \<Rightarrow> (Some e, files, w1)
      | (None, files, w1) \<Rightarrow>
          let files' = files\<lparr>MetricsBefore := stem @ ''.metrics-before.json'',
                             MetricsAfter := (if after = None then [] else stem @ ''.metrics-after.json'')\<rparr>;
              (e, w2) = write_files can (MetricsBefore files' # (if after = None then [] else [MetricsAfter files'])) w1
          in (e, files', w2))"

definition pad2 :: "int \<Rightarrow> string" where
  "pad2 i = (if 0 \<le> i \<and> i < 10 then ''0'' @ Itoa i else Itoa i)"

section \<open>The run\<close>

definition validateReady :: "Scenario \<Rightarrow> Snapshot \<Rightarrow> run_error option" where
  "validateReady scenario snapshot =
     (if ActiveSessions snapshot < 1 then Some NoActiveSession
      else if ProxyMode scenario = ''bond'' \<and> ActivePaths snapshot < 1 then Some NoActivePath
      else None)"

definition total_operations :: "RunConfig \<Rightarrow> int" where
  "total_operations c = int (length (rc_Cases c)) * (rc_WarmupRuns c + rc_Runs c)"

text \<open>The end of an operation: the report is saved, then the pause unless this was the last operation.\<close>

definition finish_op :: "RunConfig \<Rightarrow> op_outcome \<Rightarrow> harness_state \<Rightarrow> run_error option \<times> harness_state" where
  "finish_op config out w =
     (let w1 = w\<lparr>hs_completed := hs_completed w + 1\<rparr> in
      case persistReport (oo_persisted out) w1 of
        (Some e, w2) \<Rightarrow> (Some e, w2)
      | (None, w2) \<Rightarrow>
          if hs_completed w2 < total_operations config \<and> 0 < rc_Cooldown config then
            if oo_cooled out then (None, log_events [SleptFor (rc_Cooldown config)] w2) else (Some SleepInterrupted, w2)
          else (None, w2))"

definition warmup_op :: "RunConfig \<Rightarrow> harness_env \<Rightarrow> bench_case \<Rightarrow> int \<Rightarrow> harness_state \<Rightarrow> run_error option \<times> harness_state" where
  "warmup_op config env c index w =
     (let out = he_op env False c index;
          w1 = log_events [RanIPerf c (rc_DurationSeconds config)] w in
      case writeIPerfArtifacts (he_write env) (''warmup-'' @ Slug c @ ''-'' @ pad2 index) w1 of
        (Some e, _, w2) \<Rightarrow> (Some e, w2)
      | (None, files, w2) \<Rightarrow>
          if \<not> oo_command out then (Some (WarmupFailed (Slug c) index CommandFailed), w2)
          else case ParseIPerfJSON (he_decode env (Stdout (oo_result out))) of
            Inl e \<Rightarrow> (Some (WarmupFailed (Slug c) index (BadResult e)), w2)
          | Inr summary \<Rightarrow>
              (case validateIPerfCase c summary of
                 Some e \<Rightarrow> (Some (WarmupFailed (Slug c) index (BadResult e)), w2)
               | None \<Rightarrow>
                   finish_op config out
                     (w2\<lparr>hs_report := (hs_report w2)\<lparr>Warmups := Warmups (hs_report w2) @
                        [\<lparr>wr_Case = c, wr_Index = index, wr_StartedAt = oo_started out, wr_FinishedAt = oo_finished out,
                          wr_Arguments = Arguments (oo_result out), wr_IPerf = summary, wr_Files = files\<rparr>]\<rparr>\<rparr>)))"

text \<open>The pause and the snapshot after a measured run: the snapshot, if there is one.\<close>

definition settle_and_fetch :: "RunConfig \<Rightarrow> op_outcome \<Rightarrow> harness_state \<Rightarrow> Snapshot option \<times> harness_state" where
  "settle_and_fetch config out w =
     (if 0 < rc_Settle config \<and> \<not> oo_settled out then (None, w)
      else (oo_after out, log_events ((if 0 < rc_Settle config then [SleptFor (rc_Settle config)] else []) @ [FetchedMetrics]) w))"

definition measured_op :: "RunConfig \<Rightarrow> harness_env \<Rightarrow> bench_case \<Rightarrow> int \<Rightarrow> harness_state \<Rightarrow> run_error option \<times> harness_state" where
  "measured_op config env c index w =
     (let out = he_op env True c index; w0 = log_events [FetchedMetrics] w in
      case oo_before out of
        None \<Rightarrow> (Some (RunFailed (Slug c) index MetricsBeforeFailed), w0)
      | Some before \<Rightarrow>
          let w1 = log_events [RanIPerf c (rc_DurationSeconds config)] w0; (after, w2) = settle_and_fetch config out w1 in
          (case writeRunArtifacts (he_write env) (''run-'' @ Slug c @ ''-'' @ pad2 index) after w2 of
             (Some e, _, w3) \<Rightarrow> (Some e, w3)
           | (None, files, w3) \<Rightarrow>
               if \<not> oo_command out then (Some (RunFailed (Slug c) index CommandFailed), w3)
               else case after of
                 None \<Rightarrow> (Some (RunFailed (Slug c) index MetricsAfterFailed), w3)
               | Some afterSnapshot \<Rightarrow>
                   (case ParseIPerfJSON (he_decode env (Stdout (oo_result out))) of
                      Inl e \<Rightarrow> (Some (RunFailed (Slug c) index (BadResult e)), w3)
                    | Inr summary \<Rightarrow>
                        (case validateIPerfCase c summary of
                           Some e \<Rightarrow> (Some (RunFailed (Slug c) index (BadResult e)), w3)
                         | None \<Rightarrow>
                             (case DiffMetrics before afterSnapshot of
                                Inl e \<Rightarrow> (Some (RunFailed (Slug c) index (BadResult e)), w3)
                              | Inr delta \<Rightarrow>
                                  finish_op config out
                                    (w3\<lparr>hs_report := (hs_report w3)\<lparr>Runs := Runs (hs_report w3) @
                                       [\<lparr>run_Case = c, run_Index = index, run_StartedAt = oo_started out,
                                         run_FinishedAt = oo_finished out, run_Arguments = Arguments (oo_result out),
                                         run_IPerf = summary, MetricsDelta = delta, run_Files = files\<rparr>]\<rparr>\<rparr>))))))"

datatype matrix_op = WarmupOp bench_case int | RunOp bench_case int

text \<open>The two nested loops: case by case, the warm-ups, then the measured runs.\<close>

definition matrix_ops :: "RunConfig \<Rightarrow> matrix_op list" where
  "matrix_ops config =
     concat (map (\<lambda>c. map (WarmupOp c) [1..rc_WarmupRuns config] @ map (RunOp c) [1..rc_Runs config]) (rc_Cases config))"

fun run_op :: "RunConfig \<Rightarrow> harness_env \<Rightarrow> matrix_op \<Rightarrow> harness_state \<Rightarrow> run_error option \<times> harness_state" where
  "run_op config env (WarmupOp c i) w = warmup_op config env c i w"
| "run_op config env (RunOp c i) w = measured_op config env c i w"

fun run_matrix :: "RunConfig \<Rightarrow> harness_env \<Rightarrow> matrix_op list \<Rightarrow> harness_state \<Rightarrow> run_error option \<times> harness_state" where
  "run_matrix config env [] w = (None, w)"
| "run_matrix config env (op # ops) w =
     (case run_op config env op w of
        (Some e, w') \<Rightarrow> (Some e, w')
      | (None, w') \<Rightarrow> run_matrix config env ops w')"

definition initial_report :: "RunConfig \<Rightarrow> harness_env \<Rightarrow> string \<Rightarrow> Report" where
  "initial_report config env version =
     \<lparr>SchemaVersion = 1, Status = ''running'', rep_Error = None, rep_Scenario = rc_Scenario config,
      rep_Revision = rc_Revision config, rep_Target = rc_Target config, rep_IPerfExecutable = rc_IPerfExecutable config,
      IPerfVersion = TrimSpace version, rep_DiagnosticsURL = rc_DiagnosticsURL config, RunsRequested = rc_Runs config,
      rep_WarmupRuns = rc_WarmupRuns config, rep_DurationSeconds = rc_DurationSeconds config, rep_Settle = rc_Settle config,
      rep_Cooldown = rc_Cooldown config, rep_Cases = rc_Cases config, rep_Notes = rc_Notes config, StartedAt = he_start env,
      FinishedAt = None, InitialMetrics = ''initial.metrics.json'', Warmups = [], Runs = [], Summaries = []\<rparr>"

record run_result =
  rr_report :: "Report option"
  rr_errors :: "run_error list"
  rr_disk :: "Report option"
  rr_log :: "bench_event list"

definition no_report :: "run_error \<Rightarrow> bench_event list \<Rightarrow> run_result" where
  "no_report e evs = \<lparr>rr_report = None, rr_errors = [e], rr_disk = None, rr_log = evs\<rparr>"

text \<open>\<open>fail\<close>: the report becomes a failed one and is saved; an error of saving is joined to the first.\<close>

definition fail_run :: "harness_env \<Rightarrow> run_error \<Rightarrow> harness_state \<Rightarrow> run_result" where
  "fail_run env e w =
     (let w1 = w\<lparr>hs_report := (hs_report w)\<lparr>Status := ''failed'', rep_Error := Some e, FinishedAt := Some (he_end env)\<rparr>\<rparr>;
          (persistErr, w2) = persistReport (he_end_persisted env) w1
      in \<lparr>rr_report = Some (hs_report w2), rr_errors = e # (case persistErr of None \<Rightarrow> [] | Some p \<Rightarrow> [p]),
          rr_disk = hs_disk w2, rr_log = hs_log w2\<rparr>)"

text \<open>The end of a run whose matrix is complete.\<close>

definition complete_run :: "harness_env \<Rightarrow> harness_state \<Rightarrow> run_result" where
  "complete_run env w =
     (case Summarize (map (\<lambda>r. \<lparr>m_Case = run_Case r, m_IPerf = run_IPerf r\<rparr>) (Runs (hs_report w))) of
        Inl e \<Rightarrow> fail_run env (SummaryFailed e) w
      | Inr summaries \<Rightarrow>
          let w1 = w\<lparr>hs_report := (hs_report w)\<lparr>Summaries := summaries, Status := ''complete'', FinishedAt := Some (he_end env)\<rparr>\<rparr>;
              (persistErr, w2) = persistReport (he_end_persisted env) w1
          in \<lparr>rr_report = Some (hs_report w2), rr_errors = (case persistErr of None \<Rightarrow> [] | Some p \<Rightarrow> [p]),
              rr_disk = hs_disk w2, rr_log = hs_log w2\<rparr>)"

definition Harness_Run :: "harness_env \<Rightarrow> RunConfig \<Rightarrow> run_result" where
  "Harness_Run env config =
     (if he_ctx_nil env then no_report NilContext []
      else case RunConfig_Validate config of
        Some e \<Rightarrow> no_report e []
      | None \<Rightarrow>
          if he_deps_nil env then no_report NilDependencies []
          else if he_output env = OutputTaken then no_report OutputExists []
          else if he_output env = OutputUnknown then no_report OutputUnchecked []
          else case he_version env of
            None \<Rightarrow> no_report VersionFailed []
          | Some version \<Rightarrow>
              (case he_initial env of
                 None \<Rightarrow> no_report InitialFetchFailed [FetchedMetrics]
               | Some initial \<Rightarrow>
                   (case validateReady (rc_Scenario config) initial of
                      Some e \<Rightarrow> no_report e [FetchedMetrics]
                    | None \<Rightarrow>
                        if \<not> he_mkdir env then no_report OutputNotCreated [FetchedMetrics]
                        else if \<not> he_initial_written env then no_report (WriteFailed ''initial.metrics.json'') [FetchedMetrics]
                        else if \<not> he_report_created env then
                          no_report (WriteFailed ''report.json'') [FetchedMetrics, WroteFile ''initial.metrics.json'']
                        else let report = initial_report config env version in
                          (case run_matrix config env (matrix_ops config)
                             \<lparr>hs_report = report, hs_disk = Some report,
                              hs_log = [FetchedMetrics, WroteFile ''initial.metrics.json''], hs_completed = 0\<rparr> of
                             (Some e, w) \<Rightarrow> fail_run env e w
                           | (None, w) \<Rightarrow> complete_run env w))))"

section \<open>The plan of a dry run\<close>

text \<open>The estimated duration in \<open>makeDryRunPlan\<close>.\<close>

definition estimated_duration :: "RunConfig \<Rightarrow> int" where
  "estimated_duration config =
     (let n = int (length (rc_Cases config));
          operations = wrap64 (n * wrap64 (rc_WarmupRuns config + rc_Runs config));
          running = wrap64 (wrap64 (operations * rc_DurationSeconds config) * ns_second);
          settled = wrap64 (running + wrap64 (wrap64 (n * rc_Runs config) * rc_Settle config))
      in if 1 < operations then wrap64 (settled + wrap64 (wrap64 (operations - 1) * rc_Cooldown config)) else settled)"

section \<open>What an operation does\<close>

fun event_time :: "bench_event \<Rightarrow> int" where
  "event_time (RanIPerf _ seconds) = seconds * ns_second"
| "event_time (SleptFor d) = d"
| "event_time _ = 0"

text \<open>The time iperf3 was asked to run and the pauses.\<close>

definition busy_time :: "bench_event list \<Rightarrow> int" where
  "busy_time evs = sum_list (map event_time evs)"

definition iperf_ok :: "bench_case \<Rightarrow> IPerfSummary \<Rightarrow> bool" where
  "iperf_ok c s \<longleftrightarrow> validateIPerfCase c s = None \<and> validRate (BitsPerSecond s)"

lemma busy_time_simps [simp]:
  "busy_time [] = 0" "busy_time (e # evs) = event_time e + busy_time evs" "busy_time (evs @ evs') = busy_time evs + busy_time evs'"
  by (simp_all add: busy_time_def)

lemma log_events_log: "log_events evs w = w\<lparr>hs_log := hs_log w @ evs\<rparr>"
  by (simp add: log_events_def)

lemma busy_written [simp]: "busy_time (map WroteFile fs) = 0"
  by (induction fs) simp_all

lemma write_files_log:
  "write_files can fs w = (e, w') \<Longrightarrow> \<exists>gs. w' = w\<lparr>hs_log := hs_log w @ map WroteFile gs\<rparr>"
proof (induction fs arbitrary: w)
  case Nil
  then show ?case by (intro exI [of _ "[]"]) simp
next
  case (Cons f fs)
  show ?case
  proof (cases "can f")
    case True
    with Cons.prems have "write_files can fs (log_events [WroteFile f] w) = (e, w')" by simp
    from Cons.IH [OF this] obtain gs where "w' = (log_events [WroteFile f] w)\<lparr>hs_log := hs_log (log_events [WroteFile f] w) @ map WroteFile gs\<rparr>"
      by blast
    then show ?thesis by (intro exI [of _ "f # gs"]) (simp add: log_events_log)
  next
    case False
    with Cons.prems show ?thesis by (intro exI [of _ "[]"]) simp
  qed
qed

lemma writeIPerfArtifacts_log:
  "writeIPerfArtifacts can stem w = (e, files, w') \<Longrightarrow> \<exists>gs. w' = w\<lparr>hs_log := hs_log w @ map WroteFile gs\<rparr>"
  unfolding writeIPerfArtifacts_def Let_def by (auto split: prod.split_asm dest!: write_files_log simp del: write_files.simps)

lemma writeRunArtifacts_log:
  assumes "writeRunArtifacts can stem after w = (e, files, w')"
  shows "\<exists>gs. w' = w\<lparr>hs_log := hs_log w @ map WroteFile gs\<rparr>"
proof -
  obtain e1 f1 w1 where w1: "writeIPerfArtifacts can stem w = (e1, f1, w1)" by (metis surj_pair)
  obtain gs where gs: "w1 = w\<lparr>hs_log := hs_log w @ map WroteFile gs\<rparr>" using writeIPerfArtifacts_log [OF w1] by blast
  show ?thesis
  proof (cases e1)
    case (Some x)
    then show ?thesis using assms w1 gs by (auto simp: writeRunArtifacts_def)
  next
    case None
    then obtain names where "write_files can names w1 = (e, w')"
      using assms w1 by (auto simp: writeRunArtifacts_def Let_def simp del: write_files.simps split: prod.split_asm)
    then obtain hs where "w' = w1\<lparr>hs_log := hs_log w1 @ map WroteFile hs\<rparr>" using write_files_log by blast
    then show ?thesis using gs by (intro exI [of _ "gs @ hs"]) simp
  qed
qed

lemma settle_log:
  assumes "settle_and_fetch config out w = (after, w')" "0 \<le> rc_Settle config"
  shows "\<exists>evs. w' = w\<lparr>hs_log := hs_log w @ evs\<rparr> \<and> (after \<noteq> None \<longrightarrow> busy_time evs = rc_Settle config)"
proof (cases "0 < rc_Settle config \<and> \<not> oo_settled out")
  case True
  then show ?thesis using assms(1) by (intro exI [of _ "[]"]) (auto simp: settle_and_fetch_def)
next
  case False
  then show ?thesis
    using assms by (intro exI [of _ "(if 0 < rc_Settle config then [SleptFor (rc_Settle config)] else []) @ [FetchedMetrics]"])
      (auto simp: settle_and_fetch_def log_events_log)
qed

text \<open>The time of the pause after an operation that is number \<open>k\<close>.\<close>

definition pause_after :: "RunConfig \<Rightarrow> int \<Rightarrow> int" where
  "pause_after config k = (if k < total_operations config then rc_Cooldown config else 0)"

lemma finish_op_log:
  assumes "finish_op config out w = (e, w')" "0 \<le> rc_Cooldown config"
  shows "hs_report w' = hs_report w"
    and "e = None \<Longrightarrow> hs_disk w' = Some (hs_report w') \<and> hs_completed w' = hs_completed w + 1 \<and>
      (\<exists>evs. hs_log w' = hs_log w @ evs \<and> busy_time evs = pause_after config (hs_completed w + 1))"
  using assms
  by (auto simp: finish_op_def persistReport_def log_events_log pause_after_def Let_def split: if_split_asm)

text \<open>A finished operation adds its record, saves the report, counts itself and takes its time.\<close>

definition op_done :: "RunConfig \<Rightarrow> int \<Rightarrow> harness_state \<Rightarrow> harness_state \<Rightarrow> bool" where
  "op_done config extra w w' \<longleftrightarrow>
     hs_disk w' = Some (hs_report w') \<and> hs_completed w' = hs_completed w + 1 \<and>
     busy_time (hs_log w') = busy_time (hs_log w) + rc_DurationSeconds config * ns_second + extra + pause_after config (hs_completed w + 1)"

lemma warmup_op_cases:
  assumes "warmup_op config env c i w = (e, w')"
  obtains gs w2 where "w2 = w\<lparr>hs_log := hs_log w @ RanIPerf c (rc_DurationSeconds config) # map WroteFile gs\<rparr>" "w' = w2" "e \<noteq> None"
  | gs w2 r where "w2 = w\<lparr>hs_log := hs_log w @ RanIPerf c (rc_DurationSeconds config) # map WroteFile gs\<rparr>"
      "finish_op config (he_op env False c i) (w2\<lparr>hs_report := (hs_report w2)\<lparr>Warmups := Warmups (hs_report w2) @ [r]\<rparr>\<rparr>) = (e, w')"
      "wr_Case r = c" "wr_Index r = i"
proof -
  let ?out = "he_op env False c i" and ?w1 = "log_events [RanIPerf c (rc_DurationSeconds config)] w"
  obtain e1 files w2 where a: "writeIPerfArtifacts (he_write env) (''warmup-'' @ Slug c @ ''-'' @ pad2 i) ?w1 = (e1, files, w2)"
    by (metis surj_pair)
  obtain gs where gs: "w2 = ?w1\<lparr>hs_log := hs_log ?w1 @ map WroteFile gs\<rparr>" using writeIPerfArtifacts_log [OF a] by blast
  then have w2: "w2 = w\<lparr>hs_log := hs_log w @ RanIPerf c (rc_DurationSeconds config) # map WroteFile gs\<rparr>" by (simp add: log_events_log)
  note def = assms [unfolded warmup_op_def Let_def a]
  show ?thesis
  proof (cases "e1 = None \<and> oo_command ?out")
    case False
    then have "w' = w2" "e \<noteq> None" using def by (auto split: option.split_asm)
    then show ?thesis using that(1) w2 by blast
  next
    case ok: True
    show ?thesis
    proof (cases "ParseIPerfJSON (he_decode env (Stdout (oo_result ?out)))")
      case (Inl x)
      then have "w' = w2" "e \<noteq> None" using def ok by auto
      then show ?thesis using that(1) w2 by blast
    next
      case (Inr s)
      show ?thesis
      proof (cases "validateIPerfCase c s")
        case (Some x)
        then have "w' = w2" "e \<noteq> None" using def ok Inr by auto
        then show ?thesis using that(1) w2 by blast
      next
        case None
        let ?r = "\<lparr>wr_Case = c, wr_Index = i, wr_StartedAt = oo_started ?out, wr_FinishedAt = oo_finished ?out,
          wr_Arguments = Arguments (oo_result ?out), wr_IPerf = s, wr_Files = files\<rparr>"
        show ?thesis by (rule that(2) [OF w2, of ?r]) (use def ok Inr None in simp_all)
      qed
    qed
  qed
qed

lemma warmup_op_spec:
  assumes "warmup_op config env c i w = (e, w')" "0 \<le> rc_Cooldown config"
  shows "hs_report w' = hs_report w \<and> e \<noteq> None \<or>
    (\<exists>r. hs_report w' = (hs_report w)\<lparr>Warmups := Warmups (hs_report w) @ [r]\<rparr> \<and> wr_Case r = c \<and> wr_Index r = i \<and>
       (e = None \<longrightarrow> op_done config 0 w w'))"
  using assms(1)
proof (cases rule: warmup_op_cases)
  case (2 gs w2 r)
  have "op_done config 0 w w'" if "e = None"
    using finish_op_log(2) [OF 2(2) assms(2) that] 2(1) by (auto simp: op_done_def)
  then show ?thesis using finish_op_log(1) [OF 2(2) assms(2)] 2 by auto
qed auto

lemma parsed_rate: "ParseIPerfJSON d = Inr s \<Longrightarrow> validRate (BitsPerSecond s)"
  by (auto simp: ParseIPerfJSON_def split: prod.split_asm option.split_asm if_split_asm)

text \<open>A measured run that ends well has gone through every check.\<close>

lemma measured_op_cases:
  assumes "measured_op config env c i w = (e, w')" "0 \<le> rc_Settle config"
  obtains evs where "w' = w\<lparr>hs_log := hs_log w @ evs\<rparr>" "e \<noteq> None"
  | evs w3 r where "w3 = w\<lparr>hs_log := hs_log w @ evs\<rparr>" "busy_time evs = rc_DurationSeconds config * ns_second + rc_Settle config"
      "finish_op config (he_op env True c i) (w3\<lparr>hs_report := (hs_report w3)\<lparr>Runs := Runs (hs_report w3) @ [r]\<rparr>\<rparr>) = (e, w')"
      "run_Case r = c" "run_Index r = i" "iperf_ok c (run_IPerf r)"
proof (cases "oo_before (he_op env True c i)")
  case None
  then show ?thesis using that(1) [of "[FetchedMetrics]"] assms(1) by (auto simp: measured_op_def log_events_log)
next
  case (Some before)
  let ?out = "he_op env True c i" and ?w0 = "log_events [FetchedMetrics] w"
  let ?w1 = "log_events [RanIPerf c (rc_DurationSeconds config)] ?w0"
  obtain after w2 where s: "settle_and_fetch config ?out ?w1 = (after, w2)" by fastforce
  obtain e3 files w3 where a: "writeRunArtifacts (he_write env) (''run-'' @ Slug c @ ''-'' @ pad2 i) after w2 = (e3, files, w3)"
    by (metis surj_pair)
  obtain evs where evs: "w2 = ?w1\<lparr>hs_log := hs_log ?w1 @ evs\<rparr>" "after \<noteq> None \<longrightarrow> busy_time evs = rc_Settle config"
    using settle_log [OF s assms(2)] by blast
  obtain gs where gs: "w3 = w2\<lparr>hs_log := hs_log w2 @ map WroteFile gs\<rparr>" using writeRunArtifacts_log [OF a] by blast
  define all where "all = [FetchedMetrics, RanIPerf c (rc_DurationSeconds config)] @ evs @ map WroteFile gs"
  have w3: "w3 = w\<lparr>hs_log := hs_log w @ all\<rparr>" unfolding gs evs(1) all_def by (simp add: log_events_log)
  note stop = that(1) [of all] and go = that(2) [OF w3]
  note d = assms(1) [unfolded measured_op_def Let_def Some option.case s prod.case a]
  show ?thesis
  proof (cases "e3 = None \<and> oo_command ?out \<and> after \<noteq> None")
    case False
    then have "w' = w3" "e \<noteq> None" using d by (auto split: option.split_asm if_split_asm)
    then show ?thesis using stop w3 by simp
  next
    case True
    then obtain snap where ok: "e3 = None" "oo_command ?out" "after = Some snap" by blast
    have busy: "busy_time all = rc_DurationSeconds config * ns_second + rc_Settle config" using evs(2) ok(3) by (simp add: all_def)
    show ?thesis
    proof (cases "ParseIPerfJSON (he_decode env (Stdout (oo_result ?out)))")
      case (Inl x)
      then have "w' = w3" "e \<noteq> None" using d ok by auto
      then show ?thesis using stop w3 by simp
    next
      case (Inr sm)
      show ?thesis
      proof (cases "validateIPerfCase c sm = None \<and> \<not> isl (DiffMetrics before snap)")
        case False
        then have "w' = w3" "e \<noteq> None" using d ok Inr by (auto split: option.split_asm sum.split_asm)
        then show ?thesis using stop w3 by simp
      next
        case True
        then obtain delta where delta: "validateIPerfCase c sm = None" "DiffMetrics before snap = Inr delta"
          by (cases "DiffMetrics before snap") auto
        let ?r = "\<lparr>run_Case = c, run_Index = i, run_StartedAt = oo_started ?out, run_FinishedAt = oo_finished ?out,
          run_Arguments = Arguments (oo_result ?out), run_IPerf = sm, MetricsDelta = delta, run_Files = files\<rparr>"
        show ?thesis
          by (rule go [OF busy, of ?r]) (use d ok Inr delta parsed_rate [OF Inr] in \<open>simp_all add: iperf_ok_def\<close>)
      qed
    qed
  qed
qed

lemma measured_op_spec:
  assumes "measured_op config env c i w = (e, w')" "0 \<le> rc_Cooldown config" "0 \<le> rc_Settle config"
  shows "hs_report w' = hs_report w \<and> e \<noteq> None \<or>
    (\<exists>r. hs_report w' = (hs_report w)\<lparr>Runs := Runs (hs_report w) @ [r]\<rparr> \<and> run_Case r = c \<and> run_Index r = i \<and>
       iperf_ok c (run_IPerf r) \<and> (e = None \<longrightarrow> op_done config (rc_Settle config) w w'))"
  using assms(1,3)
proof (cases rule: measured_op_cases)
  case (2 evs w3 r)
  have "op_done config (rc_Settle config) w w'" if "e = None"
    using finish_op_log(2) [OF 2(3) assms(2) that] 2(1,2) by (auto simp: op_done_def)
  then show ?thesis using finish_op_log(1) [OF 2(3) assms(2)] 2 by auto
qed auto

section \<open>What a run does\<close>

definition run_keys :: "matrix_op list \<Rightarrow> (bench_case \<times> int) list" where
  "run_keys ops = concat (map (\<lambda>op. case op of RunOp c i \<Rightarrow> [(c, i)] | WarmupOp _ _ \<Rightarrow> []) ops)"

definition warmup_keys :: "matrix_op list \<Rightarrow> (bench_case \<times> int) list" where
  "warmup_keys ops = concat (map (\<lambda>op. case op of WarmupOp c i \<Rightarrow> [(c, i)] | RunOp _ _ \<Rightarrow> []) ops)"

definition recorded_runs :: "RunRecord list \<Rightarrow> (bench_case \<times> int) list" where
  "recorded_runs rs = map (\<lambda>r. (run_Case r, run_Index r)) rs"

definition recorded_warmups :: "WarmupRecord list \<Rightarrow> (bench_case \<times> int) list" where
  "recorded_warmups rs = map (\<lambda>r. (wr_Case r, wr_Index r)) rs"

text \<open>The time of the operations from number \<open>k\<close> on.\<close>

fun ops_time :: "RunConfig \<Rightarrow> int \<Rightarrow> matrix_op list \<Rightarrow> int" where
  "ops_time config k [] = 0"
| "ops_time config k (op # ops) =
     rc_DurationSeconds config * ns_second + (case op of RunOp _ _ \<Rightarrow> rc_Settle config | WarmupOp _ _ \<Rightarrow> 0) +
     pause_after config (k + 1) + ops_time config (k + 1) ops"

lemma keys_simps [simp]:
  "run_keys [] = []" "run_keys (RunOp c i # ops) = (c, i) # run_keys ops" "run_keys (WarmupOp c i # ops) = run_keys ops"
  "warmup_keys [] = []" "warmup_keys (RunOp c i # ops) = warmup_keys ops" "warmup_keys (WarmupOp c i # ops) = (c, i) # warmup_keys ops"
  "run_keys (ops @ ops') = run_keys ops @ run_keys ops'" "warmup_keys (ops @ ops') = warmup_keys ops @ warmup_keys ops'"
  "recorded_runs [] = []" "recorded_runs (r # rs) = (run_Case r, run_Index r) # recorded_runs rs"
  "recorded_warmups [] = []" "recorded_warmups (x # xs) = (wr_Case x, wr_Index x) # recorded_warmups xs"
  by (simp_all add: run_keys_def warmup_keys_def recorded_runs_def recorded_warmups_def)

text \<open>How far a matrix has come: all the way without an error, some of the way with one.\<close>

definition matrix_ok :: "RunConfig \<Rightarrow> matrix_op list \<Rightarrow> harness_state \<Rightarrow> run_error option \<Rightarrow> harness_state \<Rightarrow> bool" where
  "matrix_ok config ops w e w' \<longleftrightarrow>
     (\<exists>ws rs. hs_report w' = (hs_report w)\<lparr>Warmups := Warmups (hs_report w) @ ws, Runs := Runs (hs_report w) @ rs\<rparr> \<and>
        list_all (\<lambda>r. iperf_ok (run_Case r) (run_IPerf r)) rs \<and>
        prefix (recorded_runs rs) (run_keys ops) \<and> prefix (recorded_warmups ws) (warmup_keys ops) \<and>
        (e = None \<longrightarrow> recorded_runs rs = run_keys ops \<and> recorded_warmups ws = warmup_keys ops \<and>
           (hs_disk w = Some (hs_report w) \<longrightarrow> hs_disk w' = Some (hs_report w')) \<and>
           busy_time (hs_log w') = busy_time (hs_log w) + ops_time config (hs_completed w) ops))"

lemma matrix_okI:
  "hs_report w' = (hs_report w)\<lparr>Warmups := Warmups (hs_report w) @ ws, Runs := Runs (hs_report w) @ rs\<rparr> \<Longrightarrow>
   list_all (\<lambda>r. iperf_ok (run_Case r) (run_IPerf r)) rs \<Longrightarrow>
   prefix (recorded_runs rs) (run_keys ops) \<Longrightarrow> prefix (recorded_warmups ws) (warmup_keys ops) \<Longrightarrow>
   (e = None \<Longrightarrow> recorded_runs rs = run_keys ops \<and> recorded_warmups ws = warmup_keys ops \<and>
      (hs_disk w = Some (hs_report w) \<longrightarrow> hs_disk w' = Some (hs_report w')) \<and>
      busy_time (hs_log w') = busy_time (hs_log w) + ops_time config (hs_completed w) ops) \<Longrightarrow>
   matrix_ok config ops w e w'"
  unfolding matrix_ok_def by blast

definition op_extra :: "RunConfig \<Rightarrow> matrix_op \<Rightarrow> int" where
  "op_extra config op = (case op of RunOp _ _ \<Rightarrow> rc_Settle config | WarmupOp _ _ \<Rightarrow> 0)"

lemma run_op_spec:
  assumes "run_op config env op w = (e, w')" "0 \<le> rc_Cooldown config" "0 \<le> rc_Settle config"
  shows "hs_report w' = hs_report w \<and> e \<noteq> None \<or>
    (\<exists>ws rs. hs_report w' = (hs_report w)\<lparr>Warmups := Warmups (hs_report w) @ ws, Runs := Runs (hs_report w) @ rs\<rparr> \<and>
       recorded_runs rs = run_keys [op] \<and> recorded_warmups ws = warmup_keys [op] \<and>
       list_all (\<lambda>r. iperf_ok (run_Case r) (run_IPerf r)) rs \<and> (e = None \<longrightarrow> op_done config (op_extra config op) w w'))"
proof (cases op)
  case (WarmupOp c i)
  then have "warmup_op config env c i w = (e, w')" using assms(1) by simp
  from warmup_op_spec [OF this assms(2)] show ?thesis
  proof
    assume "\<exists>r. hs_report w' = (hs_report w)\<lparr>Warmups := Warmups (hs_report w) @ [r]\<rparr> \<and> wr_Case r = c \<and> wr_Index r = i \<and>
       (e = None \<longrightarrow> op_done config 0 w w')"
    then obtain r where r: "hs_report w' = (hs_report w)\<lparr>Warmups := Warmups (hs_report w) @ [r]\<rparr>" "wr_Case r = c" "wr_Index r = i"
      "e = None \<longrightarrow> op_done config 0 w w'" by blast
    then show ?thesis
      unfolding WarmupOp by (intro disjI2 exI [of _ "[r]"] exI [of _ "[]"]) (simp add: op_extra_def)
  qed simp
next
  case (RunOp c i)
  then have "measured_op config env c i w = (e, w')" using assms(1) by simp
  from measured_op_spec [OF this assms(2,3)] show ?thesis
  proof
    assume "\<exists>r. hs_report w' = (hs_report w)\<lparr>Runs := Runs (hs_report w) @ [r]\<rparr> \<and> run_Case r = c \<and> run_Index r = i \<and>
       iperf_ok c (run_IPerf r) \<and> (e = None \<longrightarrow> op_done config (rc_Settle config) w w')"
    then obtain r where r: "hs_report w' = (hs_report w)\<lparr>Runs := Runs (hs_report w) @ [r]\<rparr>" "run_Case r = c" "run_Index r = i"
      "iperf_ok c (run_IPerf r)" "e = None \<longrightarrow> op_done config (rc_Settle config) w w'" by blast
    then show ?thesis
      unfolding RunOp by (intro disjI2 exI [of _ "[]"] exI [of _ "[r]"]) (simp add: op_extra_def)
  qed simp
qed

lemma keys_Cons: "run_keys (op # ops) = run_keys [op] @ run_keys ops" "warmup_keys (op # ops) = warmup_keys [op] @ warmup_keys ops"
  by (cases op; simp)+

lemma recorded_append:
  "recorded_runs (rs @ rs') = recorded_runs rs @ recorded_runs rs'" "recorded_warmups (ws @ ws') = recorded_warmups ws @ recorded_warmups ws'"
  by (simp_all add: recorded_runs_def recorded_warmups_def)

lemma run_matrix_ok:
  assumes "run_matrix config env ops w = (e, w')" "0 \<le> rc_Cooldown config" "0 \<le> rc_Settle config"
  shows "matrix_ok config ops w e w'"
  using assms(1)
proof (induction ops arbitrary: w)
  case Nil
  then show ?case by (intro matrix_okI [where ws = "[]" and rs = "[]"]) auto
next
  case (Cons op ops)
  obtain e1 w1 where op: "run_op config env op w = (e1, w1)" by fastforce
  from run_op_spec [OF op assms(2,3)] show ?case
  proof
    assume "hs_report w1 = hs_report w \<and> e1 \<noteq> None"
    then show ?thesis using Cons.prems op by (intro matrix_okI [where ws = "[]" and rs = "[]"]) auto
  next
    assume "\<exists>ws rs. hs_report w1 = (hs_report w)\<lparr>Warmups := Warmups (hs_report w) @ ws, Runs := Runs (hs_report w) @ rs\<rparr> \<and>
       recorded_runs rs = run_keys [op] \<and> recorded_warmups ws = warmup_keys [op] \<and>
       list_all (\<lambda>r. iperf_ok (run_Case r) (run_IPerf r)) rs \<and> (e1 = None \<longrightarrow> op_done config (op_extra config op) w w1)"
    then obtain ws rs where one: "hs_report w1 = (hs_report w)\<lparr>Warmups := Warmups (hs_report w) @ ws, Runs := Runs (hs_report w) @ rs\<rparr>"
      and keys: "recorded_runs rs = run_keys [op]" "recorded_warmups ws = warmup_keys [op]"
      and ok: "list_all (\<lambda>r. iperf_ok (run_Case r) (run_IPerf r)) rs" and don: "e1 = None \<longrightarrow> op_done config (op_extra config op) w w1" by blast
    show ?thesis
    proof (cases e1)
      case (Some x)
      then have "e = Some x" "w' = w1" using Cons.prems op by simp_all
      then show ?thesis
        using one ok keys by (intro matrix_okI [where ws = ws and rs = rs]) (simp_all add: keys_Cons [of op ops])
    next
      case None
      then have d: "op_done config (op_extra config op) w w1" using don by simp
      have "matrix_ok config ops w1 e w'" using Cons.IH Cons.prems op None by simp
      then obtain ws' rs' where rest: "hs_report w' = (hs_report w1)\<lparr>Warmups := Warmups (hs_report w1) @ ws', Runs := Runs (hs_report w1) @ rs'\<rparr>"
        "list_all (\<lambda>r. iperf_ok (run_Case r) (run_IPerf r)) rs'"
        "prefix (recorded_runs rs') (run_keys ops)" "prefix (recorded_warmups ws') (warmup_keys ops)"
        "e = None \<longrightarrow> recorded_runs rs' = run_keys ops \<and> recorded_warmups ws' = warmup_keys ops \<and>
           (hs_disk w1 = Some (hs_report w1) \<longrightarrow> hs_disk w' = Some (hs_report w')) \<and>
           busy_time (hs_log w') = busy_time (hs_log w1) + ops_time config (hs_completed w1) ops"
        unfolding matrix_ok_def by blast
      show ?thesis
      proof (rule matrix_okI [where ws = "ws @ ws'" and rs = "rs @ rs'"])
        show "hs_report w' = (hs_report w)\<lparr>Warmups := Warmups (hs_report w) @ ws @ ws', Runs := Runs (hs_report w) @ rs @ rs'\<rparr>"
          unfolding rest(1) one by simp
        show "list_all (\<lambda>r. iperf_ok (run_Case r) (run_IPerf r)) (rs @ rs')" using ok rest(2) by simp
        show "prefix (recorded_runs (rs @ rs')) (run_keys (op # ops))" "prefix (recorded_warmups (ws @ ws')) (warmup_keys (op # ops))"
          unfolding keys_Cons [of op ops] recorded_append keys using rest(3,4) by simp_all
        show "recorded_runs (rs @ rs') = run_keys (op # ops) \<and> recorded_warmups (ws @ ws') = warmup_keys (op # ops) \<and>
           (hs_disk w = Some (hs_report w) \<longrightarrow> hs_disk w' = Some (hs_report w')) \<and>
           busy_time (hs_log w') = busy_time (hs_log w) + ops_time config (hs_completed w) (op # ops)" if "e = None"
          using rest(5) that d unfolding keys_Cons [of op ops] recorded_append keys op_done_def by (simp add: op_extra_def)
      qed
    qed
  qed
qed

section \<open>The plan\<close>

lemma validate_cases_None:
  "validate_cases seen cs = None \<longleftrightarrow> (\<forall>c \<in> set cs. Case_Validate c = None) \<and> distinct cs \<and> set cs \<inter> set seen = {}"
  by (induction cs arbitrary: seen) (auto split: option.split)

lemma valid_config:
  assumes "RunConfig_Validate config = None"
  shows "3 \<le> rc_Runs config" "rc_Runs config \<le> 20" "0 \<le> rc_WarmupRuns config" "rc_WarmupRuns config \<le> 5"
    and "1 \<le> rc_DurationSeconds config" "rc_DurationSeconds config \<le> 300" "0 \<le> rc_Settle config" "rc_Settle config \<le> 30000000000"
    and "0 \<le> rc_Cooldown config" "rc_Cooldown config \<le> 300000000000" "rc_Cases config \<noteq> []"
    and "\<forall>c \<in> set (rc_Cases config). Case_Validate c = None" "distinct (rc_Cases config)"
proof -
  have c: "3 \<le> rc_Runs config \<and> rc_Runs config \<le> 20 \<and> 0 \<le> rc_WarmupRuns config \<and> rc_WarmupRuns config \<le> 5 \<and>
      1 \<le> rc_DurationSeconds config \<and> rc_DurationSeconds config \<le> 300 \<and> 0 \<le> rc_Settle config \<and> rc_Settle config \<le> 30000000000 \<and>
      0 \<le> rc_Cooldown config \<and> rc_Cooldown config \<le> 300000000000 \<and> rc_Cases config \<noteq> [] \<and>
      validate_cases [] (rc_Cases config) = None"
    using assms unfolding RunConfig_Validate_def MinimumRuns_def ns_second_def
    by (simp split: option.split_asm if_split_asm prod.split_asm)
  show "3 \<le> rc_Runs config" "rc_Runs config \<le> 20" "0 \<le> rc_WarmupRuns config" "rc_WarmupRuns config \<le> 5"
    "1 \<le> rc_DurationSeconds config" "rc_DurationSeconds config \<le> 300" "0 \<le> rc_Settle config" "rc_Settle config \<le> 30000000000"
    "0 \<le> rc_Cooldown config" "rc_Cooldown config \<le> 300000000000" "rc_Cases config \<noteq> []"
    using c by blast+
  show "\<forall>c \<in> set (rc_Cases config). Case_Validate c = None" "distinct (rc_Cases config)"
    using c unfolding validate_cases_None by blast+
qed

lemma valid_cases_bound:
  assumes "\<forall>c \<in> set cs. Case_Validate c = None" "distinct cs"
  shows "length cs \<le> 256"
proof -
  have "inj_on case_key (set cs)" using assms(1) case_key_inj by (blast intro: inj_onI)
  moreover have "case_key ` set cs \<subseteq> {0, 1} \<times> {1..128}"
  proof
    fix x assume "x \<in> case_key ` set cs"
    then obtain c where "x = case_key c" "Case_Validate c = None" using assms(1) by blast
    then show "x \<in> {0, 1} \<times> {1..128}" by (simp add: case_key_def directionOrder_def valid_case)
  qed
  ultimately have "card (set cs) \<le> card ({0, 1 :: int} \<times> {1..128 :: int})" by (intro card_inj_on_le) simp_all
  then show ?thesis using distinct_card [OF assms(2)] by (simp add: card_cartesian_product)
qed

definition planned_runs :: "RunConfig \<Rightarrow> (bench_case \<times> int) list" where
  "planned_runs config = concat (map (\<lambda>c. map (Pair c) [1..rc_Runs config]) (rc_Cases config))"

definition planned_warmups :: "RunConfig \<Rightarrow> (bench_case \<times> int) list" where
  "planned_warmups config = concat (map (\<lambda>c. map (Pair c) [1..rc_WarmupRuns config]) (rc_Cases config))"

lemma keys_map [simp]:
  "run_keys (map (RunOp c) is) = map (Pair c) is" "run_keys (map (WarmupOp c) is) = []"
  "warmup_keys (map (WarmupOp c) is) = map (Pair c) is" "warmup_keys (map (RunOp c) is) = []"
  by (induction "is") simp_all

lemma matrix_keys: "run_keys (matrix_ops config) = planned_runs config" "warmup_keys (matrix_ops config) = planned_warmups config"
proof -
  have "run_keys (concat (map (\<lambda>c. map (WarmupOp c) ws @ map (RunOp c) rs) cs)) = concat (map (\<lambda>c. map (Pair c) rs) cs)"
    "warmup_keys (concat (map (\<lambda>c. map (WarmupOp c) ws @ map (RunOp c) rs) cs)) = concat (map (\<lambda>c. map (Pair c) ws) cs)" for cs ws rs
    by (induction cs) simp_all
  then show "run_keys (matrix_ops config) = planned_runs config" "warmup_keys (matrix_ops config) = planned_warmups config"
    by (simp_all add: matrix_ops_def planned_runs_def planned_warmups_def)
qed

lemma length_matrix:
  assumes "0 \<le> rc_WarmupRuns config" "0 \<le> rc_Runs config"
  shows "int (length (matrix_ops config)) = total_operations config"
    and "int (length (planned_runs config)) = int (length (rc_Cases config)) * rc_Runs config"
proof -
  have "int (length (concat (map (\<lambda>c. map (WarmupOp c) ws @ map (RunOp c) rs) cs))) = int (length cs) * (int (length ws) + int (length rs))"
    "int (length (concat (map (\<lambda>c. map (Pair c) rs) cs))) = int (length cs) * int (length rs)" for cs :: "bench_case list" and ws rs :: "int list"
    by (induction cs) (simp_all add: algebra_simps)
  then show "int (length (matrix_ops config)) = total_operations config"
    "int (length (planned_runs config)) = int (length (rc_Cases config)) * rc_Runs config"
    using assms by (simp_all add: matrix_ops_def planned_runs_def total_operations_def)
qed

lemma ops_time_closed:
  assumes "k + int (length ops) = total_operations config"
  shows "ops_time config k ops = int (length ops) * (rc_DurationSeconds config * ns_second) + int (length (run_keys ops)) * rc_Settle config +
    (if ops = [] then 0 else (int (length ops) - 1) * rc_Cooldown config)"
  using assms
proof (induction ops arbitrary: k)
  case (Cons op ops)
  have len: "int (length (run_keys (op # ops))) = (case op of RunOp _ _ \<Rightarrow> 1 | WarmupOp _ _ \<Rightarrow> 0) + int (length (run_keys ops))"
    by (cases op) simp_all
  have IH: "ops_time config (k + 1) ops = int (length ops) * (rc_DurationSeconds config * ns_second) +
      int (length (run_keys ops)) * rc_Settle config + (if ops = [] then 0 else (int (length ops) - 1) * rc_Cooldown config)"
    using Cons.IH [of "k + 1"] Cons.prems by simp
  have pause: "pause_after config (k + 1) = (if ops = [] then 0 else rc_Cooldown config)"
    using Cons.prems by (cases ops) (simp_all add: pause_after_def)
  show ?case unfolding len ops_time.simps IH pause by (cases op; cases "ops = []") (simp_all add: algebra_simps)
qed simp

text \<open>No product or sum of the estimate leaves the range of \<open>int64\<close>.\<close>

lemma estimate_exact:
  assumes "RunConfig_Validate config = None"
  shows "estimated_duration config = ops_time config 0 (matrix_ops config)"
proof -
  note v = valid_config [OF assms]
  define n t where "n = int (length (rc_Cases config))" and "t = rc_WarmupRuns config + rc_Runs config"
  have n: "1 \<le> n" "n \<le> 256"
    using v(11) valid_cases_bound [OF v(12,13)] by (auto simp: n_def Suc_le_eq simp flip: length_greater_0_conv)
  have t: "3 \<le> t" "t \<le> 25" using v by (simp_all add: t_def)
  have mult: "0 \<le> a * b \<and> a * b \<le> x * y" if "0 \<le> a" "a \<le> x" "0 \<le> b" "b \<le> y" for a b x y :: int
    using that by (simp add: mult_mono)
  have nt: "3 \<le> n * t" "n * t \<le> 256 * 25" using mult_mono [of 1 n 3 t] mult_mono [of n 256 t 25] n t by simp_all
  have nr: "0 \<le> n * rc_Runs config" "n * rc_Runs config \<le> 256 * 20" using mult [of n 256 "rc_Runs config" 20] n v by simp_all
  have d: "0 \<le> n * t * rc_DurationSeconds config" "n * t * rc_DurationSeconds config \<le> 256 * 25 * 300"
    using mult [of "n * t" "256 * 25" "rc_DurationSeconds config" 300] nt v by simp_all
  have s: "0 \<le> n * rc_Runs config * rc_Settle config" "n * rc_Runs config * rc_Settle config \<le> 256 * 20 * 30000000000"
    using mult [of "n * rc_Runs config" "256 * 20" "rc_Settle config" 30000000000] nr v by simp_all
  have c: "0 \<le> (n * t - 1) * rc_Cooldown config" "(n * t - 1) * rc_Cooldown config \<le> 256 * 25 * 300000000000"
    using mult [of "n * t - 1" "256 * 25" "rc_Cooldown config" 300000000000] nt v by simp_all
  have w: "wrap64 x = x" if "0 \<le> x" "x \<le> 9223372036854775807" for x
    using that by (simp add: is_int64_def min_int64_def max_int64_def)
  have "estimated_duration config = n * t * rc_DurationSeconds config * ns_second + n * rc_Runs config * rc_Settle config +
      (n * t - 1) * rc_Cooldown config"
  proof -
    have "wrap64 t = t" "wrap64 (n * t) = n * t" "wrap64 (n * t * rc_DurationSeconds config) = n * t * rc_DurationSeconds config"
      "wrap64 (n * t * rc_DurationSeconds config * 1000000000) = n * t * rc_DurationSeconds config * 1000000000"
      "wrap64 (n * rc_Runs config) = n * rc_Runs config"
      "wrap64 (n * rc_Runs config * rc_Settle config) = n * rc_Runs config * rc_Settle config"
      "wrap64 (n * t * rc_DurationSeconds config * 1000000000 + n * rc_Runs config * rc_Settle config) =
        n * t * rc_DurationSeconds config * 1000000000 + n * rc_Runs config * rc_Settle config"
      "wrap64 (n * t - 1) = n * t - 1" "wrap64 ((n * t - 1) * rc_Cooldown config) = (n * t - 1) * rc_Cooldown config"
      "wrap64 (n * t * rc_DurationSeconds config * 1000000000 + n * rc_Runs config * rc_Settle config + (n * t - 1) * rc_Cooldown config) =
        n * t * rc_DurationSeconds config * 1000000000 + n * rc_Runs config * rc_Settle config + (n * t - 1) * rc_Cooldown config"
      using t nt nr d s c by (intro w; linarith)+
    moreover have "1 < n * t" using nt by linarith
    ultimately show ?thesis unfolding estimated_duration_def Let_def ns_second_def n_def [symmetric] t_def [symmetric] by simp
  qed
  moreover have len: "int (length (matrix_ops config)) = n * t" "int (length (run_keys (matrix_ops config))) = n * rc_Runs config"
    using length_matrix [of config] v unfolding matrix_keys by (simp_all add: total_operations_def n_def t_def)
  moreover have "matrix_ops config \<noteq> []" using len(1) nt(1) by auto
  moreover have "total_operations config = n * t" by (simp add: total_operations_def n_def t_def)
  ultimately show ?thesis using ops_time_closed [of 0 "matrix_ops config" config] by simp
qed

section \<open>Summaries of a complete matrix\<close>

lemma planned_count:
  assumes "distinct (rc_Cases config)" "c \<in> set (rc_Cases config)" "0 \<le> rc_Runs config"
  shows "int (length (filter (\<lambda>k. fst k = c) (planned_runs config))) = rc_Runs config"
proof -
  have "length (filter (\<lambda>k. fst k = c) (concat (map (\<lambda>c. map (Pair c) rs) cs))) = (if c \<in> set cs then length rs else 0)"
    if "distinct cs" for cs :: "bench_case list" and rs :: "int list"
    using that by (induction cs) (auto simp: filter_map comp_def filter_empty_conv)
  then show ?thesis using assms by (simp add: planned_runs_def)
qed

lemma planned_cases: "0 < rc_Runs config \<Longrightarrow> fst ` set (planned_runs config) = set (rc_Cases config)"
  by (force simp: planned_runs_def)

definition measurements :: "RunRecord list \<Rightarrow> Measurement list" where
  "measurements rs = map (\<lambda>r. \<lparr>m_Case = run_Case r, m_IPerf = run_IPerf r\<rparr>) rs"

lemma measurements_count:
  "length (filter (\<lambda>m. m_Case m = c) (measurements rs)) = length (filter (\<lambda>k. fst k = c) (recorded_runs rs))"
  "set (map m_Case (measurements rs)) = fst ` set (recorded_runs rs)"
  by (simp_all add: measurements_def recorded_runs_def filter_map comp_def image_image)

lemma valid_rate_sample: "validRate v \<Longrightarrow> \<not> invalid_sample v"
  by (auto simp: validRate_def invalid_sample_def float_lt_def float_le_def)

lemma matrix_summaries:
  assumes "RunConfig_Validate config = None" "recorded_runs rs = planned_runs config"
    and "list_all (\<lambda>r. iperf_ok (run_Case r) (run_IPerf r)) rs"
  obtains ss where "Summarize (measurements rs) = Inr ss" "set (map cs_Case ss) = set (rc_Cases config)"
    "\<forall>s \<in> set ss. cs_Runs s = rc_Runs config"
proof -
  note v = valid_config [OF assms(1)]
  have cases: "set (map m_Case (measurements rs)) = set (rc_Cases config)"
    unfolding measurements_count assms(2) using v by (intro planned_cases) simp
  have count: "int (length (filter (\<lambda>m. m_Case m = c) (measurements rs))) = rc_Runs config" if "c \<in> set (rc_Cases config)" for c
    unfolding measurements_count assms(2) using v that by (intro planned_count) simp_all
  have m: "Case_Validate (m_Case m) = None" "length (filter (\<lambda>x. m_Case x = m_Case m) (measurements rs)) \<ge> 3"
    "\<not> invalid_sample (BitsPerSecond (m_IPerf m))" if "m \<in> set (measurements rs)" for m
  proof -
    have mem: "m_Case m \<in> set (rc_Cases config)" using that cases by (metis imageI set_map)
    then show "Case_Validate (m_Case m) = None" using v(12) by blast
    show "length (filter (\<lambda>x. m_Case x = m_Case m) (measurements rs)) \<ge> 3" using count [OF mem] v(1) by simp
    show "\<not> invalid_sample (BitsPerSecond (m_IPerf m))"
    proof -
      obtain r where r: "r \<in> set rs" "m = \<lparr>m_Case = run_Case r, m_IPerf = run_IPerf r\<rparr>"
        using \<open>m \<in> set (measurements rs)\<close> unfolding measurements_def set_map by blast
      have "validRate (BitsPerSecond (run_IPerf r))" using assms(3) r(1) unfolding list_all_iff iperf_ok_def by blast
      then show ?thesis using valid_rate_sample r(2) by simp
    qed
  qed
  have ne: "measurements rs \<noteq> []" using cases v(11) by auto
  have "\<not> isl (Summarize (measurements rs))"
  proof
    assume "isl (Summarize (measurements rs))"
    then obtain e where "Summarize (measurements rs) = Inl e" by (cases "Summarize (measurements rs)") auto
    from Summarize_Inl [OF this] ne m show False by (meson not_le)
  qed
  then obtain ss where ss: "Summarize (measurements rs) = Inr ss" by (cases "Summarize (measurements rs)") auto
  have set: "set (map cs_Case ss) = set (rc_Cases config)" using Summarize_Inr(2) [OF ss] cases by metis
  have "cs_Runs s = rc_Runs config" if s: "s \<in> set ss" for s
  proof -
    have "cs_Case s \<in> set (rc_Cases config)" using s set by (metis imageI set_map)
    from count [OF this] summarize_case_fields [OF Summarize_Inr(3) [OF ss s]] show ?thesis by simp
  qed
  then show ?thesis using that [OF ss set] by blast
qed

section \<open>Reports can be trusted\<close>

text \<open>A complete run, and one that stopped.\<close>

definition complete_ok :: "RunConfig \<Rightarrow> Report \<Rightarrow> bool" where
  "complete_ok config rep \<longleftrightarrow>
     Status rep = ''complete'' \<and> recorded_runs (Runs rep) = planned_runs config \<and>
     recorded_warmups (Warmups rep) = planned_warmups config \<and>
     list_all (\<lambda>r. iperf_ok (run_Case r) (run_IPerf r)) (Runs rep) \<and>
     set (map cs_Case (Summaries rep)) = set (rc_Cases config) \<and> list_all (\<lambda>s. cs_Runs s = rc_Runs config) (Summaries rep)"

definition failed_ok :: "RunConfig \<Rightarrow> run_error \<Rightarrow> Report \<Rightarrow> bool" where
  "failed_ok config e rep \<longleftrightarrow>
     Status rep = ''failed'' \<and> rep_Error rep = Some e \<and> Summaries rep = [] \<and>
     prefix (recorded_runs (Runs rep)) (planned_runs config) \<and>
     list_all (\<lambda>r. iperf_ok (run_Case r) (run_IPerf r)) (Runs rep)"

text \<open>What the caller gets, what is on disk, and what was run.\<close>

definition result_ok :: "harness_env \<Rightarrow> RunConfig \<Rightarrow> run_result \<Rightarrow> bool" where
  "result_ok env config r \<longleftrightarrow>
     (case rr_report r of
        None \<Rightarrow> rr_errors r \<noteq> [] \<and> rr_disk r = None \<and> list_all (\<lambda>ev. case ev of RanIPerf _ _ \<Rightarrow> False | _ \<Rightarrow> True) (rr_log r)
      | Some rep \<Rightarrow>
          (he_end_persisted env \<longrightarrow> rr_disk r = Some rep) \<and>
          (case rr_errors r of
             [] \<Rightarrow> complete_ok config rep \<and> rr_disk r = Some rep \<and> busy_time (rr_log r) = estimated_duration config
           | e # es \<Rightarrow> failed_ok config e rep \<or> complete_ok config rep \<and> rr_errors r = [WriteFailed ''report.json'']))"

lemma fail_run_ok:
  assumes "Status (hs_report w) = ''running''" "Summaries (hs_report w) = []"
    and "prefix (recorded_runs (Runs (hs_report w))) (planned_runs config)"
    and "list_all (\<lambda>r. iperf_ok (run_Case r) (run_IPerf r)) (Runs (hs_report w))"
  shows "result_ok env config (fail_run env e w)"
  using assms by (auto simp: result_ok_def fail_run_def persistReport_def failed_ok_def Let_def)

lemma complete_run_ok:
  assumes "RunConfig_Validate config = None" "recorded_runs (Runs (hs_report w)) = planned_runs config"
    and "recorded_warmups (Warmups (hs_report w)) = planned_warmups config"
    and "list_all (\<lambda>r. iperf_ok (run_Case r) (run_IPerf r)) (Runs (hs_report w))"
    and "busy_time (hs_log w) = estimated_duration config"
  shows "result_ok env config (complete_run env w)"
proof -
  obtain ss where ss: "Summarize (measurements (Runs (hs_report w))) = Inr ss" "set (map cs_Case ss) = set (rc_Cases config)"
    "\<forall>s \<in> set ss. cs_Runs s = rc_Runs config" using matrix_summaries [OF assms(1,2,4)] by blast
  have "complete_ok config ((hs_report w)\<lparr>Summaries := ss, Status := ''complete'', FinishedAt := Some (he_end env)\<rparr>)"
    using assms ss by (simp add: complete_ok_def list_all_iff)
  then show ?thesis
    using ss(1) assms(5) unfolding measurements_def by (auto simp: complete_run_def result_ok_def persistReport_def Let_def)
qed

lemma no_report_ok:
  "list_all (\<lambda>ev. case ev of RanIPerf _ _ \<Rightarrow> False | _ \<Rightarrow> True) evs \<Longrightarrow> result_ok env config (no_report e evs)"
  by (simp add: result_ok_def no_report_def)

lemma matrix_run_ok:
  assumes "RunConfig_Validate config = None"
    and "run_matrix config env (matrix_ops config) \<lparr>hs_report = initial_report config env version, hs_disk = Some (initial_report config env version),
      hs_log = [FetchedMetrics, WroteFile f], hs_completed = 0\<rparr> = (e, w)"
  shows "result_ok env config (case e of Some x \<Rightarrow> fail_run env x w | None \<Rightarrow> complete_run env w)"
proof -
  note v = valid_config [OF assms(1)]
  let ?rep = "initial_report config env version"
  obtain ws rs where m: "hs_report w = ?rep\<lparr>Warmups := ws, Runs := rs\<rparr>" "list_all (\<lambda>r. iperf_ok (run_Case r) (run_IPerf r)) rs"
    "prefix (recorded_runs rs) (planned_runs config)"
    "e = None \<longrightarrow> recorded_runs rs = planned_runs config \<and> recorded_warmups ws = planned_warmups config \<and>
       busy_time (hs_log w) = estimated_duration config"
    using run_matrix_ok [OF assms(2) v(9,7)] unfolding matrix_ok_def matrix_keys estimate_exact [OF assms(1)]
    by (auto simp: initial_report_def)
  show ?thesis
  proof (cases e)
    case None
    then show ?thesis using m complete_run_ok [OF assms(1), of w env] by simp
  next
    case (Some x)
    then show ?thesis using m fail_run_ok [of w config env x] by (simp add: initial_report_def)
  qed
qed

text \<open>
  C28. A benchmark report can be trusted. Without a report, an error is returned, nothing is on disk and iperf3 was not started. A run that returns no error returns a complete
  report, which is also the one on disk: it has exactly the warm-ups and runs of the matrix in order, each measured with TCP, the flows and the
  direction of its case and a finite rate, and one summary per case over all its runs; and iperf3 and the pauses took exactly the time the dry run announces, computed in 64 bits. A
  run that stops returns a report marked as failed with the first error and what was measured up to then; summarising never fails, and the
  only error beside a complete report is that it could not be saved.
\<close>

theorem harness_report: "result_ok env config (Harness_Run env config)"
proof (cases "RunConfig_Validate config")
  case (Some e)
  then show ?thesis by (simp add: Harness_Run_def no_report_ok)
next
  case None
  have start: "result_ok env config (let report = initial_report config env version in
      case run_matrix config env (matrix_ops config) \<lparr>hs_report = report, hs_disk = Some report, hs_log = [FetchedMetrics, WroteFile f],
        hs_completed = 0\<rparr> of (Some e, w) \<Rightarrow> fail_run env e w | (None, w) \<Rightarrow> complete_run env w)" for version f
  proof -
    obtain e w where r: "run_matrix config env (matrix_ops config) \<lparr>hs_report = initial_report config env version,
      hs_disk = Some (initial_report config env version), hs_log = [FetchedMetrics, WroteFile f], hs_completed = 0\<rparr> = (e, w)" by fastforce
    show ?thesis using matrix_run_ok [OF None r] unfolding Let_def r prod.case .
  qed
  show ?thesis unfolding Harness_Run_def None option.case
    by (intro conjI impI allI no_report_ok start | split option.split | split if_split | simp)+
qed

text \<open>A run of four operations that completes.\<close>

definition example_bench_config :: RunConfig where
  "example_bench_config =
     \<lparr>rc_Scenario = \<lparr>scn_Name = ''lab'', TURNTransport = ''udp'', ProxyMode = ''multi-session'', scn_Sessions = 2\<rparr>, rc_Revision = ''r1'',
      rc_Target = ''127.0.0.1:9000'', rc_IPerfExecutable = ''iperf3'', rc_DiagnosticsURL = ''http://127.0.0.1:6060'',
      rc_OutputDirectory = ''out'', rc_Runs = 3, rc_WarmupRuns = 1, rc_DurationSeconds = 20, rc_Settle = 5, rc_Cooldown = 7,
      rc_Cases = [\<lparr>Direction = ''download'', Parallel = 4\<rparr>], rc_Notes = []\<rparr>"

definition example_document :: iperfDocument where
  "example_document = (let s = \<lparr>sum_Seconds = Fin 20, sum_Bytes = 0, sum_BitsPerSecond = Fin 0, sum_Retransmits = 0\<rparr> in
     \<lparr>doc_Error = [], doc_Version = [], doc_SystemInfo = [], doc_Protocol = ''TCP'', doc_NumStreams = 4, doc_Duration = Fin 20,
      doc_Reverse = True, doc_SumSent = Some s, doc_SumReceived = None, doc_HostTotal = Fin 1, doc_RemoteTotal = Fin 1,
      doc_SenderTCPCongestion = []\<rparr>)"

definition example_bench_env :: harness_env where
  "example_bench_env = (let snapshot = take_snapshot (gauge SessionOpened (empty_registry None)) in
     \<lparr>he_ctx_nil = False, he_deps_nil = False, he_output = OutputFree, he_version = Some ''3.17'', he_initial = Some snapshot,
      he_mkdir = True, he_start = 0, he_initial_written = True, he_report_created = True, he_write = (\<lambda>_. True),
      he_decode = (\<lambda>_. (Some example_document, TrailerEOF)),
      he_op = (\<lambda>_ _ _. \<lparr>oo_before = Some snapshot, oo_started = 1, oo_result = \<lparr>Arguments = [], Stdout = [], Stderr = []\<rparr>, oo_command = True,
        oo_finished = 2, oo_settled = True, oo_after = Some snapshot, oo_persisted = True, oo_cooled = True\<rparr>),
      he_end = 9, he_end_persisted = True\<rparr>)"

lemma run_matrix_None:
  "(\<And>op w. op \<in> set ops \<Longrightarrow> fst (run_op config env op w) = None) \<Longrightarrow> fst (run_matrix config env ops w) = None"
proof (induction ops arbitrary: w)
  case (Cons op ops)
  then have "fst (run_op config env op w) = None" by simp
  then obtain w' where "run_op config env op w = (None, w')" by (metis prod.collapse)
  then show ?case using Cons by simp
qed simp

lemma example_summary:
  obtains s where "ParseIPerfJSON (Some example_document, TrailerEOF) = Inr s" "validateIPerfCase \<lparr>Direction = ''download'', Parallel = 4\<rparr> s = None"
proof -
  have "validRate (Fin 0)" "validRate (Fin 1)" "\<not> float_le (Fin 20) (Fin 0)"
    by (simp_all add: validRate_def float_le_def IsInf_def)
  then show ?thesis
    using that by (simp add: ParseIPerfJSON_def example_document_def validateIPerfCase_def Let_def EqualFold_def DirectionDownload_def)
qed

lemma same_snapshot:
  assumes "list_all (\<lambda>(_, b, _). 0 \<le> b) (intCounters s s)"
  shows "\<exists>d. DiffMetrics s s = Inr d"
proof -
  have "find (\<lambda>(_, b, a). b < 0 \<or> a < b) (intCounters s s) = None" "find (\<lambda>(_, b, a). a < b) (uintCounters s s) = None"
    using assms unfolding find_entry by (simp_all add: intCounters_def uintCounters_def not_less)
  then show ?thesis using DiffMetrics_Inr by blast
qed

lemma example_ops:
  assumes "op \<in> set (matrix_ops example_bench_config)"
  shows "fst (run_op example_bench_config example_bench_env op w) = None"
proof -
  let ?snap = "take_snapshot (gauge SessionOpened (empty_registry None))" and ?c = "\<lparr>Direction = ''download'', Parallel = 4\<rparr> :: bench_case"
  obtain i where op: "op = WarmupOp ?c i \<or> op = RunOp ?c i"
    using assms by (auto simp: matrix_ops_def example_bench_config_def)
  obtain s where s: "ParseIPerfJSON (Some example_document, TrailerEOF) = Inr s" "validateIPerfCase ?c s = None" by (rule example_summary)
  have "list_all (\<lambda>(_, b, _). 0 \<le> b) (intCounters ?snap ?snap)"
    by (simp add: intCounters_def take_snapshot_def empty_registry_def Let_def split: prod.split)
  then obtain d where d: "DiffMetrics ?snap ?snap = Inr d" using same_snapshot by blast
  show ?thesis
    using op s d
    by (auto simp: warmup_op_def measured_op_def example_bench_env_def Let_def writeIPerfArtifacts_def writeRunArtifacts_def
        settle_and_fetch_def finish_op_def persistReport_def)
qed

lemma example_matrix: "fst (run_matrix example_bench_config example_bench_env (matrix_ops example_bench_config) w) = None"
  by (rule run_matrix_None) (rule example_ops)

lemma example_run_completes: "rr_errors (Harness_Run example_bench_env example_bench_config) = []"
proof -
  let ?c = example_bench_config and ?env = example_bench_env
  obtain w where w: "run_matrix ?c ?env (matrix_ops ?c) \<lparr>hs_report = initial_report ?c ?env ''3.17'', hs_disk = Some (initial_report ?c ?env ''3.17''),
      hs_log = [FetchedMetrics, WroteFile ''initial.metrics.json''], hs_completed = 0\<rparr> = (None, w)"
    using example_matrix [of "\<lparr>hs_report = initial_report ?c ?env ''3.17'', hs_disk = Some (initial_report ?c ?env ''3.17''),
      hs_log = [FetchedMetrics, WroteFile ''initial.metrics.json''], hs_completed = 0\<rparr>"] by (metis prod.collapse)
  have ok: "RunConfig_Validate ?c = None" by code_simp
  have ready: "validateReady (rc_Scenario ?c) (the (he_initial ?env)) = None"
    by (simp add: validateReady_def example_bench_env_def example_bench_config_def take_snapshot_def empty_registry_def Let_def split: prod.split)
  have "Harness_Run ?env ?c = complete_run ?env w"
    using w ok ready by (simp add: Harness_Run_def Let_def example_bench_env_def)
  moreover obtain ws rs where "hs_report w = (initial_report ?c ?env ''3.17'')\<lparr>Warmups := ws, Runs := rs\<rparr>"
    "recorded_runs rs = planned_runs ?c" "list_all (\<lambda>r. iperf_ok (run_Case r) (run_IPerf r)) rs"
    using run_matrix_ok [OF w valid_config(9,7) [OF ok]] unfolding matrix_ok_def matrix_keys by (auto simp: initial_report_def)
  moreover obtain ss where "Summarize (measurements rs) = Inr ss" using matrix_summaries [OF ok] calculation(3,4) by blast
  ultimately show ?thesis
    by (simp add: complete_run_def measurements_def persistReport_def Let_def example_bench_env_def)
qed

end
