(* ===== verification/Spec2Isabelle.thy ===== *)
theory Spec2Isabelle
  imports Bond_Interleaving Bond_Manager Client_Config Server_Handlers Local_Peer Client_Loops Pipe_Copy Bench_Harness
begin

text \<open>
  vk-turn-proxy carries UDP packets or VLESS streams between a client and a server through the TURN relays of a call service.
  The client obtains TURN credentials, allocates relays, opens DTLS connections through them to the server, whose certificate it pins,
  proves that it knows the server's token, and runs KCP and smux on top, over one connection per session or over a bond of
  several. The server admits connections within limits, collects the paths of a bond into groups, and
  forwards each stream to its backend. Both sides keep metrics and can serve them over an authenticated loopback endpoint.

  \<^bold>\<open>Go.\<close> \<open>Go_Prelude\<close> holds byte strings, decimal and hexadecimal text, 64-bit integers and the outcomes of connection calls;
  \<open>Go_Net\<close> addresses and IP literals; \<open>Go_Files\<close> private files and their atomic publication; \<open>Go_Float\<close> IEEE
  doubles with rounding; \<open>Transitions\<close> reachability of a step relation and, as the locale \<open>invariant_system\<close>, its invariants.

  \<^bold>\<open>Transport\<close> (\<open>src/tcputil\<close>). \<open>Tuning\<close>: environment, validation, FEC text and window scaling of \<open>tcputil.go\<close>. \<open>Bond_Hello\<close>: the
  control records of a bonded path. \<open>Bonded_Conn\<close>: every method of \<open>BondedPacketConn\<close> as a function of its state. \<open>Bond_Interleaving\<close>: the same
  methods cut at their mutexes and channels into steps that any number of goroutines interleave, and the proof that each
  method is such a sequence of steps. \<open>Pipe_Copy\<close>: \<open>pipe.go\<close>.

  \<^bold>\<open>Server\<close> (\<open>src/server\<close>). \<open>Server_Limits\<close>: connection limiter, concurrency limiter (also instruction by instruction) and backend gate, which
  all implement the contract of the locale \<open>slot_limiter\<close>, and the UDP idle watchdog. \<open>Server_Handlers\<close>: the accept loop with its connection
  goroutines and the smux sessions with their stream goroutines as two step relations over those limits. \<open>Bond_Manager\<close>: bond groups.

  \<^bold>\<open>Authentication.\<close> \<open>Session_Auth\<close>: token files and token exchange (\<open>src/sessionauth\<close>). \<open>Dtls_Auth\<close>: fingerprints, the client's policy, and the server's
  persistent identity (\<open>src/dtlsauth\<close>, \<open>src/server/dtls_identity.go\<close>, \<open>src/client/dtls_config.go\<close>).

  \<^bold>\<open>Client\<close> (\<open>src/client\<close>). \<open>Client_Config\<close>: the checks of both programs' command lines in the order \<open>main\<close> applies them.
  \<open>Credentials\<close>: credential caches, throttling and invalidation. \<open>Client_Connections\<close>: set-up and clean-up of one connection and the packet bridge.
  \<open>Client_Loops\<close>: the loops that keep sessions and bond paths alive. \<open>Session_Pool\<close>: choice of a session for a stream. \<open>Bond_Supervisor\<close>: bond
  generations and the fallback to the old protocol. \<open>Local_Peer\<close>: the pinned local sender and its queue.

  \<^bold>\<open>Observation.\<close> \<open>Metrics_Registry\<close> (\<open>src/metrics\<close>), \<open>Diagnostics\<close> (\<open>src/diagnostics\<close>), \<open>Bench_Stats\<close> and \<open>Bench_Harness\<close> (the
  measurements and the runner of \<open>src/baseline\<close>).

  \<^bold>\<open>Correspondence.\<close> Structs are records and named constants keep the source's names; a prefix or suffix avoids clashes. Pointers that are
  shared are indices of a heap list. A fallible function returns a sum or an option, one value per error of the source.
  What is outside the program, such as sockets, timers, the kernel's file operations, cryptography, KCP, smux, DTLS and TURN,
  is an argument: a record of outcomes, a function, or a list of the events a loop sees. Hypotheses
  on these arguments are stated in the theorems, and their witnesses instantiate them. Counters are \<open>64 word\<close>s; \<open>int\<close> wraps
  by \<open>wrap64\<close> where it can leave its range. Time is an integer of nanoseconds.

  \<^bold>\<open>What is shown.\<close> This theory has the properties that span components: a bond handshake from the client's tuning to
  its reaction to the answer, and a deployment in which a server started from its files and a client given its fingerprint and token
  authenticate each other. The other theories show: text formats round-trip and what is read is valid; limits hold and leases are released exactly once in every
  interleaving; each path of a bond is torn down exactly once, writes stripe and fail over as specified, and closing can always
  return; a failed set-up closes all it opened and a successful one is authenticated; nothing is served or used before authentication; diagnostics stay on the
  loopback and behind their token; credentials are fresh; retries, waits and queues are bounded; counters add up; medians lie in the middle under rounding,
  and a benchmark report is complete or says why it is not.

  \<^bold>\<open>Termination and fuel.\<close> Loops over lists are structural. The idle watchdog and the opening of a stream take fuel, and their theorems
  prove that a number of rounds computed from the inputs (the packets recorded, or the deadline divided by the polling interval) suffices for
  them to return, so no result depends on the fuel. A loop that runs until its context ends is a function of the finite list of rounds it has seen.

  \<^bold>\<open>Not modelled.\<close> Captcha solving (\<open>slider_captcha.go\<close>, \<open>manual_captcha.go\<close>, \<open>http_body.go\<close>, \<open>safe_errors.go\<close>), the dialogue with the
  service that issues credentials (\<open>getTokenChain\<close>) and the browser profiles and names it sends (\<open>profiles.go\<close>, \<open>namegen.go\<close>): they scrape and imitate pages and answers
  of a third party for which there is no specification; the outcome of the dialogue is an argument of \<open>Credentials\<close>. The socket adapters of the client forward calls and hold no
  state of their own. The benchmark's HTTP client and command line (\<open>http_metrics.go\<close>, \<open>src/cmd/vk-turn-bench\<close>)
  only produce the configuration and the snapshots that are arguments of \<open>Bench_Harness\<close>. Logging, and the internals of KCP, smux, DTLS, TURN and cryptography, are left out throughout.
\<close>

section \<open>The bond handshake\<close>

lemma rejection_codes:
  "isValidBondRejectionCode ''PROFILE_MISMATCH''" "isValidBondRejectionCode ''GROUP_MISMATCH''"
  by code_simp+

text \<open>The client reads the line with which the server refuses.\<close>

lemma reject_read:
  assumes "isValidBondRejectionCode code"
  shows "\<exists>line. snd (WriteBondHelloReject (datagram_conn d) code) = [line] \<and>
    ReadBondHelloAck (datagram_conn line) = Some (BondHelloRejection code)"
  using reject_words_read [OF assms] by (metis snd_conv)

definition group_agrees :: "vlessBondManager \<Rightarrow> BondHello \<Rightarrow> bool" where
  "group_agrees m h \<longleftrightarrow> (case mgr_groups m (BondID h) of None \<Rightarrow> True | Some g \<Rightarrow> matchesHello (mgr_heap m ! g) h)"

lemma server_answer:
  assumes "ReadBondHelloConfig (datagram_conn line) = Inr h" "Version h = BondProtocolV2"
  shows "\<exists>reply. add_hello v (datagram_conn line) m =
      (if ValidateBondHelloTuning v h \<noteq> None then Inl (AddProfileMismatch (the (ValidateBondHelloTuning v h)))
       else if \<not> group_agrees m h then Inl AddGroupMismatch else Inr h, [reply]) \<and>
    ReadBondHelloAck (datagram_conn reply) =
      (if ValidateBondHelloTuning v h \<noteq> None then Some (BondHelloRejection ''PROFILE_MISMATCH'')
       else if \<not> group_agrees m h then Some (BondHelloRejection ''GROUP_MISMATCH'') else None)"
proof -
  obtain p where p: "snd (WriteBondHelloReject (datagram_conn line) ''PROFILE_MISMATCH'') = [p]"
    "ReadBondHelloAck (datagram_conn p) = Some (BondHelloRejection ''PROFILE_MISMATCH'')"
    using reject_read [OF rejection_codes(1)] by blast
  obtain g where g: "snd (WriteBondHelloReject (datagram_conn line) ''GROUP_MISMATCH'') = [g]"
    "ReadBondHelloAck (datagram_conn g) = Some (BondHelloRejection ''GROUP_MISMATCH'')"
    using reject_read [OF rejection_codes(2)] by blast
  show ?thesis
  proof (cases "ValidateBondHelloTuning v h")
    case (Some e)
    then show ?thesis using assms p by (auto simp: add_hello_def rejectV2BondHello_def)
  next
    case None
    then show ?thesis
      using assms g ack_roundtrip(1) [of line] ack_roundtrip(2)
      by (cases "group_agrees m h") (auto simp: add_hello_def rejectV2BondHello_def group_agrees_def split: option.split_asm)
  qed
qed

text \<open>
  C1. The bond handshake from end to end. For every validated client tuning, identifier and path count, the hello the client
  writes is read back by the server unchanged, and the server answers with one line. The client
  reads an acknowledgement exactly when the server goes on with that hello, and that is exactly when MTU and FEC
  profile are equal on both sides and the group, if there is one, was opened with the same hello;
  otherwise the client reads a rejection, which ends its generation
  at once and never leads it back to the old protocol.
\<close>

theorem bond_handshake:
  assumes "validateTuning client = []" "isValidBondID bid" "1 \<le> n" "n \<le> 64"
  shows "let hello = CurrentBondHello client bid n;
             agree = (mtu client = mtu server \<and> dataShards client = dataShards server \<and>
                      parityShards client = parityShards server \<and> group_agrees m hello) in
    (\<exists>line reply r. WriteBondHelloConfig (datagram_conn d) hello = (None, [line]) \<and>
       add_hello server (datagram_conn line) m = (r, [reply]) \<and>
       (r = Inr hello \<longleftrightarrow> agree) \<and> (ReadBondHelloAck (datagram_conn reply) = None \<longleftrightarrow> agree) \<and>
       (\<forall>e proto k i active st. ReadBondHelloAck (datagram_conn reply) = Some e \<longrightarrow>
          setup_event proto k i e active st = Inl (GenHelloRejected e)))"
proof -
  let ?h = "CurrentBondHello client bid n"
  from hello_roundtrip [OF current_hello_valid [OF assms], of d] obtain line where
    line: "WriteBondHelloConfig (datagram_conn d) ?h = (None, [line])" "ReadBondHelloConfig (datagram_conn line) = Inr ?h"
    by blast
  have v2: "Version ?h = BondProtocolV2" by (simp add: CurrentBondHello_def)
  from server_answer [OF line(2) v2, of server m] obtain reply where
    reply: "add_hello server (datagram_conn line) m =
      (if ValidateBondHelloTuning server ?h \<noteq> None then Inl (AddProfileMismatch (the (ValidateBondHelloTuning server ?h)))
       else if \<not> group_agrees m ?h then Inl AddGroupMismatch else Inr ?h, [reply])"
    "ReadBondHelloAck (datagram_conn reply) =
      (if ValidateBondHelloTuning server ?h \<noteq> None then Some (BondHelloRejection ''PROFILE_MISMATCH'')
       else if \<not> group_agrees m ?h then Some (BondHelloRejection ''GROUP_MISMATCH'') else None)"
    by blast
  have rej: "setup_event proto k i e active st = Inl (GenHelloRejected e)"
    if "ReadBondHelloAck (datagram_conn reply) = Some e" for e proto k i active st
    using that unfolding reply(2) by (auto simp: setup_event_def is_bond_hello_rejected_def split: if_split_asm)
  define r where "r = fst (add_hello server (datagram_conn line) m)"
  have "add_hello server (datagram_conn line) m = (r, [reply])" unfolding r_def reply(1) by simp
  moreover have "ValidateBondHelloTuning server ?h = None \<longleftrightarrow>
      mtu client = mtu server \<and> dataShards client = dataShards server \<and> parityShards client = parityShards server"
    by (rule profile_agreement_iff [OF assms])
  moreover have "r = Inr ?h \<longleftrightarrow> ValidateBondHelloTuning server ?h = None \<and> group_agrees m ?h"
    "ReadBondHelloAck (datagram_conn reply) = None \<longleftrightarrow> ValidateBondHelloTuning server ?h = None \<and> group_agrees m ?h"
    unfolding r_def reply by simp_all
  ultimately show ?thesis unfolding Let_def using line(1) rej
    by - (rule exI [of _ line], rule exI [of _ reply], rule exI [of _ r], simp add: conj_assoc)
qed

theorem bond_handshake_witness:
  "\<exists>line reply r. WriteBondHelloConfig (datagram_conn []) (CurrentBondHello example_tuning ''0011223344556677'' 4) = (None, [line]) \<and>
     add_hello example_tuning (datagram_conn line) newVLESSBondManager = (r, [reply]) \<and>
     ReadBondHelloAck (datagram_conn reply) = None"
proof -
  have "validateTuning example_tuning = []" "isValidBondID ''0011223344556677''" by code_simp+
  moreover have "group_agrees newVLESSBondManager (CurrentBondHello example_tuning ''0011223344556677'' 4)"
    by (simp add: group_agrees_def newVLESSBondManager_def)
  ultimately show ?thesis
    using bond_handshake [of example_tuning "''0011223344556677''" 4 example_tuning newVLESSBondManager "[]"]
    by (auto simp: Let_def)
qed

section \<open>A deployment\<close>

lemma identity_other_files:
  assumes "loadServerDTLSIdentity c env fs certFile keyFile = (r, fs')"
    and "temp_name env \<noteq> Clean certFile" "fs (temp_name env) = None" "q \<noteq> Clean certFile"
  shows "fs' q = fs q"
proof -
  have ens: "fs1 q = fs q" if "ensure_identity c env fs certFile keyFile = (e, fs1)" for e fs1
    using that publish_file_cases(1) [where env = env and fs = fs and path = "Clean certFile", OF assms(2,3)] assms(4)
    by (auto simp: ensure_identity_def createPersistentDTLSIdentity_def Let_def
        split: if_split_asm option.split_asm list.split_asm prod.split_asm)
  show ?thesis
    using assms(1) ens by (auto simp: loadServerDTLSIdentity_def Let_def split: if_split_asm option.split_asm prod.split_asm)
qed

lemma same_token:
  assumes "LoadTokenFile e1 fs1 p1 = Inr t1" "LoadTokenFile e2 fs2 p2 = Inr t2"
    and "fs1 (TrimSpace p1) = Some f1" "fs2 (TrimSpace p2) = Some f2" "file_content f1 = file_content f2"
  shows "t1 = t2"
  using LoadTokenFile_private [OF assms(1)] LoadTokenFile_private [OF assms(2)] assms(3-5) by auto

text \<open>
  C2. A deployment made by the book authenticates both ways. If a server has started and created or
  loaded its identity and token, and a client starts with the fingerprint the server printed and with a copy of
  the server's token file, then both hold the same token; the client accepts exactly the peers that show the server's leaf digest, among
  them the server itself; and the token exchange succeeds on both ends.
\<close>

theorem deployment_authenticates:
  assumes "server_main c senv sf = (Inr scfg, sfs)" and "client_main cenv cf = Inr ccfg"
    and "\<And>x. length (Sum256 c x) = fingerprintBytes"
    and "cf_fingerprint cf = fingerprint_string (fingerprint (sc_identity scfg))" "\<not> cf_insecure cf"
    and "\<not> sf_unsafeClients sf" "\<not> cf_disableAuth cf"
    and "TrimSpace (sf_tokenFile sf) = sf_tokenFile sf" "sf_tokenFile sf \<noteq> []"
    and "temp_name (pe_os senv) \<noteq> Clean (sf_certFile sf)" "temp_name (pe_os senv) \<noteq> sf_tokenFile sf"
    and "pe_files senv (temp_name (pe_os senv)) = None" "\<not> read_fails (pe_os senv)"
    and "length (rand_bytes (pe_os senv)) = tokenBytes" "rand_bytes (pe_os senv) \<noteq> zero_token"
    and "sfs (sf_tokenFile sf) = Some h" "pe_files cenv (TrimSpace (cf_tokenFile cf)) = Some g" "file_content g = file_content h"
  shows "\<exists>t opts. sc_token scfg = Some t \<and> cc_token ccfg = Some t \<and>
    clientDTLSOptions cert (cc_authentication ccfg) = Inr opts \<and>
    (\<forall>raw. peer_accepted c chain_ok opts raw \<longleftrightarrow> leaf_digest c raw = Some (fingerprint (sc_identity scfg))) \<and>
    peer_accepted c chain_ok opts (cert_chain (certificate (sc_identity scfg))) \<and>
    Authenticate (datagram_conn authOK) t = (None, [authPrefix @ t]) \<and>
    Verify (datagram_conn (authPrefix @ t)) t = (None, [authOK])"
proof -
  from server_main_parts(4) [OF assms(1)] obtain fs1 where
    ident: "loadServerDTLSIdentity c (pe_os senv) (pe_files senv) (sf_certFile sf) (sf_keyFile sf) = (Inr (sc_identity scfg), fs1)"
    and tok: "server_token (pe_os senv) fs1 sf = (Inr (sc_token scfg), sfs)"
    by blast
  from server_token_cases(1) [OF tok] assms(6) obtain t where t: "sc_token scfg = Some t" by auto
  from server_token_cases(2) [OF tok t] obtain created where
    lc: "LoadOrCreateTokenFile (pe_os senv) fs1 (sf_tokenFile sf) = (Inr (t, created), sfs)" by blast
  have "fs1 (temp_name (pe_os senv)) = None"
    using identity_other_files [OF ident assms(10,12) assms(10)] assms(12) by simp
  from token_file_once [OF assms(8,9,11) this assms(14,15,13) lc]
  have st: "LoadTokenFile (pe_os senv) sfs (sf_tokenFile sf) = Inr t" by blast
  note cp = client_main_parts [OF assms(2)]
  from client_token_cases(1) [OF cp(3)] assms(7) obtain t' where t': "cc_token ccfg = Some t'" by auto
  have "t' = t"
    using same_token [OF client_token_cases(2) [OF cp(3) t'] st assms(17)] assms(8,16,18) by simp
  moreover obtain a opts where a: "NewClientAuthentication (cf_fingerprint cf) False = Inr a" "clientDTLSOptions cert a = Inr opts"
      "\<forall>raw. peer_accepted c chain_ok opts raw \<longleftrightarrow> leaf_digest c raw = Some (fingerprint (sc_identity scfg))"
      "peer_accepted c chain_ok opts (cert_chain (certificate (sc_identity scfg)))"
    using printed_pin_accepted [OF assms(3) ident, of cert chain_ok] assms(4) by metis
  moreover have "cc_authentication ccfg = a" using a(1) cp(2) assms(5) by simp
  moreover have "Authenticate (datagram_conn authOK) t = (None, [authPrefix @ t])"
    "Verify (datagram_conn (authPrefix @ t)) t = (None, [authOK])"
    by (simp_all add: Authenticate_datagram Verify_datagram)
  ultimately show ?thesis using t t' by blast
qed

definition example_server_flags :: server_flags where
  "example_server_flags = \<lparr>sf_connect = ''127.0.0.1:51820'', sf_listen = ''0.0.0.0:56000'', sf_vless = False, sf_vlessBond = False,
     sf_wrap = False, sf_wrapKey = [], sf_genWrapKey = False, sf_maxConnections = 64, sf_maxConnectionsPerIP = 16,
     sf_maxBackend = 256, sf_maxStreams = 64, sf_certFile = ''id.pem'', sf_keyFile = ''id.pem'', sf_tokenFile = ''t'',
     sf_unsafeClients = False, sf_diagnostics = \<lparr>opt_ListenAddress = [], opt_TokenFile = [], opt_EnablePprof = False\<rparr>\<rparr>"

definition example_server :: "(flag_error + server_config) \<times> filesystem" where
  "example_server = server_main example_crypto (example_process\<lparr>pe_files := Map.empty\<rparr>) example_server_flags"

definition example_client :: "flag_error + client_config" where
  "example_client = client_main (example_process\<lparr>pe_files := snd example_server\<rparr>)
     (example_flags\<lparr>cf_insecure := False, cf_fingerprint := fingerprint_string (fingerprint (sc_identity (projr (fst example_server))))\<rparr>)"

theorem deployment_authenticates_witness:
  "\<exists>scfg ccfg t. fst example_server = Inr scfg \<and> example_client = Inr ccfg \<and> sc_token scfg = Some t \<and> cc_token ccfg = Some t"
proof -
  have "\<not> isl (fst example_server)" "\<not> isl example_client" by code_simp+
  then obtain scfg ccfg where r: "fst example_server = Inr scfg" "example_client = Inr ccfg" by (auto simp: isl_def) (metis sum.exhaust_sel)
  have s: "server_main example_crypto (example_process\<lparr>pe_files := Map.empty\<rparr>) example_server_flags = (Inr scfg, snd example_server)"
    using r(1) unfolding example_server_def by (metis prod.collapse)
  have len: "length (Sum256 example_crypto x) = fingerprintBytes" for x
    by (simp add: example_crypto_def fingerprintBytes_def)
  have files: "TrimSpace ''t'' = ''t''" "temp_name example_env \<noteq> Clean ''id.pem''" "temp_name example_env \<noteq> ''t''"
    "length (rand_bytes example_env) = tokenBytes" "rand_bytes example_env \<noteq> zero_token" "snd example_server ''t'' \<noteq> None"
    by code_simp+
  then obtain h where h: "snd example_server ''t'' = Some h" by auto
  show ?thesis
    using deployment_authenticates [where h = h and g = h, OF s r(2) [unfolded example_client_def] len] r files h
    by (simp add: example_server_flags_def example_flags_def example_process_def example_env_def) blast
qed

end
